(* ===== verification/Prelude.thy ===== *)
theory Prelude
  imports Main "HOL-Library.Word"
begin

text \<open>
  The prelude of the development: the type of a JavaScript string (a list of 16-bit code
  units), the embedding of ASCII literals into it, the collections of facts the component
  proofs name, and the generic list and option lemmas they share.
\<close>

section \<open>Collections of facts\<close>

named_theorems lit_eval \<open>evaluation of operations on literal strings\<close>
named_theorems step_simps \<open>one-step equations of the statement interpreters\<close>

section \<open>Code units and literals\<close>

text \<open>
  A JavaScript string is a sequence of 16-bit code units. \<open>cu c\<close> is the code unit of an
  8-bit character and \<open>js s\<close> the JavaScript string of a literal of the source.
\<close>

type_synonym cu = "16 word"
type_synonym jsstr = "cu list"

definition cu :: "char \<Rightarrow> cu" where
  "cu c = word_of_nat (of_char c)"

definition js :: "string \<Rightarrow> jsstr" where
  "js s = map cu s"

lemma of_char_less_unit: "256 \<le> n \<Longrightarrow> (of_char c :: nat) < n"
  by (rule less_le_trans [OF nat_of_char_less_256])

lemma unat_cu [simp]: "unat (cu c) = of_char c"
  by (simp add: cu_def unat_of_nat mod_less of_char_less_unit)

lemma cu_eq_iff [simp]: "cu a = cu b \<longleftrightarrow> a = b"
  by (metis of_char_eq_iff unat_cu)

lemma js_Nil [simp]: "js [] = []"
  by (simp add: js_def)

lemma js_Cons [lit_eval]: "js (c # s) = cu c # js s"
  by (simp add: js_def)

lemma js_append: "js (s @ t) = js s @ js t"
  by (simp add: js_def)

lemma js_eq_iff [simp]: "js s = js t \<longleftrightarrow> s = t"
proof
  assume "js s = js t"
  then show "s = t"
    unfolding js_def by (rule map_injective) (simp add: inj_def)
qed simp

lemma js_eq_Nil_iff [simp]: "js s = [] \<longleftrightarrow> s = []"
  by (simp add: js_def)

lemma Nil_eq_js_iff [simp]: "[] = js s \<longleftrightarrow> s = []"
  by (auto simp: js_def)

lemma length_js [simp]: "length (js s) = length s"
  by (simp add: js_def)

lemma set_js: "set (js s) = cu ` set s"
  by (simp add: js_def)

lemma cu_in_js_iff [simp]: "cu c \<in> set (js s) \<longleftrightarrow> c \<in> set s"
  by (auto simp: set_js)

lemma unat_eq_cuI: "unat u = of_char c \<Longrightarrow> u = cu c"
  by (metis unat_cu word_unat_eq_iff)

lemma eq_cu_iff: "u = cu c \<longleftrightarrow> unat u = of_char c"
  by (metis unat_cu word_unat_eq_iff)

lemma of_char_eq_nat: "n < 256 \<Longrightarrow> (of_char c :: nat) = n \<longleftrightarrow> c = char_of n"
  by (metis char_of_char of_char_of mod_less)

lemmas char_code_simps = of_char_eq_nat char_of_def bit_Suc_0_iff

lemma unat_unit_less [simp]: "unat (u :: cu) < 65536"
  using unsigned_less [of u] by simp

section \<open>Lists and options\<close>

text \<open>\<open>collect_opt\<close> is a JavaScript loop that pushes computed values and may throw.\<close>

fun collect_opt :: "'a option list \<Rightarrow> 'a list option" where
  "collect_opt [] = Some []"
| "collect_opt (None # xs) = None"
| "collect_opt (Some x # xs) = map_option (Cons x) (collect_opt xs)"

lemma collect_opt_map_Some [simp]: "collect_opt (map (\<lambda>x. Some (f x)) xs) = Some (map f xs)"
  by (induction xs) auto

lemma collect_opt_eq_Some_iff:
  "collect_opt xs = Some ys \<longleftrightarrow> xs = map Some ys"
proof (induction xs arbitrary: ys rule: collect_opt.induct)
  case (2 xs)
  then show ?case by (cases ys) auto
qed (auto simp: map_eq_Cons_conv)

lemma takeWhile_append_stop:
  "\<forall>x\<in>set xs. P x \<Longrightarrow> \<not> P y \<Longrightarrow> takeWhile P (xs @ y # ys) = xs"
  by (induction xs) auto

lemma dropWhile_append_stop:
  "\<forall>x\<in>set xs. P x \<Longrightarrow> \<not> P y \<Longrightarrow> dropWhile P (xs @ y # ys) = y # ys"
  by (induction xs) auto

lemma map_option_eq_Some_iff:
  "map_option f x = Some y \<longleftrightarrow> (\<exists>z. x = Some z \<and> y = f z)"
  by (cases x) auto

lemma map_of_distinct_append:
  "k \<notin> fst ` set xs \<Longrightarrow> map_of (xs @ ys) k = map_of ys k"
  by (induction xs) auto

end
