(* ===== verification/JsString.thy ===== *)
theory JsString
  imports Prelude
begin

text \<open>
  The String.prototype operations that the source uses, on code-unit lists: \<open>substring\<close>,
  \<open>substr\<close>, \<open>charAt\<close>, \<open>indexOf\<close>, \<open>includes\<close>, \<open>split\<close>, \<open>join\<close>, \<open>trim\<close> and
  \<open>toLowerCase\<close>. An index of -1 is \<open>None\<close>.
\<close>

section \<open>Definitions\<close>

definition starts_with :: "jsstr \<Rightarrow> jsstr \<Rightarrow> bool" where
  "starts_with p s \<longleftrightarrow> take (length p) s = p"

fun index_of :: "jsstr \<Rightarrow> jsstr \<Rightarrow> nat option" where
  "index_of p [] = (if p = [] then Some 0 else None)"
| "index_of p (x # s) =
     (if starts_with p (x # s) then Some 0 else map_option Suc (index_of p s))"

definition str_includes :: "jsstr \<Rightarrow> jsstr \<Rightarrow> bool" where
  "str_includes p s \<longleftrightarrow> index_of p s \<noteq> None"

definition substring :: "nat \<Rightarrow> nat \<Rightarrow> jsstr \<Rightarrow> jsstr" where
  "substring i j s = take (max i j - min i j) (drop (min i j) s)"

definition substring_from :: "nat \<Rightarrow> jsstr \<Rightarrow> jsstr" where
  "substring_from i s = drop i s"

definition substr :: "nat \<Rightarrow> nat \<Rightarrow> jsstr \<Rightarrow> jsstr" where
  "substr i n s = take n (drop i s)"

definition charAt :: "nat \<Rightarrow> jsstr \<Rightarrow> jsstr" where
  "charAt i s = take 1 (drop i s)"

text \<open>
  \<open>split\<close> with a separator: cut at the first occurrence and go on behind it. An empty
  separator gives the single code units.
\<close>

lemma index_of_bound: "index_of p s = Some i \<Longrightarrow> i + length p \<le> length s"
proof (induction p s arbitrary: i rule: index_of.induct)
  case (2 p x s)
  show ?case
  proof (cases "starts_with p (x # s)")
    case True
    then have "length p \<le> length (x # s)"
      by (metis nat_le_linear starts_with_def take_all_iff)
    with True 2 show ?thesis by simp
  next
    case False
    with 2 show ?thesis by auto
  qed
qed (simp split: if_splits)

function split_on :: "jsstr \<Rightarrow> jsstr \<Rightarrow> jsstr list" where
  "split_on p s =
     (if p = [] then map (\<lambda>c. [c]) s
      else case index_of p s of
             None \<Rightarrow> [s]
           | Some i \<Rightarrow> take i s # split_on p (drop (i + length p) s))"
  by pat_completeness auto
termination
proof (relation "measure (length \<circ> snd)")
  fix p s :: jsstr and i
  assume "p \<noteq> []" and "index_of p s = Some i"
  then show "((p, drop (i + length p) s), p, s) \<in> measure (length \<circ> snd)"
    using index_of_bound [of p s i] by (cases p) simp_all
qed simp

declare split_on.simps [simp del]

fun join :: "jsstr \<Rightarrow> jsstr list \<Rightarrow> jsstr" where
  "join sep [] = []"
| "join sep [x] = x"
| "join sep (x # y # xs) = x @ sep @ join sep (y # xs)"

text \<open>White space and line terminators of the language, as \<open>trim\<close> and \<open>\\s\<close> see them.\<close>

definition is_ws :: "cu \<Rightarrow> bool" where
  "is_ws u \<longleftrightarrow>
     u \<in> set [0x09, 0x0A, 0x0B, 0x0C, 0x0D, 0x20, 0xA0, 0x1680, 0x2000, 0x2001, 0x2002, 0x2003,
              0x2004, 0x2005, 0x2006, 0x2007, 0x2008, 0x2009, 0x200A, 0x2028, 0x2029, 0x202F,
              0x205F, 0x3000, 0xFEFF]"

definition trim_start :: "jsstr \<Rightarrow> jsstr" where
  "trim_start s = dropWhile is_ws s"

definition trim :: "jsstr \<Rightarrow> jsstr" where
  "trim s = rev (dropWhile is_ws (rev (trim_start s)))"

text \<open>
  \<open>toLowerCase\<close>: the source only compares the result with ASCII literals. The code units
  whose lower case is ASCII are the letters A to Z and U+212A (the Kelvin sign); every other
  code unit is kept, which cannot make a comparison with an ASCII literal succeed or fail.
\<close>

definition lower_unit :: "cu \<Rightarrow> cu" where
  "lower_unit u =
     (if 65 \<le> unat u \<and> unat u \<le> 90 then u + 32
      else if u = 0x212A then cu (CHR ''k'') else u)"

definition toLowerCase :: "jsstr \<Rightarrow> jsstr" where
  "toLowerCase s = map lower_unit s"

text \<open>\<open>replaceAll1 c r s\<close> is \<open>s.replace(/c/g, r)\<close> for a single code unit.\<close>

definition replace_unit :: "cu \<Rightarrow> jsstr \<Rightarrow> jsstr \<Rightarrow> jsstr" where
  "replace_unit c r s = concat (map (\<lambda>x. if x = c then r else [x]) s)"

text \<open>Runs of white space as single spaces, and the longest prefix in a class with the rest behind it.\<close>

function collapse_ws :: "jsstr \<Rightarrow> jsstr" where
  \<comment> \<open>\<open>.replace(/\s+/g, ' ')\<close>\<close>
  "collapse_ws [] = []"
| "collapse_ws (u # s) =
     (if is_ws u then cu (CHR '' '') # collapse_ws (dropWhile is_ws s) else u # collapse_ws s)"
  by pat_completeness auto
termination
  by (relation "measure length") (auto simp: le_imp_less_Suc length_dropWhile_le)

definition longest_prefix :: "('a \<Rightarrow> bool) \<Rightarrow> 'a list \<Rightarrow> 'a list \<times> 'a list" where
  "longest_prefix p s = (takeWhile p s, dropWhile p s)"

section \<open>Lemmas\<close>

lemma starts_with_Nil [simp]: "starts_with [] s"
  by (simp add: starts_with_def)

lemma starts_with_append [simp]: "starts_with p (p @ s)"
  by (simp add: starts_with_def)

lemma starts_with_Cons [simp]:
  "starts_with (c # p) s \<longleftrightarrow> (\<exists>t. s = c # t \<and> starts_with p t)"
  by (cases s) (auto simp: starts_with_def)

lemma starts_with_iff: "starts_with p s \<longleftrightarrow> (\<exists>t. s = p @ t)"
  by (metis append_take_drop_id starts_with_append starts_with_def)

lemma index_of_single_None [simp]: "c \<notin> set s \<Longrightarrow> index_of [c] s = None"
  by (induction s) auto

lemma index_of_single:
  "c \<notin> set s \<Longrightarrow> index_of [c] (s @ c # t) = Some (length s)"
  by (induction s) auto

lemma index_of_first_absent:
  "c \<notin> set s \<Longrightarrow> index_of (c # p) s = None"
  by (induction s) auto

text \<open>
  The first unit of the separator does not occur in the text in front of it: then the
  separator is found right behind that text, or the search goes on behind it.
\<close>

lemma index_of_append_absent:
  "c \<notin> set s \<Longrightarrow> index_of (c # p) (s @ t) = map_option ((+) (length s)) (index_of (c # p) t)"
proof (induction s)
  case Nil
  then show ?case by (cases "index_of (c # p) t") simp_all
next
  case (Cons x s)
  then show ?case by (cases "index_of (c # p) t") auto
qed

lemma index_of_here: "p \<noteq> [] \<Longrightarrow> index_of p (p @ t) = Some 0"
  by (cases p) auto

lemma index_of_found:
  "c \<notin> set s \<Longrightarrow> index_of (c # p) (s @ c # p @ t) = Some (length s)"
  using index_of_append_absent [of c s p "(c # p) @ t"] index_of_here [of "c # p" t] by simp

lemma split_on_none: "p \<noteq> [] \<Longrightarrow> index_of p s = None \<Longrightarrow> split_on p s = [s]"
  by (simp add: split_on.simps [of p s])

lemma split_on_some:
  "p \<noteq> [] \<Longrightarrow> index_of p s = Some i \<Longrightarrow>
     split_on p s = take i s # split_on p (drop (i + length p) s)"
  by (simp add: split_on.simps [of p s])

lemma split_on_absent [simp]: "c \<notin> set s \<Longrightarrow> split_on (c # p) s = [s]"
  by (simp add: split_on_none index_of_first_absent)

lemma split_on_found:
  "c \<notin> set s \<Longrightarrow> split_on (c # p) (s @ c # p @ t) = s # split_on (c # p) t"
  by (simp add: split_on_some index_of_found)

lemma split_on_found1: "c \<notin> set s \<Longrightarrow> split_on [c] (s @ c # t) = s # split_on [c] t"
  using split_on_found [of c s "[]" t] by simp

lemma split_on_nonempty [simp]: "p \<noteq> [] \<Longrightarrow> split_on p s \<noteq> []"
  by (simp add: split_on.simps [of p s] split: option.splits)

text \<open>\<open>split\<close> undoes \<open>join\<close> when no part contains the separator.\<close>

lemma split_on_join:
  assumes "xs \<noteq> []" and "\<forall>x\<in>set xs. c \<notin> set x"
  shows "split_on [c] (join [c] xs) = xs"
  using assms
proof (induction "[c]" xs rule: join.induct)
  case (3 x y xs)
  then have "split_on [c] (join [c] (y # xs)) = y # xs" and "c \<notin> set x" by simp_all
  then show ?case by (simp add: split_on_found1)
qed simp_all

lemma join_Cons: "xs \<noteq> [] \<Longrightarrow> join sep (x # xs) = x @ sep @ join sep xs"
  by (cases xs) simp_all

lemma join_append:
  "xs \<noteq> [] \<Longrightarrow> ys \<noteq> [] \<Longrightarrow> join sep (xs @ ys) = join sep xs @ sep @ join sep ys"
  by (induction sep xs rule: join.induct) (auto simp: join_Cons)

lemma set_join: "set (join sep xs) \<subseteq> set sep \<union> \<Union> (set ` set xs)"
  by (induction sep xs rule: join.induct) auto

lemma index_of_starts: "index_of p s = Some i \<Longrightarrow> starts_with p (drop i s)"
  by (induction p s arbitrary: i rule: index_of.induct) (auto split: if_splits)

lemma index_of_split:
  "index_of p s = Some i \<Longrightarrow> s = take i s @ p @ drop (i + length p) s"
  by (metis add.commute append_take_drop_id drop_drop index_of_starts starts_with_def)

lemma join_split_on: "p \<noteq> [] \<Longrightarrow> join p (split_on p s) = s"
proof (induction p s rule: split_on.induct)
  case (1 p s)
  show ?case
  proof (cases "index_of p s")
    case None
    with 1 show ?thesis by (simp add: split_on_none)
  next
    case (Some i)
    then have "join p (split_on p (drop (i + length p) s)) = drop (i + length p) s"
      using 1 by simp
    then have "join p (split_on p s) = take i s @ p @ drop (i + length p) s"
      using 1 Some by (simp add: split_on_some join_Cons)
    then show ?thesis using index_of_split [OF Some] by simp
  qed
qed

lemma trim_id:
  assumes "s \<noteq> []" and "\<not> is_ws (hd s)" and "\<not> is_ws (last s)"
  shows "trim s = s"
proof -
  have "trim_start s = s"
    using assms(1,2) by (cases s) (simp_all add: trim_start_def)
  moreover obtain ys y where "s = ys @ [y]"
    using assms(1) by (cases s rule: rev_cases) auto
  ultimately show ?thesis
    using assms(3) by (simp add: trim_def)
qed

lemma trim_no_ws: "\<forall>u\<in>set s. \<not> is_ws u \<Longrightarrow> trim s = s"
proof (cases "s = []")
  case False
  moreover assume "\<forall>u\<in>set s. \<not> is_ws u"
  ultimately have "\<not> is_ws (hd s)" and "\<not> is_ws (last s)" by simp_all
  with False show ?thesis by (rule trim_id)
qed (simp add: trim_def trim_start_def)

lemma trim_Nil [simp]: "trim [] = []"
  by (simp add: trim_def trim_start_def)

lemma toLowerCase_Nil [simp]: "toLowerCase [] = []"
  by (simp add: toLowerCase_def)

lemma toLowerCase_eq_Nil_iff [simp]: "toLowerCase s = [] \<longleftrightarrow> s = []"
  by (simp add: toLowerCase_def)

lemma lower_unit_cu:
  "\<not> (65 \<le> (of_char c :: nat) \<and> (of_char c :: nat) \<le> 90) \<Longrightarrow> lower_unit (cu c) = cu c"
  using of_char_less_unit [of 8490 c] by (auto simp: lower_unit_def word_unat_eq_iff)

lemma toLowerCase_js:
  assumes "list_all (\<lambda>c. \<not> (65 \<le> (of_char c :: nat) \<and> (of_char c :: nat) \<le> 90)) s"
  shows "toLowerCase (js s) = js s"
  using assms by (induction s) (auto simp: toLowerCase_def js_Cons lower_unit_cu)

lemma replace_unit_id: "c \<notin> set s \<Longrightarrow> replace_unit c r s = s"
  by (induction s) (auto simp: replace_unit_def)

lemma replace_unit_append: "replace_unit c r (s @ t) = replace_unit c r s @ replace_unit c r t"
  by (simp add: replace_unit_def)

lemma replace_unit_1: "replace_unit c [d] s = map (\<lambda>x. if x = c then d else x) s"
  by (induction s) (auto simp: replace_unit_def)

end
