(* ===== verification/JsRegExp.thy ===== *)
theory JsRegExp
  imports JsString
begin

text \<open>
  Regular expressions with the backtracking semantics of ECMAScript (22.2.2): a matcher takes
  the rest of the input, the captures so far and a continuation, and the first alternative
  whose continuation succeeds wins. The source only repeats single-unit classes (\<open>[..]*\<close>,
  \<open>.*\<close>, \<open>\\s*\<close>), so \<open>Star\<close> takes a class; \<open>Opt\<close> is the greedy \<open>(...)?\<close>, which an
  iteration that matches nothing does not satisfy. All patterns start with \<open>^\<close>: matching is
  at the start of the string.
\<close>

section \<open>Syntax and matcher\<close>

datatype re =
    Eps
  | Cls "cu \<Rightarrow> bool"
  | Star "cu \<Rightarrow> bool"
  | Seq re re
  | Alt re re
  | Opt re
  | Cap nat re
  | Eol

type_synonym caps = "nat \<Rightarrow> jsstr option"

fun or_else :: "'r option \<Rightarrow> 'r option \<Rightarrow> 'r option" where
  "or_else (Some x) y = Some x"
| "or_else None y = y"

fun star :: "(cu \<Rightarrow> bool) \<Rightarrow> jsstr \<Rightarrow> (jsstr \<Rightarrow> 'r option) \<Rightarrow> 'r option" where
  "star p [] k = k []"
| "star p (x # s) k = (if p x then or_else (star p s k) (k (x # s)) else k (x # s))"

fun rmatch :: "re \<Rightarrow> jsstr \<Rightarrow> caps \<Rightarrow> (jsstr \<Rightarrow> caps \<Rightarrow> 'r option) \<Rightarrow> 'r option" where
  "rmatch Eps s c k = k s c"
| "rmatch (Cls p) s c k = (case s of [] \<Rightarrow> None | x # t \<Rightarrow> if p x then k t c else None)"
| "rmatch (Star p) s c k = star p s (\<lambda>t. k t c)"
| "rmatch (Seq a b) s c k = rmatch a s c (\<lambda>t d. rmatch b t d k)"
| "rmatch (Alt a b) s c k = or_else (rmatch a s c k) (rmatch b s c k)"
| "rmatch (Opt r) s c k =
     or_else (rmatch r s c (\<lambda>t d. if length t = length s then None else k t d)) (k s c)"
| "rmatch (Cap n r) s c k =
     rmatch r s c (\<lambda>t d. k t (d(n \<mapsto> take (length s - length t) s)))"
| "rmatch Eol s c k = (if s = [] then k s c else None)"

text \<open>\<open>r.exec(s)\<close> (the captures, or null) and \<open>r.test(s)\<close>.\<close>

definition exec :: "re \<Rightarrow> jsstr \<Rightarrow> caps option" where
  "exec r s = rmatch r s Map.empty (\<lambda>t c. Some c)"

definition test :: "re \<Rightarrow> jsstr \<Rightarrow> bool" where
  "test r s \<longleftrightarrow> exec r s \<noteq> None"

section \<open>Abbreviated patterns\<close>

fun seqs :: "re list \<Rightarrow> re" where
  "seqs [] = Eps"
| "seqs [r] = r"
| "seqs (r # s # rs) = Seq r (seqs (s # rs))"

fun alts :: "re list \<Rightarrow> re" where
  "alts [] = Cls (\<lambda>_. False)"
| "alts [r] = r"
| "alts (r # s # rs) = Alt r (alts (s # rs))"

definition chr :: "char \<Rightarrow> re" where
  "chr c = Cls (\<lambda>x. x = cu c)"

definition chr_i :: "char \<Rightarrow> re" where
  \<comment> \<open>a lower-case letter of a pattern with the i flag (no u flag: canonicalised by toUpperCase)\<close>
  "chr_i c = Cls (\<lambda>x. x = cu c \<or> unat x + 32 = of_char c)"

definition lit :: "string \<Rightarrow> re" where
  "lit s = seqs (map chr s)"

definition lit_i :: "string \<Rightarrow> re" where
  "lit_i s = seqs (map chr_i s)"

definition plus :: "(cu \<Rightarrow> bool) \<Rightarrow> re" where
  "plus p = Seq (Cls p) (Star p)"

definition none_of :: "string \<Rightarrow> cu \<Rightarrow> bool" where
  "none_of s u \<longleftrightarrow> u \<notin> set (js s)"

definition dot :: "cu \<Rightarrow> bool" where
  "dot u \<longleftrightarrow> u \<notin> set [0x0A, 0x0D, 0x2028, 0x2029]"

definition digit :: "cu \<Rightarrow> bool" where
  "digit u \<longleftrightarrow> 48 \<le> unat u \<and> unat u \<le> 57"

definition word_or_dash :: "cu \<Rightarrow> bool" where
  \<comment> \<open>the class [A-Za-z0-9_-]\<close>
  "word_or_dash u \<longleftrightarrow>
     65 \<le> unat u \<and> unat u \<le> 90 \<or> 97 \<le> unat u \<and> unat u \<le> 122 \<or> digit u
     \<or> u = cu (CHR ''_'') \<or> u = cu (CHR ''-'')"

section \<open>Greedy matching\<close>

lemma or_else_None [simp]: "or_else x None = x"
  by (cases x) simp_all

lemma or_else_eq_None_iff [simp]: "or_else x y = None \<longleftrightarrow> x = None \<and> y = None"
  by (cases x) simp_all

text \<open>
  The three ways a repeated class is used: it runs to the first unit outside the class and the
  continuation succeeds there; it backtracks to a position behind which every longer run
  fails; or every run fails.
\<close>

lemma star_greedy:
  assumes "\<forall>x\<in>set a. p x" and "b = [] \<or> \<not> p (hd b)" and "k b = Some r"
  shows "star p (a @ b) k = Some r"
  using assms by (induction a) (cases b; simp)+

lemma star_all:
  assumes "\<forall>x\<in>set a. p x" and "k [] = Some r"
  shows "star p a k = Some r"
  using star_greedy [of a p "[]" k r] assms by simp

lemma star_none:
  assumes "\<And>a b. s = a @ b \<Longrightarrow> \<forall>x\<in>set a. p x \<Longrightarrow> k b = None"
  shows "star p s k = None"
  using assms
proof (induction s)
  case Nil
  then show ?case by simp
next
  case (Cons x s)
  have "k (x # s) = None" using Cons.prems [of "[]"] by simp
  moreover have "p x \<Longrightarrow> star p s k = None"
  proof (rule Cons.IH)
    fix a b
    assume "p x" and "s = a @ b" and "\<forall>y\<in>set a. p y"
    then show "k b = None" using Cons.prems [of "x # a" b] by simp
  qed
  ultimately show ?case by simp
qed

lemma star_backtrack:
  assumes "\<forall>x\<in>set a. p x" and "k b = Some r"
    and "\<And>a' b'. b = a' @ b' \<Longrightarrow> a' \<noteq> [] \<Longrightarrow> \<forall>x\<in>set a'. p x \<Longrightarrow> k b' = None"
  shows "star p (a @ b) k = Some r"
  using assms(1)
proof (induction a)
  case Nil
  show ?case
  proof (cases b)
    case Nil
    with assms(2) show ?thesis by simp
  next
    case (Cons y b')
    have "p y \<Longrightarrow> star p b' k = None"
    proof (rule star_none)
      fix u v
      assume "p y" and "b' = u @ v" and "\<forall>x\<in>set u. p x"
      then show "k v = None" using assms(3) [of "y # u" v] Cons by simp
    qed
    with Cons assms(2) show ?thesis by simp
  qed
next
  case (Cons x a)
  then show ?case by simp
qed

lemma dot_cu [simp]: "dot (cu c) \<longleftrightarrow> c \<noteq> CHR 0x0A \<and> c \<noteq> CHR 0x0D"
  using of_char_less_unit [of 8232 c] of_char_less_unit [of 8233 c]
  by (auto simp: dot_def word_unat_eq_iff char_code_simps)

lemma none_of_cu [simp]: "none_of s (cu c) \<longleftrightarrow> c \<notin> set s"
  by (simp add: none_of_def)

lemma digit_cu: "digit (cu c) \<longleftrightarrow> c \<in> set ''0123456789''"
proof -
  have "digit (cu c) \<longleftrightarrow> (of_char c :: nat) \<in> set [48, 49, 50, 51, 52, 53, 54, 55, 56, 57]"
    by (simp add: digit_def) arith
  then show ?thesis by (simp add: char_code_simps)
qed

section \<open>What a match says\<close>

lemma star_SomeD: "star p s k = Some r \<Longrightarrow> \<exists>a b. s = a @ b \<and> (\<forall>u\<in>set a. p u) \<and> k b = Some r"
proof (induction s)
  case (Cons x s)
  show ?case
  proof (cases "p x \<and> star p s k = Some r")
    case True
    then obtain a b where "s = a @ b" "\<forall>u\<in>set a. p u" "k b = Some r" using Cons.IH by blast
    then have "x # s = (x # a) @ b \<and> (\<forall>u\<in>set (x # a). p u) \<and> k b = Some r" using True by simp
    then show ?thesis by blast
  next
    case False
    then have "k (x # s) = Some r"
      using Cons.prems by (cases "star p s k") (simp_all split: if_splits)
    then show ?thesis by (intro exI [of _ "[]"] exI [of _ "x # s"]) simp
  qed
qed simp

lemma seqs_Cons: "rmatch (seqs (r # rs)) s c k = rmatch r s c (\<lambda>t d. rmatch (seqs rs) t d k)"
  by (cases rs) simp_all

lemma lit_SomeD: "rmatch (lit w) s c k = Some r \<Longrightarrow> \<exists>t. s = js w @ t \<and> k t c = Some r"
proof (induction w arbitrary: s)
  case Nil
  then show ?case by (simp add: lit_def)
next
  case (Cons x w)
  then obtain t where "s = cu x # t" "rmatch (lit w) t c k = Some r"
    by (auto simp: lit_def seqs_Cons chr_def split: list.splits if_splits)
  with Cons.IH [of t] show ?case by (auto simp: js_Cons)
qed

text \<open>A match leaves a rest of the text, and the captures of other groups as they were.\<close>

fun groups :: "re \<Rightarrow> nat set" where
  "groups (Seq a b) = groups a \<union> groups b"
| "groups (Alt a b) = groups a \<union> groups b"
| "groups (Opt r) = groups r"
| "groups (Cap n r) = insert n (groups r)"
| "groups _ = {}"

lemma or_else_SomeD: "or_else x y = Some r \<Longrightarrow> x = Some r \<or> y = Some r"
  by (cases x) simp_all

lemma rmatch_SomeD:
  "rmatch q s c k = Some r \<Longrightarrow> \<exists>p t d. s = p @ t \<and> k t d = Some r \<and> (\<forall>n. n \<notin> groups q \<longrightarrow> d n = c n)"
proof (induction q arbitrary: s c k)
  case Eps
  then show ?case by auto
next
  case (Cls p)
  then obtain x t where "s = [x] @ t" "k t c = Some r" by (auto split: list.splits if_splits)
  then show ?case by blast
next
  case (Star p)
  then show ?case using star_SomeD [of p s "\<lambda>t. k t c"] by auto
next
  case (Seq a b)
  from Seq.prems have "rmatch a s c (\<lambda>t d. rmatch b t d k) = Some r" by simp
  from Seq.IH(1) [OF this] obtain p t d where
    "s = p @ t" "rmatch b t d k = Some r" "\<forall>n. n \<notin> groups a \<longrightarrow> d n = c n" by blast
  moreover from Seq.IH(2) [OF this(2)] obtain p' t' d' where
    "t = p' @ t'" "k t' d' = Some r" "\<forall>n. n \<notin> groups b \<longrightarrow> d' n = d n" by blast
  ultimately have "s = (p @ p') @ t'" "k t' d' = Some r" "\<forall>n. n \<notin> groups (Seq a b) \<longrightarrow> d' n = c n" by simp_all
  then show ?case by blast
next
  case (Alt a b)
  from Alt.prems have "rmatch a s c k = Some r \<or> rmatch b s c k = Some r" by (simp add: or_else_SomeD)
  then show ?case
  proof
    assume "rmatch a s c k = Some r"
    from Alt.IH(1) [OF this] show ?thesis by auto
  next
    assume "rmatch b s c k = Some r"
    from Alt.IH(2) [OF this] show ?thesis by auto
  qed
next
  case (Opt q)
  from Opt.prems have "rmatch q s c (\<lambda>t d. if length t = length s then None else k t d) = Some r \<or> k s c = Some r"
    by (simp add: or_else_SomeD)
  then show ?case
  proof
    assume "rmatch q s c (\<lambda>t d. if length t = length s then None else k t d) = Some r"
    from Opt.IH [OF this] show ?thesis by (auto split: if_splits)
  qed auto
next
  case (Cap m q)
  then have "rmatch q s c (\<lambda>t d. k t (d(m \<mapsto> take (length s - length t) s))) = Some r" by simp
  from Cap.IH [OF this] obtain p t d where "s = p @ t" "\<forall>n. n \<notin> groups q \<longrightarrow> d n = c n"
    "k t (d(m \<mapsto> take (length s - length t) s)) = Some r" by blast
  then have "s = p @ t \<and> k t (d(m \<mapsto> take (length s - length t) s)) = Some r
      \<and> (\<forall>n. n \<notin> groups (Cap m q) \<longrightarrow> (d(m \<mapsto> take (length s - length t) s)) n = c n)" by simp
  then show ?case by blast
next
  case Eol
  then show ?case by (auto split: if_splits)
qed

end
