(* ===== verification/JsObject.thy ===== *)
theory JsObject
  imports JsRegExp
begin

text \<open>
  Plain JavaScript objects as ordered property lists: a write keeps the place of an existing
  key and appends a new one, \<open>for .. in\<close> visits array indices in ascending order and then the
  other keys in insertion order. What an object inherits from Object.prototype is modelled
  where the source can see it: a lookup of an inherited name is truthy, an assignment to
  \<open>__proto__\<close> creates no property, and an own property \<open>hasOwnProperty\<close> (never callable here)
  makes every later \<open>o.hasOwnProperty(k)\<close> throw.
\<close>

section \<open>Properties\<close>

type_synonym 'v obj = "(jsstr \<times> 'v) list"

abbreviation obj_get :: "'v obj \<Rightarrow> jsstr \<Rightarrow> 'v option" where
  "obj_get ob k \<equiv> map_of ob k"

fun obj_put :: "jsstr \<Rightarrow> 'v \<Rightarrow> 'v obj \<Rightarrow> 'v obj" where
  "obj_put k v [] = [(k, v)]"
| "obj_put k v ((l, w) # ob) = (if l = k then (k, v) # ob else (l, w) # obj_put k v ob)"

definition obj_assign :: "jsstr \<Rightarrow> 'v \<Rightarrow> 'v obj \<Rightarrow> 'v obj" where
  "obj_assign k v ob = (if k = js ''__proto__'' then ob else obj_put k v ob)"

definition proto_names :: "jsstr list" where
  "proto_names = map js
     [''constructor'', ''__defineGetter__'', ''__defineSetter__'', ''hasOwnProperty'',
      ''__lookupGetter__'', ''__lookupSetter__'', ''isPrototypeOf'', ''propertyIsEnumerable'',
      ''toString'', ''valueOf'', ''__proto__'', ''toLocaleString'']"

text \<open>\<open>o.hasOwnProperty(k)\<close>: \<open>None\<close> is the TypeError of a shadowed method.\<close>

definition own_property :: "'v obj \<Rightarrow> jsstr \<Rightarrow> bool option" where
  "own_property ob k =
     (if obj_get ob (js ''hasOwnProperty'') \<noteq> None then None else Some (obj_get ob k \<noteq> None))"

text \<open>\<open>{a: true, ...}[k]\<close> as a condition.\<close>

definition flag_set :: "string list \<Rightarrow> jsstr \<Rightarrow> bool" where
  "flag_set ks k \<longleftrightarrow> k \<in> set (map js ks) \<or> k \<in> set proto_names"

text \<open>\<open>m && m[k] ? m[k] : k\<close> for an object literal of strings (or null) used as a key.\<close>

definition proto_text :: "jsstr \<Rightarrow> jsstr" where
  "proto_text k =
     (if k = js ''__proto__'' then js ''[object Object]''
      else js ''function '' @ (if k = js ''constructor'' then js ''Object'' else k)
           @ js ''() { [native code] }'')"

definition mapped_key :: "(string \<times> string) list option \<Rightarrow> jsstr \<Rightarrow> jsstr" where
  "mapped_key m k =
     (case m of None \<Rightarrow> k
      | Some kvs \<Rightarrow>
          (case map_of (map (\<lambda>(a, b). (js a, js b)) kvs) k of
             Some l \<Rightarrow> l
           | None \<Rightarrow> if k \<in> set proto_names then proto_text k else k))"

section \<open>Enumeration order\<close>

fun decimal_value :: "nat \<Rightarrow> jsstr \<Rightarrow> nat option" where
  "decimal_value n [] = Some n"
| "decimal_value n (u # s) =
     (if digit u then decimal_value (10 * n + (unat u - 48)) s else None)"

definition array_index :: "jsstr \<Rightarrow> nat option" where
  "array_index s =
     (if s = [] \<or> (hd s = cu (CHR ''0'') \<and> length s \<noteq> 1) then None
      else case decimal_value 0 s of
             Some n \<Rightarrow> if n < 4294967295 then Some n else None
           | None \<Rightarrow> None)"

definition entries :: "'v obj \<Rightarrow> 'v obj" where
  "entries ob =
     sort_key (\<lambda>kv. the (array_index (fst kv))) (filter (\<lambda>kv. array_index (fst kv) \<noteq> None) ob)
     @ filter (\<lambda>kv. array_index (fst kv) = None) ob"

section \<open>Lemmas\<close>

lemma obj_get_put [simp]: "obj_get (obj_put k v ob) l = (if l = k then Some v else obj_get ob l)"
  by (induction k v ob rule: obj_put.induct) auto

lemma obj_get_assign:
  "obj_get (obj_assign k v ob) l =
     (if l = k \<and> k \<noteq> js ''__proto__'' then Some v else obj_get ob l)"
  by (simp add: obj_assign_def)

lemma keys_obj_put:
  "map fst (obj_put k v ob) = (if k \<in> fst ` set ob then map fst ob else map fst ob @ [k])"
  by (induction k v ob rule: obj_put.induct) auto

lemma obj_put_new: "k \<notin> fst ` set ob \<Longrightarrow> obj_put k v ob = ob @ [(k, v)]"
  by (induction k v ob rule: obj_put.induct) auto

text \<open>The type invariant of an object: no key twice.\<close>

definition obj_ok :: "'v obj \<Rightarrow> bool" where
  "obj_ok ob \<longleftrightarrow> distinct (map fst ob)"

lemma obj_ok_Nil [simp]: "obj_ok []"
  by (simp add: obj_ok_def)

lemma obj_ok_put [intro, simp]: "obj_ok ob \<Longrightarrow> obj_ok (obj_put k v ob)"
  by (simp add: obj_ok_def keys_obj_put)

lemma obj_ok_assign [intro, simp]: "obj_ok ob \<Longrightarrow> obj_ok (obj_assign k v ob)"
  by (simp add: obj_assign_def)

lemma obj_get_eq_Some_iff: "obj_ok ob \<Longrightarrow> obj_get ob k = Some v \<longleftrightarrow> (k, v) \<in> set ob"
  by (simp add: obj_ok_def)

lemma set_entries [simp]: "set (entries ob) = set ob"
  by (auto simp: entries_def)

lemma obj_ok_entries: "obj_ok ob \<Longrightarrow> obj_ok (entries ob)"
  by (auto simp: obj_ok_def entries_def distinct_map filter_empty_conv intro: inj_on_subset)

lemma entries_no_index:
  "\<forall>k\<in>fst ` set ob. array_index k = None \<Longrightarrow> entries ob = ob"
  by (simp add: entries_def filter_empty_conv filter_id_conv)

lemma array_index_cu: "c \<notin> set ''0123456789'' \<Longrightarrow> array_index (cu c # s) = None"
  by (simp add: array_index_def digit_cu split: option.splits)

lemma js_in_map_js [simp]: "js k \<in> set (map js ks) \<longleftrightarrow> k \<in> set ks"
  by auto

lemma map_of_map_js:
  "map_of (map (\<lambda>(a, b). (js a, f b)) kvs) (js k) = map_option f (map_of kvs k)"
  by (induction kvs) auto

end
