(* ===== verification/JsUri.thy ===== *)
theory JsUri
  imports JsString
begin

text \<open>
  \<open>encodeURIComponent\<close> and \<open>decodeURIComponent\<close> as ECMAScript (19.2.6) defines them: UTF-16
  code units to UTF-8 octets to percent escapes and back. \<open>None\<close> is the URIError that a lone
  surrogate, a malformed escape or an invalid octet sequence raises.
\<close>

section \<open>Definitions\<close>

definition uri_unreserved :: "cu \<Rightarrow> bool" where
  "uri_unreserved u \<longleftrightarrow>
     u \<in> set (js ''ABCDEFGHIJKLMNOPQRSTUVWXYZabcdefghijklmnopqrstuvwxyz0123456789-_.!~*'')
     \<or> u \<in> set [cu (CHR 0x27), cu (CHR ''(''), cu (CHR '')'')]"

definition is_high :: "cu \<Rightarrow> bool" where
  "is_high u \<longleftrightarrow> 0xD800 \<le> unat u \<and> unat u < 0xDC00"

definition is_low :: "cu \<Rightarrow> bool" where
  "is_low u \<longleftrightarrow> 0xDC00 \<le> unat u \<and> unat u < 0xE000"

definition pair_cp :: "cu \<Rightarrow> cu \<Rightarrow> nat" where
  "pair_cp h l = 0x10000 + (unat h - 0xD800) * 0x400 + (unat l - 0xDC00)"

definition utf16 :: "nat \<Rightarrow> jsstr" where
  "utf16 n =
     (if n < 0x10000 then [word_of_nat n]
      else [word_of_nat (0xD800 + (n - 0x10000) div 0x400),
            word_of_nat (0xDC00 + (n - 0x10000) mod 0x400)])"

definition utf8 :: "nat \<Rightarrow> nat list" where
  "utf8 n =
     (if n < 0x80 then [n]
      else if n < 0x800 then [0xC0 + n div 64, 0x80 + n mod 64]
      else if n < 0x10000 then [0xE0 + n div 4096, 0x80 + n div 64 mod 64, 0x80 + n mod 64]
      else [0xF0 + n div 262144, 0x80 + n div 4096 mod 64, 0x80 + n div 64 mod 64,
            0x80 + n mod 64])"

definition hexd :: "nat \<Rightarrow> cu" where
  "hexd n = js ''0123456789ABCDEF'' ! n"

definition hexval :: "cu \<Rightarrow> nat option" where
  "hexval u =
     (if 48 \<le> unat u \<and> unat u \<le> 57 then Some (unat u - 48)
      else if 65 \<le> unat u \<and> unat u \<le> 70 then Some (unat u - 55)
      else if 97 \<le> unat u \<and> unat u \<le> 102 then Some (unat u - 87) else None)"

definition pct :: "nat \<Rightarrow> jsstr" where
  "pct b = [cu (CHR ''%''), hexd (b div 16), hexd (b mod 16)]"

definition pcts :: "nat \<Rightarrow> jsstr" where
  "pcts n = concat (map pct (utf8 n))"

fun encodeURIComponent :: "jsstr \<Rightarrow> jsstr option" where
  "encodeURIComponent [] = Some []"
| "encodeURIComponent (u # s) =
     (if uri_unreserved u then map_option (Cons u) (encodeURIComponent s)
      else if is_low u then None
      else if is_high u then
        (case s of [] \<Rightarrow> None
         | v # t \<Rightarrow> if is_low v then map_option (append (pcts (pair_cp u v))) (encodeURIComponent t)
                  else None)
      else map_option (append (pcts (unat u))) (encodeURIComponent s))"

fun pct_byte :: "jsstr \<Rightarrow> (nat \<times> jsstr) option" where
  "pct_byte (p # a # b # r) =
     (if p = cu (CHR ''%'') then
        (case hexval a of None \<Rightarrow> None
         | Some x \<Rightarrow> (case hexval b of None \<Rightarrow> None | Some y \<Rightarrow> Some (16 * x + y, r)))
      else None)"
| "pct_byte _ = None"

fun continuation :: "nat \<Rightarrow> nat \<Rightarrow> jsstr \<Rightarrow> (nat \<times> jsstr) option" where
  "continuation 0 n s = Some (n, s)"
| "continuation (Suc k) n s =
     (case pct_byte s of None \<Rightarrow> None
      | Some (b, r) \<Rightarrow>
          if 0x80 \<le> b \<and> b < 0xC0 then continuation k (64 * n + (b - 0x80)) r else None)"

text \<open>
  The code point of the escape sequence at the head of the text: overlong forms, surrogates
  and values above 0x10FFFF are not valid UTF-8.
\<close>

definition escaped_cp :: "jsstr \<Rightarrow> (nat \<times> jsstr) option" where
  "escaped_cp s =
     (case pct_byte s of None \<Rightarrow> None
      | Some (b, r) \<Rightarrow>
          if b < 0x80 then Some (b, r)
          else if 0xC0 \<le> b \<and> b < 0xE0 then
            (case continuation 1 (b - 0xC0) r of None \<Rightarrow> None
             | Some (n, t) \<Rightarrow> if 0x80 \<le> n then Some (n, t) else None)
          else if 0xE0 \<le> b \<and> b < 0xF0 then
            (case continuation 2 (b - 0xE0) r of None \<Rightarrow> None
             | Some (n, t) \<Rightarrow>
                 if 0x800 \<le> n \<and> \<not> (0xD800 \<le> n \<and> n < 0xE000) then Some (n, t) else None)
          else if 0xF0 \<le> b \<and> b < 0xF8 then
            (case continuation 3 (b - 0xF0) r of None \<Rightarrow> None
             | Some (n, t) \<Rightarrow> if 0x10000 \<le> n \<and> n < 0x110000 then Some (n, t) else None)
          else None)"

lemma pct_byte_length: "pct_byte s = Some (b, r) \<Longrightarrow> length s = 3 + length r"
  by (induction s rule: pct_byte.induct) (auto split: if_splits option.splits)

lemma continuation_length:
  "continuation k n s = Some (m, r) \<Longrightarrow> length s = 3 * k + length r"
  by (induction k n s rule: continuation.induct)
    (auto split: option.splits if_splits dest!: pct_byte_length)

lemma escaped_cp_length:
  "escaped_cp s = Some (n, r) \<Longrightarrow> length r + length (utf16 n) < length s"
  unfolding escaped_cp_def utf16_def
  by (auto split: option.splits if_splits dest!: pct_byte_length continuation_length)

function decodeURIComponent :: "jsstr \<Rightarrow> jsstr option" where
  "decodeURIComponent [] = Some []"
| "decodeURIComponent (u # s) =
     (if u \<noteq> cu (CHR ''%'') then map_option (Cons u) (decodeURIComponent s)
      else case escaped_cp (u # s) of None \<Rightarrow> None
           | Some (n, r) \<Rightarrow> map_option (append (utf16 n)) (decodeURIComponent r))"
  by pat_completeness auto
termination
  by (relation "measure length") (auto dest!: escaped_cp_length)

section \<open>Lengths: decoding never grows a string\<close>

lemma decodeURIComponent_length:
  "decodeURIComponent s = Some d \<Longrightarrow> d = s \<or> length d < length s"
proof (induction s arbitrary: d rule: decodeURIComponent.induct)
  case (2 u s)
  show ?case
  proof (cases "u = cu (CHR ''%'')")
    case False
    with 2 show ?thesis by auto
  next
    case True
    with "2.prems" obtain n r e
      where e: "escaped_cp (u # s) = Some (n, r)" "decodeURIComponent r = Some e" "d = utf16 n @ e"
      by (auto split: option.splits)
    then have "e = r \<or> length e < length r" using "2.IH"(2) True by simp
    with e show ?thesis using escaped_cp_length [OF e(1)] by auto
  qed
qed simp

section \<open>Encoding: domain and alphabet\<close>

text \<open>Well-formed UTF-16: every surrogate belongs to a pair.\<close>

fun well_formed :: "jsstr \<Rightarrow> bool" where
  "well_formed [] \<longleftrightarrow> True"
| "well_formed (u # s) \<longleftrightarrow>
     (if is_low u then False
      else if is_high u then (case s of [] \<Rightarrow> False | v # t \<Rightarrow> is_low v \<and> well_formed t)
      else well_formed s)"

lemma unreserved_cu:
  "uri_unreserved (cu c) \<longleftrightarrow>
     c \<in> set ''ABCDEFGHIJKLMNOPQRSTUVWXYZabcdefghijklmnopqrstuvwxyz0123456789-_.!~*()''
     \<or> c = CHR 0x27"
  by (auto simp: uri_unreserved_def)

lemma unreserved_less: "uri_unreserved u \<Longrightarrow> unat u < 256"
  by (auto simp: uri_unreserved_def set_js of_char_less_unit)

lemma unreserved_not_surrogate:
  "uri_unreserved u \<Longrightarrow> \<not> is_high u" "uri_unreserved u \<Longrightarrow> \<not> is_low u"
  by (auto dest: unreserved_less simp: is_high_def is_low_def)

lemma high_not_low: "is_high u \<Longrightarrow> \<not> is_low u"
  by (simp add: is_high_def is_low_def)

lemma encodeURIComponent_defined: "encodeURIComponent s \<noteq> None \<longleftrightarrow> well_formed s"
  by (induction s rule: encodeURIComponent.induct)
    (auto simp: unreserved_not_surrogate split: list.splits)

lemma less_16_cases:
  "n < 16 \<Longrightarrow> n \<in> set [0, 1, 2, 3, 4, 5, 6, 7, 8, 9, 10, 11, 12, 13, 14, 15 :: nat]"
  by simp presburger

lemma hexd_unreserved: "n < 16 \<Longrightarrow> uri_unreserved (hexd n)"
  by (drule less_16_cases) (auto simp: hexd_def js_def unreserved_cu)

definition escape_unit :: "cu \<Rightarrow> bool" where
  "escape_unit u \<longleftrightarrow> uri_unreserved u \<or> u = cu (CHR ''%'')"

lemma utf8_bytes: "n < 0x110000 \<Longrightarrow> \<forall>b\<in>set (utf8 n). b < 256"
  by (auto simp: utf8_def)

lemma pcts_escape_units:
  assumes "n < 0x110000" shows "\<forall>u\<in>set (pcts n). escape_unit u"
proof -
  have "\<forall>u\<in>set (pct b). escape_unit u" if "b < 256" for b
    using that by (auto simp: pct_def escape_unit_def intro: hexd_unreserved)
  then show ?thesis using utf8_bytes [OF assms] by (auto simp: pcts_def)
qed

lemma pair_cp_bounds:
  "is_high h \<Longrightarrow> is_low l \<Longrightarrow> 0x10000 \<le> pair_cp h l \<and> pair_cp h l < 0x110000"
  by (auto simp: is_high_def is_low_def pair_cp_def)

lemma encode_escape_units:
  "encodeURIComponent s = Some e \<Longrightarrow> \<forall>u\<in>set e. escape_unit u"
proof (induction s arbitrary: e rule: encodeURIComponent.induct)
  case (2 u s)
  consider (plain) "uri_unreserved u" | (pair) "\<not> uri_unreserved u" "is_high u"
    | (other) "\<not> uri_unreserved u" "\<not> is_high u"
    by blast
  then show ?case
  proof cases
    case plain
    with 2 show ?thesis by (auto simp: escape_unit_def)
  next
    case pair
    with "2.prems" obtain v t e'
      where e': "s = v # t" "is_low v" "encodeURIComponent t = Some e'" "e = pcts (pair_cp u v) @ e'"
      by (auto split: if_splits list.splits)
    then have "\<forall>u\<in>set e'. escape_unit u" using "2.IH"(2) pair by (simp add: high_not_low)
    moreover have "\<forall>u\<in>set (pcts (pair_cp u v)). escape_unit u"
      using pair_cp_bounds pair e' by (intro pcts_escape_units) simp
    ultimately show ?thesis using e' by auto
  next
    case other
    with "2.prems" obtain e'
      where e': "\<not> is_low u" "encodeURIComponent s = Some e'" "e = pcts (unat u) @ e'"
      by (auto split: if_splits)
    then have "\<forall>u\<in>set e'. escape_unit u" using "2.IH"(3) other by simp
    moreover have "\<forall>x\<in>set (pcts (unat u)). escape_unit x"
      by (intro pcts_escape_units less_trans [OF unat_unit_less]) simp
    ultimately show ?thesis using e' by auto
  qed
qed simp

lemma pcts_not_Nil [simp]: "pcts n \<noteq> []"
  by (simp add: pcts_def utf8_def pct_def)

lemma encode_eq_Nil_iff: "encodeURIComponent s = Some e \<Longrightarrow> e = [] \<longleftrightarrow> s = []"
  by (cases s) (auto split: if_splits list.splits)

lemma encode_unreserved: "\<forall>u\<in>set s. uri_unreserved u \<Longrightarrow> encodeURIComponent s = Some s"
  by (induction s) auto

section \<open>Round trip\<close>

lemma hexval_hexd: "n < 16 \<Longrightarrow> hexval (hexd n) = Some n"
  by (drule less_16_cases) (auto simp: hexd_def js_def hexval_def)

lemma pct_byte_pct: "b < 256 \<Longrightarrow> pct_byte (pct b @ r) = Some (b, r)"
  by (simp add: pct_def hexval_hexd)

definition scalar :: "nat \<Rightarrow> bool" where
  "scalar n \<longleftrightarrow> n < 0x110000 \<and> \<not> (0xD800 \<le> n \<and> n < 0xE000)"

text \<open>
  \<open>escapes f\<close>: \<open>f b\<close> is an escape of the octet \<open>b\<close>. The decoder accepts upper and lower case
  hexadecimal digits, so the facts below serve \<open>encodeURIComponent\<close> and the lower-case escapes
  that the source builds itself.
\<close>

definition escapes :: "(nat \<Rightarrow> jsstr) \<Rightarrow> bool" where
  "escapes f \<longleftrightarrow> (\<forall>b < 256. \<forall>r. pct_byte (f b @ r) = Some (b, r))"

lemma pct_byte_escapes: "escapes f \<Longrightarrow> b < 256 \<Longrightarrow> pct_byte (f b @ r) = Some (b, r)"
  by (simp add: escapes_def)

lemma escapes_pct: "escapes pct"
  by (simp add: escapes_def pct_byte_pct)

lemma escaped_cp_1:
  "escapes f \<Longrightarrow> n < 0x80 \<Longrightarrow> escaped_cp (f n @ r) = Some (n, r)"
  by (simp add: escaped_cp_def pct_byte_escapes)

lemma escaped_cp_2:
  assumes "escapes f" and "a < 32" and "b < 64" and "0x80 \<le> 64 * a + b"
  shows "escaped_cp (f (0xC0 + a) @ f (0x80 + b) @ r) = Some (64 * a + b, r)"
  using assms by (simp add: escaped_cp_def pct_byte_escapes)

lemma escaped_cp_3:
  assumes "escapes f" and "a < 16" and "b < 64" and "c < 64" and "n = 64 * (64 * a + b) + c"
    and "0x800 \<le> n" and "\<not> (0xD800 \<le> n \<and> n < 0xE000)"
  shows "escaped_cp (f (0xE0 + a) @ f (0x80 + b) @ f (0x80 + c) @ r) = Some (n, r)"
  using assms by (simp add: escaped_cp_def pct_byte_escapes numeral_2_eq_2)

lemma escaped_cp_4:
  assumes "escapes f" and "a < 8" and "b < 64" and "c < 64" and "d < 64"
    and "n = 64 * (64 * (64 * a + b) + c) + d" and "0x10000 \<le> n" and "n < 0x110000"
  shows "escaped_cp (f (0xF0 + a) @ f (0x80 + b) @ f (0x80 + c) @ f (0x80 + d) @ r) = Some (n, r)"
  using assms by (simp add: escaped_cp_def pct_byte_escapes numeral_3_eq_3)

lemma div_4096: "n div 4096 = n div 64 div (64 :: nat)"
  by (simp add: div_mult2_eq [symmetric])

lemma div_262144: "n div 262144 = n div 64 div 64 div (64 :: nat)"
  by (simp add: div_mult2_eq [symmetric])

lemma escaped_cp_utf8:
  assumes f: "escapes f" and "scalar n"
  shows "escaped_cp (concat (map f (utf8 n)) @ r) = Some (n, r)"
proof -
  have n: "n < 0x110000" "\<not> (0xD800 \<le> n \<and> n < 0xE000)"
    using assms(2) by (simp_all add: scalar_def)
  consider "n < 0x80" | "0x80 \<le> n" "n < 0x800" | "0x800 \<le> n" "n < 0x10000" | "0x10000 \<le> n"
    by linarith
  then show ?thesis
  proof cases
    case 1
    then show ?thesis by (simp add: utf8_def escaped_cp_1 [OF f])
  next
    case 2
    have "n div 64 < 32" using 2 by (simp add: less_mult_imp_div_less)
    moreover have "64 * (n div 64) + n mod 64 = n" by simp
    ultimately show ?thesis
      using 2 escaped_cp_2 [OF f, of "n div 64" "n mod 64" r] by (simp add: utf8_def)
  next
    case 3
    have "n div 4096 < 16" using 3 by (simp add: less_mult_imp_div_less)
    moreover have "n = 64 * (64 * (n div 4096) + n div 64 mod 64) + n mod 64"
      by (simp add: div_4096)
    ultimately show ?thesis
      using 3 n escaped_cp_3 [OF f, of "n div 4096" "n div 64 mod 64" "n mod 64" n r]
      by (simp only: utf8_def) simp
  next
    case 4
    have "n div 262144 < 8" using n by (simp add: less_mult_imp_div_less)
    moreover have
      "n = 64 * (64 * (64 * (n div 262144) + n div 4096 mod 64) + n div 64 mod 64) + n mod 64"
      by (simp add: div_4096 div_262144)
    ultimately show ?thesis
      using 4 n escaped_cp_4 [OF f, of "n div 262144" "n div 4096 mod 64" "n div 64 mod 64" "n mod 64" n r]
      by (simp only: utf8_def) simp
  qed
qed

lemma escaped_cp_pcts: "scalar n \<Longrightarrow> escaped_cp (pcts n @ r) = Some (n, r)"
  unfolding pcts_def by (rule escaped_cp_utf8 [OF escapes_pct])

lemma pcts_head: "\<exists>t. pcts n @ r = cu (CHR ''%'') # t"
  by (simp add: pcts_def utf8_def pct_def)

lemma decode_pcts:
  assumes "scalar n"
  shows "decodeURIComponent (pcts n @ r) = map_option (append (utf16 n)) (decodeURIComponent r)"
proof -
  obtain t where t: "pcts n @ r = cu (CHR ''%'') # t" using pcts_head by blast
  with escaped_cp_pcts [OF assms, of r] show ?thesis by simp
qed

lemma utf16_unit: "\<not> is_high u \<Longrightarrow> \<not> is_low u \<Longrightarrow> scalar (unat u) \<and> utf16 (unat u) = [u]"
  using unat_unit_less [of u] less_trans [OF unat_unit_less, of "0x110000" u]
  by (auto simp: scalar_def utf16_def is_high_def is_low_def)

lemma utf16_pair:
  assumes "is_high h" and "is_low l"
  shows "scalar (pair_cp h l) \<and> utf16 (pair_cp h l) = [h, l]"
proof -
  define a where "a = unat h - 0xD800"
  define b where "b = unat l - 0xDC00"
  have a: "unat h = 0xD800 + a" "a < 1024" and b: "unat l = 0xDC00 + b" "b < 1024"
    using assms by (auto simp: is_high_def is_low_def a_def b_def)
  have cp: "pair_cp h l = 0x10000 + (1024 * a + b)"
    by (simp add: pair_cp_def a b)
  have "(1024 * a + b) div 1024 = a" and "(1024 * a + b) mod 1024 = b"
    using b(2) by simp_all
  then have "utf16 (pair_cp h l) = [word_of_nat (unat h), word_of_nat (unat l)]"
    by (simp add: utf16_def cp a b)
  moreover have "scalar (pair_cp h l)"
    using a(2) b(2) by (simp add: scalar_def cp)
  ultimately show ?thesis by simp
qed

lemma unreserved_not_percent: "uri_unreserved u \<Longrightarrow> u \<noteq> cu (CHR ''%'')"
  by (auto simp: unreserved_cu)

lemma decode_encode_append:
  "encodeURIComponent s = Some e \<Longrightarrow>
     decodeURIComponent (e @ r) = map_option (append s) (decodeURIComponent r)"
proof (induction s arbitrary: e rule: encodeURIComponent.induct)
  case 1
  then show ?case by (cases "decodeURIComponent r") simp_all
next
  case (2 u s)
  consider (plain) "uri_unreserved u" | (pair) "\<not> uri_unreserved u" "is_high u"
    | (other) "\<not> uri_unreserved u" "\<not> is_high u"
    by blast
  then show ?case
  proof cases
    case plain
    with "2.prems" obtain e' where e': "encodeURIComponent s = Some e'" "e = u # e'" by auto
    with "2.IH"(1) plain show ?thesis
      by (cases "decodeURIComponent r") (simp_all add: unreserved_not_percent)
  next
    case pair
    with "2.prems" obtain v t e'
      where e': "s = v # t" "is_low v" "encodeURIComponent t = Some e'" "e = pcts (pair_cp u v) @ e'"
      by (auto split: if_splits list.splits)
    then have "decodeURIComponent (e' @ r) = map_option (append t) (decodeURIComponent r)"
      using "2.IH"(2) pair by (simp add: high_not_low)
    then show ?thesis
      using e' utf16_pair [of u v] pair
      by (cases "decodeURIComponent r") (simp_all add: decode_pcts)
  next
    case other
    with "2.prems" obtain e'
      where e': "\<not> is_low u" "encodeURIComponent s = Some e'" "e = pcts (unat u) @ e'"
      by (auto split: if_splits)
    then have "decodeURIComponent (e' @ r) = map_option (append s) (decodeURIComponent r)"
      using "2.IH"(3) other by simp
    then show ?thesis
      using e' utf16_unit [of u] other
      by (cases "decodeURIComponent r") (simp_all add: decode_pcts)
  qed
qed

lemma decode_encode: "encodeURIComponent s = Some e \<Longrightarrow> decodeURIComponent e = Some s"
  using decode_encode_append [of s e "[]"] by simp

lemma decode_no_percent: "cu (CHR ''%'') \<notin> set s \<Longrightarrow> decodeURIComponent s = Some s"
  by (induction s) auto

end
