(* ===== verification/JsJson.thy ===== *)
theory JsJson
  imports JsObject JsUri
begin

text \<open>
  JavaScript values as JSON.parse makes them, their String() text, JSON.parse, and
  JSON.stringify on objects whose values are strings (the only objects the source writes). A
  number is represented by its String() text. For integer literals of at most fifteen digits
  that text is the literal; for any other literal it is the parameter \<open>num_text\<close>.
\<close>

section \<open>Values\<close>

datatype jval =
    JNull
  | JBool bool
  | JNum jsstr
  | JStr jsstr
  | JArr "jval list"
  | JObj "(jsstr \<times> jval) list"

definition truthy :: "jval option \<Rightarrow> bool" where
  "truthy v =
     (case v of
        None \<Rightarrow> False
      | Some JNull \<Rightarrow> False
      | Some (JBool b) \<Rightarrow> b
      | Some (JNum s) \<Rightarrow> s \<noteq> js ''0''
      | Some (JStr s) \<Rightarrow> s \<noteq> []
      | Some (JArr _) \<Rightarrow> True
      | Some (JObj _) \<Rightarrow> True)"

text \<open>
  \<open>String(v)\<close>: an array joins its elements (null as the empty text), and an object with an own
  property \<open>toString\<close> throws, since JSON values are not callable.
\<close>

fun to_string :: "jval \<Rightarrow> jsstr option"
  and elem_string :: "jval \<Rightarrow> jsstr option" where
  "to_string JNull = Some (js ''null'')"
| "to_string (JBool b) = Some (if b then js ''true'' else js ''false'')"
| "to_string (JNum s) = Some s"
| "to_string (JStr s) = Some s"
| "to_string (JArr vs) = map_option (join (js '','')) (collect_opt (map elem_string vs))"
| "to_string (JObj ob) =
     (if obj_get ob (js ''toString'') \<noteq> None then None else Some (js ''[object Object]''))"
| "elem_string JNull = Some []"
| "elem_string (JBool b) = to_string (JBool b)"
| "elem_string (JNum s) = to_string (JNum s)"
| "elem_string (JStr s) = to_string (JStr s)"
| "elem_string (JArr vs) = to_string (JArr vs)"
| "elem_string (JObj ob) = to_string (JObj ob)"

definition js_get :: "jval \<Rightarrow> string \<Rightarrow> jval option" where
  \<comment> \<open>\<open>v.k\<close> for the names the source reads, none of which another value inherits\<close>
  "js_get v k = (case v of JObj ob \<Rightarrow> obj_get ob (js k) | _ \<Rightarrow> None)"

section \<open>JSON.stringify\<close>

definition json_hex4 :: "nat \<Rightarrow> jsstr" where
  "json_hex4 n =
     map (\<lambda>i. lower_unit (hexd (n div 16 ^ i mod 16))) [3, 2, 1, 0]"

definition json_unit :: "cu \<Rightarrow> jsstr" where
  "json_unit u =
     (if u = cu (CHR 0x22) then js [CHR 0x5C, CHR 0x22]
      else if u = cu (CHR 0x5C) then js [CHR 0x5C, CHR 0x5C]
      else if u = cu (CHR 0x08) then js [CHR 0x5C, CHR ''b'']
      else if u = cu (CHR 0x09) then js [CHR 0x5C, CHR ''t'']
      else if u = cu (CHR 0x0A) then js [CHR 0x5C, CHR ''n'']
      else if u = cu (CHR 0x0C) then js [CHR 0x5C, CHR ''f'']
      else if u = cu (CHR 0x0D) then js [CHR 0x5C, CHR ''r'']
      else if unat u < 32 then js [CHR 0x5C, CHR ''u''] @ json_hex4 (unat u)
      else [u])"

fun json_units :: "jsstr \<Rightarrow> jsstr" where
  \<comment> \<open>a surrogate without its partner is escaped\<close>
  "json_units [] = []"
| "json_units [u] =
     (if is_high u \<or> is_low u then js [CHR 0x5C, CHR ''u''] @ json_hex4 (unat u) else json_unit u)"
| "json_units (u # w # s) =
     (if is_high u \<and> is_low w then u # w # json_units s
      else (if is_high u \<or> is_low u then js [CHR 0x5C, CHR ''u''] @ json_hex4 (unat u)
            else json_unit u) @ json_units (w # s))"

definition json_quote :: "jsstr \<Rightarrow> jsstr" where
  "json_quote s = cu (CHR 0x22) # json_units s @ [cu (CHR 0x22)]"

definition json_member :: "jsstr \<times> jsstr \<Rightarrow> jsstr" where
  "json_member kv = json_quote (fst kv) @ js '':'' @ json_quote (snd kv)"

definition stringify :: "jsstr obj \<Rightarrow> jsstr" where
  "stringify ob = js ''{'' @ join (js '','') (map json_member (entries ob)) @ js ''}''"

section \<open>JSON.parse\<close>

definition json_ws :: "cu \<Rightarrow> bool" where
  "json_ws u \<longleftrightarrow> u \<in> set [0x20, 0x09, 0x0A, 0x0D]"

definition skip_ws :: "jsstr \<Rightarrow> jsstr" where
  "skip_ws s = dropWhile json_ws s"

definition simple_escape :: "cu \<Rightarrow> cu option" where
  "simple_escape e =
     map_of [(cu (CHR 0x22), cu (CHR 0x22)), (cu (CHR 0x5C), cu (CHR 0x5C)),
             (cu (CHR ''/''), cu (CHR ''/'')), (cu (CHR ''b''), cu (CHR 0x08)),
             (cu (CHR ''f''), cu (CHR 0x0C)), (cu (CHR ''n''), cu (CHR 0x0A)),
             (cu (CHR ''r''), cu (CHR 0x0D)), (cu (CHR ''t''), cu (CHR 0x09))] e"

definition hex4 :: "cu \<Rightarrow> cu \<Rightarrow> cu \<Rightarrow> cu \<Rightarrow> cu option" where
  "hex4 a b c d =
     (case (hexval a, hexval b, hexval c, hexval d) of
        (Some w, Some x, Some y, Some z) \<Rightarrow>
          Some (word_of_nat (w * 4096 + x * 256 + y * 16 + z))
      | _ \<Rightarrow> None)"

definition push_unit :: "cu \<Rightarrow> (jsstr \<times> jsstr) option \<Rightarrow> (jsstr \<times> jsstr) option" where
  "push_unit u r = map_option (\<lambda>(s, t). (u # s, t)) r"

fun json_chars :: "jsstr \<Rightarrow> (jsstr \<times> jsstr) option" where
  "json_chars [] = None"
| "json_chars (u # s) =
     (if u = cu (CHR 0x22) then Some ([], s)
      else if unat u < 32 then None
      else if u = cu (CHR 0x5C) then
        (case s of
           [] \<Rightarrow> None
         | e # t \<Rightarrow>
             if e = cu (CHR ''u'') then
               (case t of
                  a # b # c # d # r \<Rightarrow>
                    (case hex4 a b c d of None \<Rightarrow> None | Some x \<Rightarrow> push_unit x (json_chars r))
                | _ \<Rightarrow> None)
             else (case simple_escape e of None \<Rightarrow> None | Some x \<Rightarrow> push_unit x (json_chars t)))
      else push_unit u (json_chars s))"

definition digits_of :: "jsstr \<Rightarrow> (jsstr \<times> jsstr) option" where
  "digits_of s =
     (if takeWhile digit s = [] then None else Some (takeWhile digit s, dropWhile digit s))"

definition int_part :: "jsstr \<Rightarrow> (jsstr \<times> jsstr) option" where
  "int_part s =
     (case digits_of s of
        None \<Rightarrow> None
      | Some (d, r) \<Rightarrow> if hd d = cu (CHR ''0'') \<and> length d \<noteq> 1 then None else Some (d, r))"

definition frac_part :: "jsstr \<Rightarrow> (jsstr \<times> jsstr) option" where
  "frac_part s =
     (case s of
        [] \<Rightarrow> Some ([], [])
      | u # t \<Rightarrow> if u = cu (CHR ''.'') then map_option (\<lambda>(d, r). (u # d, r)) (digits_of t)
                 else Some ([], s))"

definition exp_part :: "jsstr \<Rightarrow> (jsstr \<times> jsstr) option" where
  "exp_part s =
     (case s of
        [] \<Rightarrow> Some ([], [])
      | u # t \<Rightarrow>
          if u = cu (CHR ''e'') \<or> u = cu (CHR ''E'') then
            (let sign = (if starts_with (js ''+'') t \<or> starts_with (js ''-'') t then take 1 t else [])
             in map_option (\<lambda>(d, r). (u # sign @ d, r)) (digits_of (drop (length sign) t)))
          else Some ([], s))"

definition json_number :: "jsstr \<Rightarrow> (jsstr \<times> jsstr) option" where
  "json_number s =
     (let sign = (if starts_with (js ''-'') s then js ''-'' else [])
      in case int_part (drop (length sign) s) of
           None \<Rightarrow> None
         | Some (i, r) \<Rightarrow>
             (case frac_part r of
                None \<Rightarrow> None
              | Some (f, r') \<Rightarrow>
                  (case exp_part r' of
                     None \<Rightarrow> None
                   | Some (e, r'') \<Rightarrow> Some (sign @ i @ f @ e, r''))))"

definition number_text :: "(jsstr \<Rightarrow> jsstr) \<Rightarrow> jsstr \<Rightarrow> jsstr" where
  "number_text num_text num =
     (if num = js ''-0'' then js ''0''
      else if list_all digit num \<and> length num \<le> 15
           \<or> starts_with (js ''-'') num \<and> list_all digit (tl num) \<and> length num \<le> 16 then num
      else num_text num)"

definition keyword :: "string \<Rightarrow> jval \<Rightarrow> jsstr \<Rightarrow> (jval \<times> jsstr) option" where
  "keyword w v s = (if starts_with (js w) s then Some (v, drop (length w) s) else None)"

lemma skip_ws_length: "length (skip_ws s) \<le> length s"
  by (simp add: skip_ws_def length_dropWhile_le)

lemma skip_ws_shorter: "length r < length s \<Longrightarrow> 2 * length (skip_ws r) < Suc (2 * length s)"
  using skip_ws_length [of r] by simp

text \<open>
  The recursive descent. The comparison of lengths only makes the recursion evidently
  terminating: what a parser leaves is shorter than what it was given (\<open>json_lengths\<close>).
\<close>

function json_value :: "(jsstr \<Rightarrow> jsstr) \<Rightarrow> jsstr \<Rightarrow> (jval \<times> jsstr) option"
  and json_elems :: "(jsstr \<Rightarrow> jsstr) \<Rightarrow> jsstr \<Rightarrow> (jval list \<times> jsstr) option"
  and json_members :: "(jsstr \<Rightarrow> jsstr) \<Rightarrow> jval obj \<Rightarrow> jsstr \<Rightarrow> (jval obj \<times> jsstr) option" where
  "json_value nt s =
     (case s of
        [] \<Rightarrow> None
      | u # t \<Rightarrow>
          if u = cu (CHR 0x22) then map_option (\<lambda>(x, r). (JStr x, r)) (json_chars t)
          else if u = cu (CHR ''{'') then
            (if starts_with (js ''}'') (skip_ws t) then Some (JObj [], drop 1 (skip_ws t))
             else map_option (\<lambda>(x, r). (JObj x, r)) (json_members nt [] t))
          else if u = cu (CHR ''['') then
            (if starts_with (js '']'') (skip_ws t) then Some (JArr [], drop 1 (skip_ws t))
             else map_option (\<lambda>(x, r). (JArr x, r)) (json_elems nt t))
          else if u = cu (CHR ''t'') then keyword ''true'' (JBool True) s
          else if u = cu (CHR ''f'') then keyword ''false'' (JBool False) s
          else if u = cu (CHR ''n'') then keyword ''null'' JNull s
          else map_option (\<lambda>(x, r). (JNum (number_text nt x), r)) (json_number s))"
| "json_elems nt s =
     (case json_value nt (skip_ws s) of
        None \<Rightarrow> None
      | Some (v, r) \<Rightarrow>
          (case skip_ws r of
             [] \<Rightarrow> None
           | u # t \<Rightarrow>
               if u = cu (CHR '']'') then Some ([v], t)
               else if u = cu (CHR '','') \<and> length t < length s then
                 map_option (\<lambda>(vs, r). (v # vs, r)) (json_elems nt t)
               else None))"
| "json_members nt ob s =
     (case skip_ws s of
        [] \<Rightarrow> None
      | q # t \<Rightarrow>
          if q \<noteq> cu (CHR 0x22) then None
          else (case json_chars t of
            None \<Rightarrow> None
          | Some (k, r) \<Rightarrow>
              (case skip_ws r of
                 [] \<Rightarrow> None
               | c # r1 \<Rightarrow>
                   if c \<noteq> cu (CHR '':'') \<or> length s \<le> length r1 then None
                   else (case json_value nt (skip_ws r1) of
                     None \<Rightarrow> None
                   | Some (v, r2) \<Rightarrow>
                       (case skip_ws r2 of
                          [] \<Rightarrow> None
                        | d # r3 \<Rightarrow>
                            if d = cu (CHR ''}'') then Some (obj_put k v ob, r3)
                            else if d = cu (CHR '','') \<and> length r3 < length s then
                              json_members nt (obj_put k v ob) r3
                            else None)))))"
  by pat_completeness auto

termination
  by (relation "measure (case_sum (\<lambda>(nt, s). 2 * length s)
      (case_sum (\<lambda>(nt, s). 2 * length s + 1) (\<lambda>(nt, ob, s). 2 * length s + 1)))")
    (auto simp: skip_ws_length le_imp_less_Suc skip_ws_shorter)

declare json_value.simps [simp del] json_elems.simps [simp del] json_members.simps [simp del]

definition json_parse :: "(jsstr \<Rightarrow> jsstr) \<Rightarrow> jsstr \<Rightarrow> jval option" where
  "json_parse nt s =
     (case json_value nt (skip_ws s) of
        None \<Rightarrow> None
      | Some (v, r) \<Rightarrow> if skip_ws r = [] then Some v else None)"

section \<open>Round trip\<close>

lemma hexval_lower_units: "list_all (\<lambda>n. hexval (lower_unit (hexd n)) = Some n) [0..<16]"
  by code_simp

lemma hexval_lower_unit: "n < 16 \<Longrightarrow> hexval (lower_unit (hexd n)) = Some n"
  using hexval_lower_units by (simp only: list_all_iff set_upt) simp

lemma base16_digits:
  "q1 * 16 + x = n \<Longrightarrow> q2 * 16 + y = q1 \<Longrightarrow> q3 * 16 + z = q2 \<Longrightarrow>
     q3 * 4096 + z * 256 + y * 16 + x = (n :: nat)"
  by linarith

lemma hex_digits4:
  assumes "n < 65536"
  shows "n div 4096 mod 16 * 4096 + n div 256 mod 16 * 256 + n div 16 mod 16 * 16 + n mod 16 = (n :: nat)"
proof -
  have d: "n div 256 = n div 16 div 16" "n div 4096 = n div 256 div 16"
    by (simp_all add: div_mult2_eq [symmetric])
  have "n div 4096 mod 16 = n div 4096"
    using assms by (intro mod_less) simp
  moreover have "n div 4096 * 4096 + n div 256 mod 16 * 256 + n div 16 mod 16 * 16 + n mod 16 = n"
    by (rule base16_digits [of "n div 16" _ _ "n div 256"])
      (simp_all only: d div_mult_mod_eq)
  ultimately show ?thesis by (simp only:)
qed

lemma json_chars_hex4:
  "json_chars (cu (CHR 0x5C) # cu (CHR ''u'') # json_hex4 (unat u) @ r) = push_unit u (json_chars r)"
proof -
  have "unat u < 65536" using unsigned_less [of u] by simp
  then have "hex4 (lower_unit (hexd (unat u div 4096 mod 16))) (lower_unit (hexd (unat u div 256 mod 16)))
      (lower_unit (hexd (unat u div 16 mod 16))) (lower_unit (hexd (unat u mod 16))) = Some u"
    by (simp add: hex4_def hexval_lower_unit hex_digits4)
  then show ?thesis
    by (simp add: json_hex4_def)
qed

lemma json_chars_unit: "json_chars (json_unit u @ r) = push_unit u (json_chars r)"
proof -
  have "unat u < 32 \<Longrightarrow> json_chars (cu (CHR 0x5C) # cu (CHR ''u'') # json_hex4 (unat u) @ r)
      = push_unit u (json_chars r)"
    by (rule json_chars_hex4)
  then show ?thesis
    by (auto simp: json_unit_def js_def simple_escape_def simp del: json_chars.simps(2))
      (auto simp: simple_escape_def)
qed

lemma json_chars_end: "json_chars (cu (CHR 0x22) # r) = Some ([], r)"
  by simp

lemma surrogate_chars:
  "is_high u \<or> is_low u \<Longrightarrow> json_chars (u # s) = push_unit u (json_chars s)"
  by (auto simp: is_high_def is_low_def word_unat_eq_iff char_code_simps)

lemma json_chars_units: "json_chars (json_units s @ cu (CHR 0x22) # r) = Some (s, r)"
proof (induction s rule: json_units.induct)
  case 1
  then show ?case by simp
next
  case (2 u)
  then show ?case
    by (simp add: js_def json_chars_unit json_chars_hex4 json_chars_end del: json_chars.simps(2))
      (simp add: push_unit_def)
next
  case (3 u w s)
  show ?case
  proof (cases "is_high u \<and> is_low w")
    case True
    with 3 show ?thesis
      by (simp add: surrogate_chars push_unit_def del: json_chars.simps(2))
  next
    case False
    with 3(2) show ?thesis
      by (auto simp: js_def json_chars_unit json_chars_hex4 push_unit_def
          simp del: json_chars.simps(2) json_units.simps(2))
  qed
qed

lemma skip_ws_here [simp]: "\<not> json_ws u \<Longrightarrow> skip_ws (u # s) = u # s" "skip_ws [] = []"
  by (simp_all add: skip_ws_def)

lemma json_ws_cu [simp]:
  "\<not> json_ws (cu (CHR 0x22))" "\<not> json_ws (cu (CHR '':''))" "\<not> json_ws (cu (CHR '',''))"
  "\<not> json_ws (cu (CHR ''{''))" "\<not> json_ws (cu (CHR ''}''))"
  by (simp_all add: json_ws_def word_unat_eq_iff char_code_simps)

lemma json_value_string:
  "json_value nt (cu (CHR 0x22) # json_units s @ cu (CHR 0x22) # r) = Some (JStr s, r)"
  by (simp add: json_value.simps json_chars_units del: json_chars.simps(2))

definition str_members :: "jsstr obj \<Rightarrow> jval obj" where
  "str_members ob = map (\<lambda>(k, v). (k, JStr v)) ob"

lemma json_member_units:
  "json_member (k, v) = cu (CHR 0x22) # json_units k @ cu (CHR 0x22) # cu (CHR '':'')
     # cu (CHR 0x22) # json_units v @ [cu (CHR 0x22)]"
  by (simp add: json_member_def json_quote_def js_def)

lemma json_members_step:
  "\<not> json_ws c \<Longrightarrow> json_members nt ob (json_member (k, v) @ c # r) =
     (if c = cu (CHR ''}'') then Some (obj_put k (JStr v) ob, r)
      else if c = cu (CHR '','') then json_members nt (obj_put k (JStr v) ob) r else None)"
  by (subst json_members.simps)
    (simp add: json_member_units json_chars_units json_value_string del: json_chars.simps(2))

lemma json_members_join:
  assumes "kvs \<noteq> []" and "distinct (map fst (ob @ str_members kvs))"
  shows "json_members nt ob (join (js '','') (map json_member kvs) @ cu (CHR ''}'') # r) =
    Some (ob @ str_members kvs, r)"
  using assms
proof (induction kvs arbitrary: ob)
  case (Cons kv kvs)
  obtain k v where kv: "kv = (k, v)" by force
  have put: "obj_put k (JStr v) ob = ob @ [(k, JStr v)]"
    using Cons.prems(2) kv by (intro obj_put_new) (auto simp: str_members_def)
  show ?case
  proof (cases "kvs = []")
    case True
    with kv put show ?thesis by (simp add: json_members_step str_members_def)
  next
    case False
    have "distinct (map fst ((ob @ [(k, JStr v)]) @ str_members kvs))"
      using Cons.prems(2) kv by (simp add: str_members_def)
    with False have "json_members nt (ob @ [(k, JStr v)])
        (join (js '','') (map json_member kvs) @ cu (CHR ''}'') # r) =
      Some ((ob @ [(k, JStr v)]) @ str_members kvs, r)"
      by (rule Cons.IH)
    with False kv put show ?thesis
      by (simp add: join_Cons json_members_step str_members_def js_Cons js_Nil)
  qed
qed simp

lemma json_parse_stringify:
  assumes "obj_ok ob"
  shows "json_parse nt (stringify ob) = Some (JObj (str_members (entries ob)))"
proof -
  have d: "distinct (map fst ([] @ str_members (entries ob)))"
    using obj_ok_entries [OF assms] by (simp add: obj_ok_def str_members_def case_prod_unfold comp_def)
  show ?thesis
  proof (cases "entries ob = []")
    case True
    then show ?thesis
      by (simp add: json_parse_def stringify_def json_value.simps str_members_def js_Cons js_Nil)
  next
    case False
    note m = json_members_join [OF False d, of nt "[]", unfolded js_Cons js_Nil]
    obtain k v kvs where "entries ob = (k, v) # kvs" using False by (cases "entries ob") auto
    then obtain t where t: "join [cu (CHR '','')] (map json_member (entries ob)) = cu (CHR 0x22) # t"
      by (cases kvs) (auto simp: json_member_units)
    have "json_value nt (stringify ob) = Some (JObj (str_members (entries ob)), [])"
      using m unfolding t by (simp add: stringify_def json_value.simps t js_Cons)
    moreover have "skip_ws (stringify ob) = stringify ob"
      by (simp add: stringify_def js_Cons)
    ultimately show ?thesis by (simp add: json_parse_def)
  qed
qed

section \<open>The guards of the descent always hold\<close>

lemma push_unit_Some_iff:
  "push_unit u x = Some (s, t) \<longleftrightarrow> (\<exists>s'. s = u # s' \<and> x = Some (s', t))"
  by (auto simp: push_unit_def)

lemma json_chars_length: "json_chars s = Some (x, r) \<Longrightarrow> length r < length s"
proof (induction s arbitrary: x r rule: measure_induct_rule [where f = length])
  case (less s)
  show ?case
  proof (cases s)
    case (Cons u t)
    have "json_chars w = Some (y, r) \<Longrightarrow> length w < length s \<Longrightarrow> length r < length w" for w y
      using less.IH by blast
    with less.prems Cons show ?thesis
      by (fastforce simp: push_unit_Some_iff split: if_splits list.splits option.splits)
  qed (use less.prems in simp)
qed

lemma digits_of_length: "digits_of s = Some (d, r) \<Longrightarrow> length r < length s"
  by (cases s) (auto simp: digits_of_def split: if_splits intro: le_imp_less_Suc length_dropWhile_le)

lemma json_number_length:
  assumes "json_number s = Some (d, r)" shows "length r < length s"
proof -
  have frac: "frac_part t = Some (f, t') \<Longrightarrow> length t' \<le> length t" for t f t'
    by (auto simp: frac_part_def split: list.splits if_splits dest: digits_of_length)
  have exp: "exp_part t = Some (f, t') \<Longrightarrow> length t' \<le> length t" for t f t'
    by (auto simp: exp_part_def Let_def split: list.splits if_splits dest!: digits_of_length)
  have int: "int_part t = Some (f, t') \<Longrightarrow> length t' < length t" for t f t'
    by (auto simp: int_part_def split: option.splits if_splits dest: digits_of_length)
  show ?thesis
    using assms
    by (auto simp: json_number_def Let_def split: option.splits prod.splits if_splits
        dest!: int frac exp)
qed

lemma keyword_length: "w \<noteq> [] \<Longrightarrow> keyword w v s = Some (x, r) \<Longrightarrow> length r < length s"
  by (auto simp: keyword_def starts_with_iff split: if_splits)

definition leaves_less :: "jsstr \<Rightarrow> ('a \<times> jsstr) option \<Rightarrow> bool" where
  "leaves_less s res \<longleftrightarrow> (case res of None \<Rightarrow> True | Some (_, r) \<Rightarrow> length r < length s)"

lemma leaves_less_mono: "leaves_less t res \<Longrightarrow> length t \<le> length s \<Longrightarrow> leaves_less s res"
  by (auto simp: leaves_less_def split: option.splits)

lemma leaves_less_simps [simp]:
  "leaves_less s None" "leaves_less s (Some (x, r)) \<longleftrightarrow> length r < length s"
  "leaves_less s (map_option (\<lambda>(x, r). (f x, r)) res) \<longleftrightarrow> leaves_less s res"
  by (auto simp: leaves_less_def split: option.splits)

lemma skip_ws_cases: "length (skip_ws s) < length s \<or> skip_ws s = s"
  by (induction s) (auto simp: skip_ws_def)

lemma json_value_step:
  assumes "\<And>t. length t < length s \<Longrightarrow> leaves_less t (json_elems nt t)"
    and "\<And>t. length t < length s \<Longrightarrow> leaves_less t (json_members nt [] t)"
  shows "leaves_less s (json_value nt s)"
proof (cases s)
  case (Cons u t)
  have "leaves_less (x # t) (json_elems nt t)" "leaves_less (x # t) (json_members nt [] t)" for x
    using assms [of t] Cons by (auto intro: leaves_less_mono)
  moreover have "length (skip_ws t) - Suc 0 < Suc (length t)"
    using skip_ws_length [of t] by simp
  moreover have "leaves_less (x # t) (json_chars t)" for x
    using json_chars_length [of t] by (fastforce simp: leaves_less_def split: option.splits)
  moreover have "leaves_less q (json_number q)" "w \<noteq> [] \<Longrightarrow> leaves_less q (keyword w v q)" for q w v
    using json_number_length [of q] keyword_length [of w v q]
    by (auto simp: leaves_less_def split: option.splits)
  ultimately show ?thesis
    by (subst json_value.simps) (auto simp: Cons)
qed (simp add: json_value.simps)

lemma json_elems_step:
  assumes "leaves_less (skip_ws s) (json_value nt (skip_ws s))"
    and "\<And>t. length t < length s \<Longrightarrow> leaves_less t (json_elems nt t)"
  shows "leaves_less s (json_elems nt s)"
proof (cases "json_value nt (skip_ws s)")
  case (Some vr)
  then obtain v r where v: "json_value nt (skip_ws s) = Some (v, r)" by (cases vr) simp
  then have r: "length (skip_ws r) < length s"
    using assms(1) skip_ws_length [of s] skip_ws_length [of r] by simp
  show ?thesis
  proof (cases "skip_ws r")
    case (Cons u t)
    then have "leaves_less s (json_elems nt t)"
      using assms(2) [of t] r by (auto intro: leaves_less_mono)
    with Cons v r show ?thesis by (simp add: json_elems.simps [of nt s])
  qed (simp add: json_elems.simps [of nt s] v)
qed (simp add: json_elems.simps [of nt s])

lemma json_members_step_length:
  assumes "\<And>t. length t < length s \<Longrightarrow> leaves_less t (json_value nt t)"
    and "\<And>t ob. length t < length s \<Longrightarrow> leaves_less t (json_members nt ob t)"
  shows "leaves_less s (json_members nt ob s)"
proof -
  have val: "length r3 < length s"
    if "\<not> length s \<le> length r1" "json_value nt (skip_ws r1) = Some (v, r2)" "skip_ws r2 = d # r3" for r1 r2 r3 v d
    using assms(1) [of "skip_ws r1"] that skip_ws_length [of r1] skip_ws_length [of r2] by simp
  have mem: "leaves_less s (json_members nt ob' t)" if "length t < length s" for ob' t
    using leaves_less_mono [OF assms(2) [OF that]] that by simp
  show ?thesis
    by (subst json_members.simps)
      (auto simp del: length_append length_Cons split: list.split option.split intro: mem val)
qed

lemma json_lengths:
  "leaves_less s (json_value nt s) \<and> leaves_less s (json_elems nt s)
   \<and> (\<forall>ob. leaves_less s (json_members nt ob s))"
proof (induction s rule: measure_induct_rule [where f = length])
  case (less s)
  have v: "leaves_less s (json_value nt s)"
    by (rule json_value_step) (use less in auto)
  then have "leaves_less (skip_ws s) (json_value nt (skip_ws s))"
    using skip_ws_cases [of s] less [of "skip_ws s"] by auto
  then have "leaves_less s (json_elems nt s)"
    by (rule json_elems_step) (use less in auto)
  moreover have "leaves_less s (json_members nt ob s)" for ob
    by (rule json_members_step_length) (use less in auto)
  ultimately show ?case using v by blast
qed

lemma json_value_length: "json_value nt s = Some (v, r) \<Longrightarrow> length r < length s"
  using json_lengths [of s nt] by simp

end
