(* ===== verification/FormFields.thy ===== *)
theory FormFields
  imports JsJson
begin

text \<open>
  The node form of the OpenClash page as \<open>openclash/js/server_url.js\<close> reads and writes it:
  the document's elements in order, the combo boxes and dynamic lists of the LuCI widgets, the
  events dispatched and the timers set. What the browser does when a value is assigned to an
  element (\<open>e_san\<close>) and what a CodeMirror instance does (\<open>cm_norm\<close>) are functions kept in the
  state, because they are not part of the source.
\<close>

section \<open>State\<close>

record code_mirror =
  cm_value :: jsstr
  cm_norm :: "jsstr \<Rightarrow> jsstr"

record elem =
  e_name :: jsstr
  e_id :: jsstr
  e_tag :: jsstr
  e_type :: jsstr
  e_value :: jsstr
  e_checked :: bool
  e_san :: "jsstr \<Rightarrow> jsstr"
  e_next_cm :: "code_mirror option"
  e_parent_cm :: "code_mirror option"
  e_list :: "jsstr option"

record combo =
  c_id :: jsstr
  c_options :: "jsstr list"
  c_value :: jsstr

record dyn_list =
  d_prefix :: jsstr
  d_buttons :: "jsstr list"

datatype event = InputEv nat | ChangeEv nat | ComboEv jsstr | ClickEv jsstr nat

record timer =
  t_sid :: jsstr
  t_field :: string
  t_value :: "jsstr option"
  t_retries :: nat

record import_state =
  is_sid :: jsstr
  is_comments :: jsstr
  is_params :: "jval obj"

record page =
  elems :: "elem list"
  combos :: "combo list"
  lists :: "dyn_list list"
  events :: "event list"
  timers :: "timer list"
  import_st :: "import_state option"

section \<open>Finding elements\<close>

definition base_name :: "jsstr \<Rightarrow> string \<Rightarrow> jsstr" where
  "base_name sid f = js ''cbid.openclash.'' @ sid @ js ''.'' @ js f"

definition array_name :: "jsstr \<Rightarrow> string \<Rightarrow> jsstr" where
  "array_name sid f = base_name sid f @ js ''[]''"

definition getElementsByName :: "jsstr \<Rightarrow> page \<Rightarrow> nat list" where
  "getElementsByName n p = filter (\<lambda>i. e_name (elems p ! i) = n) [0..<length (elems p)]"

definition getElementById :: "jsstr \<Rightarrow> page \<Rightarrow> nat option" where
  "getElementById n p = find (\<lambda>i. e_id (elems p ! i) = n) [0..<length (elems p)]"

definition isMultiValueField :: "string \<Rightarrow> bool" where
  "isMultiValueField f \<longleftrightarrow>
     f \<in> set [''alpn'', ''ws_headers'', ''http_headers'', ''h2_host'', ''http_path'', ''dns'',
              ''host_key'', ''host_key_algorithms'']"

definition getFormElements :: "jsstr \<Rightarrow> string \<Rightarrow> page \<Rightarrow> nat list" where
  "getFormElements sid f p =
     (let multi = getElementsByName (array_name sid f) p;
          plain = getElementsByName (base_name sid f) p
      in if isMultiValueField f \<and> multi \<noteq> [] then multi
         else if plain \<noteq> [] then plain
         else if multi \<noteq> [] then multi
         else case getElementById (base_name sid f) p of Some i \<Rightarrow> [i] | None \<Rightarrow> [])"

definition getDynamicListContainer :: "jsstr \<Rightarrow> string \<Rightarrow> page \<Rightarrow> dyn_list option" where
  "getDynamicListContainer sid f p = find (\<lambda>d. d_prefix d = base_name sid f) (lists p)"

definition getDynamicListInputs :: "jsstr \<Rightarrow> string \<Rightarrow> page \<Rightarrow> nat list" where
  "getDynamicListInputs sid f p =
     (case getDynamicListContainer sid f p of None \<Rightarrow> []
      | Some d \<Rightarrow>
          filter (\<lambda>i. e_list (elems p ! i) = Some (d_prefix d) \<and> toLowerCase (e_tag (elems p ! i)) = js ''input''
                      \<and> (e_name (elems p ! i) = base_name sid f \<or> e_name (elems p ! i) = array_name sid f))
            [0..<length (elems p)])"

section \<open>Reading and writing one element\<close>

definition getCodeMirrorInstance :: "elem \<Rightarrow> code_mirror option" where
  "getCodeMirrorInstance e =
     (if toLowerCase (e_tag e) \<noteq> js ''textarea'' then None
      else case e_next_cm e of Some cm \<Rightarrow> Some cm | None \<Rightarrow> e_parent_cm e)"

definition set_cm :: "jsstr \<Rightarrow> elem \<Rightarrow> elem" where
  "set_cm v e =
     (case e_next_cm e of
        Some cm \<Rightarrow> e\<lparr>e_next_cm := Some (cm\<lparr>cm_value := cm_norm cm v\<rparr>)\<rparr>
      | None \<Rightarrow> (case e_parent_cm e of
                  Some cm \<Rightarrow> e\<lparr>e_parent_cm := Some (cm\<lparr>cm_value := cm_norm cm v\<rparr>)\<rparr>
                | None \<Rightarrow> e))"

definition dispatchFieldChange :: "nat \<Rightarrow> page \<Rightarrow> page" where
  "dispatchFieldChange i p = p\<lparr>events := events p @ [InputEv i, ChangeEv i]\<rparr>"

definition checkbox_true_re :: re where
  \<comment> \<open>\<open>/^(1|true|on|yes)$/i\<close>\<close>
  "checkbox_true_re = Seq (Cap 1 (alts [lit ''1'', lit_i ''true'', lit_i ''on'', lit_i ''yes''])) Eol"

definition assign_value :: "jsstr \<Rightarrow> elem \<Rightarrow> elem" where
  "assign_value v e = e\<lparr>e_value := e_san e v\<rparr>"

definition written_elem :: "jsstr \<Rightarrow> elem \<Rightarrow> elem" where
  "written_elem v e =
     (if toLowerCase (e_type e) = js ''checkbox'' then
        (let e1 = e\<lparr>e_checked := test checkbox_true_re v\<rparr>
         in if e_value e1 = [] then assign_value (js ''1'') e1 else e1)
      else if toLowerCase (e_type e) = js ''radio'' then e\<lparr>e_checked := (e_value e = v)\<rparr>
      else
        (let e1 = assign_value v e
         in case getCodeMirrorInstance e1 of None \<Rightarrow> e1
            | Some cm \<Rightarrow> assign_value (cm_norm cm v) (set_cm v e1)))"

definition setElementValue :: "nat \<Rightarrow> jsstr \<Rightarrow> page \<Rightarrow> page" where
  "setElementValue i v p =
     dispatchFieldChange i (p\<lparr>elems := (elems p)[i := written_elem v (elems p ! i)]\<rparr>)"

definition getElementValue :: "nat \<Rightarrow> page \<Rightarrow> jsstr" where
  "getElementValue i p =
     (case getCodeMirrorInstance (elems p ! i) of
        Some cm \<Rightarrow> cm_value cm
      | None \<Rightarrow> e_value (elems p ! i))"

fun insert_before_custom :: "jsstr \<Rightarrow> jsstr list \<Rightarrow> jsstr list" where
  "insert_before_custom v [] = [v]"
| "insert_before_custom v (x # xs) =
     (if x = [] then v # x # xs else x # insert_before_custom v xs)"

definition selected :: "jsstr \<Rightarrow> combo \<Rightarrow> combo" where
  "selected v c =
     (if v \<in> set (c_options c) then c\<lparr>c_value := v\<rparr>
      else if v = [] then c\<lparr>c_value := []\<rparr>
      else c\<lparr>c_options := insert_before_custom v (c_options c), c_value := v\<rparr>)"

fun update_combo :: "jsstr \<Rightarrow> jsstr \<Rightarrow> combo list \<Rightarrow> combo list option" where
  "update_combo n v [] = None"
| "update_combo n v (c # cs) =
     (if c_id c = n then Some (selected v c # cs) else map_option (Cons c) (update_combo n v cs))"

definition syncDynamicListSelect :: "nat \<Rightarrow> jsstr \<Rightarrow> page \<Rightarrow> page" where
  "syncDynamicListSelect i v p =
     (let n = e_id (elems p ! i); cid = js ''cbi.combobox.'' @ n
      in if n = [] then p
         else case update_combo cid v (combos p) of None \<Rightarrow> p
              | Some cs \<Rightarrow> p\<lparr>combos := cs, events := events p @ [ComboEv cid]\<rparr>)"

text \<open>
  A click on the last \<open>add.gif\<close> button of the list: the row it adds is the widget's doing.
\<close>

definition tryExpandDynamicListRows :: "jsstr \<Rightarrow> string \<Rightarrow> nat \<Rightarrow> page \<Rightarrow> page \<times> bool" where
  "tryExpandDynamicListRows sid f n p =
     (case getDynamicListContainer sid f p of None \<Rightarrow> (p, False)
      | Some d \<Rightarrow>
          if n \<le> length (getDynamicListInputs sid f p) then (p, True)
          else
            (case find (\<lambda>i. str_includes (js ''add.gif'') (toLowerCase (d_buttons d ! i)))
                    (rev [0..<length (d_buttons d)]) of
               None \<Rightarrow> (p, False)
             | Some i \<Rightarrow> (p\<lparr>events := events p @ [ClickEv (d_prefix d) i]\<rparr>, True)))"

section \<open>Reading and writing one field\<close>

definition text_of :: "jsstr option \<Rightarrow> jsstr" where
  \<comment> \<open>\<open>String(value == null ? '' : value)\<close>\<close>
  "text_of v = (case v of None \<Rightarrow> [] | Some s \<Rightarrow> s)"

definition trimmed_items :: "jsstr \<Rightarrow> jsstr list" where
  "trimmed_items s = filter (\<lambda>x. x \<noteq> []) (map trim (split_on (js '','') s))"

definition normalizeListValue :: "jsstr option \<Rightarrow> jsstr list" where
  "normalizeListValue v =
     (let str = trim (text_of v) in if str = [] then [] else trimmed_items str)"

fun fill_elements :: "bool \<Rightarrow> nat list \<Rightarrow> jsstr list \<Rightarrow> page \<Rightarrow> page" where
  "fill_elements sync [] vs p = p"
| "fill_elements sync (i # is) vs p =
     (let v = (case vs of [] \<Rightarrow> [] | x # _ \<Rightarrow> x);
          q = setElementValue i v p
      in fill_elements sync is (tl vs) (if sync then syncDynamicListSelect i v q else q))"

definition schedule :: "timer \<Rightarrow> page \<Rightarrow> page" where
  "schedule t p = p\<lparr>timers := timers p @ [t]\<rparr>"

definition primary_element :: "page \<Rightarrow> nat list \<Rightarrow> nat" where
  "primary_element p els =
     (case find (\<lambda>i. toLowerCase (e_type (elems p ! i)) \<noteq> js ''hidden'') els of
        Some i \<Rightarrow> i | None \<Rightarrow> hd els)"

definition setFormValue :: "jsstr \<Rightarrow> string \<Rightarrow> jsstr option \<Rightarrow> nat \<Rightarrow> page \<Rightarrow> page" where
  "setFormValue sid f v retries p =
     (let multi = isMultiValueField f;
          items = normalizeListValue v;
          target = max 1 (length items);
          dyn = getDynamicListInputs sid f p;
          els = getFormElements sid f p;
          again = \<lparr>t_sid = sid, t_field = f, t_value = v, t_retries = retries + 1\<rparr>
      in if multi \<and> dyn \<noteq> [] \<and> length dyn < target \<and> retries < 30
         then schedule again (fst (tryExpandDynamicListRows sid f target p))
         else if multi \<and> dyn \<noteq> [] then fill_elements True dyn items p
         else if els = [] \<and> retries < 30 then schedule again p
         else if els = [] then p
         else if multi \<and> 1 < length els then fill_elements False els items p
         else setElementValue (primary_element p els) (text_of v) p)"

definition joined_values :: "nat list \<Rightarrow> page \<Rightarrow> jsstr" where
  "joined_values is p =
     join (js '','') (filter (\<lambda>v. v \<noteq> []) (map (\<lambda>i. getElementValue i p) is))"

definition getFormValue :: "jsstr \<Rightarrow> string \<Rightarrow> page \<Rightarrow> jsstr" where
  "getFormValue sid f p =
     (let dyn = getDynamicListInputs sid f p; els = getFormElements sid f p
      in if isMultiValueField f \<and> dyn \<noteq> [] then joined_values dyn p
         else if els = [] then []
         else if length els = 1 \<or> \<not> isMultiValueField f then getElementValue (hd els) p
         else joined_values els p)"

section \<open>What a field write keeps\<close>

lemma written_elem_frame [simp]:
  "e_name (written_elem v e) = e_name e" "e_id (written_elem v e) = e_id e"
  "e_tag (written_elem v e) = e_tag e" "e_type (written_elem v e) = e_type e"
  "e_san (written_elem v e) = e_san e" "e_list (written_elem v e) = e_list e"
  by (simp_all add: written_elem_def assign_value_def set_cm_def Let_def split: option.splits)

lemma setElementValue_frame [simp]:
  "length (elems (setElementValue i v p)) = length (elems p)"
  "combos (setElementValue i v p) = combos p" "lists (setElementValue i v p) = lists p"
  "timers (setElementValue i v p) = timers p" "import_st (setElementValue i v p) = import_st p"
  by (simp_all add: setElementValue_def dispatchFieldChange_def)

lemma elems_setElementValue:
  "elems (setElementValue i v p) = (elems p)[i := written_elem v (elems p ! i)]"
  by (simp add: setElementValue_def dispatchFieldChange_def)

lemma names_setElementValue [simp]:
  "e_name (elems (setElementValue i v p) ! j) = e_name (elems p ! j)"
  by (cases "i < length (elems p)"; cases "i = j")
    (simp_all add: elems_setElementValue list_update_beyond)

lemma getElementsByName_setElementValue [simp]:
  "getElementsByName n (setElementValue i v p) = getElementsByName n p"
  by (simp add: getElementsByName_def)

lemma import_st_sync [simp]: "import_st (syncDynamicListSelect i v p) = import_st p"
  by (simp add: syncDynamicListSelect_def Let_def split: option.splits)

lemma timers_sync [simp]: "timers (syncDynamicListSelect i v p) = timers p"
  by (simp add: syncDynamicListSelect_def Let_def split: option.splits)

lemma fill_elements_frame [simp]:
  "import_st (fill_elements sync is vs p) = import_st p"
  "timers (fill_elements sync is vs p) = timers p"
  by (induction sync "is" vs p rule: fill_elements.induct) (simp_all add: Let_def)

lemma tryExpand_frame [simp]:
  "import_st (fst (tryExpandDynamicListRows sid f n p)) = import_st p"
  "timers (fst (tryExpandDynamicListRows sid f n p)) = timers p"
  by (simp_all add: tryExpandDynamicListRows_def split: option.splits)

lemma schedule_frame [simp]:
  "import_st (schedule t p) = import_st p" "timers (schedule t p) = timers p @ [t]"
  by (simp_all add: schedule_def)

lemma import_st_setFormValue [simp]: "import_st (setFormValue sid f v r p) = import_st p"
  by (simp add: setFormValue_def Let_def)

section \<open>The field store contract\<close>

text \<open>
  What the import and export code relies on: reading a field returns what was last written to
  it, and a write to one field leaves the others alone.
\<close>

datatype expr = Val jsstr | Undef | Throws

type_synonym assignment = "bool \<times> string \<times> expr"

fun expr_text :: "expr \<Rightarrow> jsstr" where
  "expr_text (Val s) = s"
| "expr_text _ = []"

fun final_value :: "assignment list \<Rightarrow> string \<Rightarrow> jsstr \<Rightarrow> jsstr" where
  "final_value [] g old = old"
| "final_value ((c, f, e) # ws) g old =
     final_value ws g (if c \<and> f = g then expr_text e else old)"

definition no_throw :: "assignment list \<Rightarrow> bool" where
  "no_throw ws \<longleftrightarrow> (\<forall>(c, f, e)\<in>set ws. \<not> (c \<and> e = Throws))"

locale field_store =
  fixes get :: "'s \<Rightarrow> string \<Rightarrow> jsstr"
    and put :: "string \<Rightarrow> jsstr \<Rightarrow> 's \<Rightarrow> 's"
    and ok :: "'s \<Rightarrow> bool"
    and fields :: "string set"
  assumes put_ok: "ok s \<Longrightarrow> f \<in> fields \<Longrightarrow> ok (put f v s)"
    and get_put: "ok s \<Longrightarrow> f \<in> fields \<Longrightarrow> g \<in> fields \<Longrightarrow>
      get (put f v s) g = (if g = f then v else get s g)"
begin

fun put_all :: "assignment list \<Rightarrow> 's \<Rightarrow> 's" where
  "put_all [] s = s"
| "put_all ((c, f, e) # ws) s = put_all ws (if c then put f (expr_text e) s else s)"

lemma put_all_ok:
  "ok s \<Longrightarrow> fst ` snd ` set ws \<subseteq> fields \<Longrightarrow> ok (put_all ws s)"
  by (induction ws s rule: put_all.induct) (auto simp: put_ok)

lemma get_put_all:
  "ok s \<Longrightarrow> fst ` snd ` set ws \<subseteq> fields \<Longrightarrow> g \<in> fields \<Longrightarrow>
     get (put_all ws s) g = final_value ws g (get s g)"
  by (induction ws s rule: put_all.induct) (auto simp: put_ok get_put)

lemma put_put_same:
  "ok s \<Longrightarrow> f \<in> fields \<Longrightarrow> g \<in> fields \<Longrightarrow> get (put f w (put f v s)) g = get (put f w s) g"
  by (simp add: put_ok get_put)

end

section \<open>A plain form implements the contract\<close>

definition node_fields :: "string list" where
  "node_fields =
     [''type'', ''name'', ''server'', ''port'', ''password'', ''cipher'', ''uuid'', ''username'',
      ''token'', ''protocol'', ''other_parameters'', ''tls'', ''servername'', ''sni'', ''alpn'',
      ''skip_cert_verify'', ''fingerprint'', ''client_fingerprint'', ''alterId'', ''obfs'',
      ''host'', ''path'', ''udp_over_tcp'', ''obfs_ssr'', ''obfs_param'', ''protocol_param'',
      ''obfs_vmess'', ''ws_path'', ''ws_headers'', ''h2_path'', ''h2_host'', ''http_path'',
      ''grpc_service_name'', ''obfs_vless'', ''vless_flow'', ''vless_encryption'',
      ''reality_public_key'', ''reality_short_id'', ''xhttp_opts_path'', ''xhttp_opts_host'',
      ''obfs_trojan'', ''hysteria_auth_str'', ''hysteria_protocol'', ''hysteria_up'',
      ''hysteria_down'', ''hysteria_obfs'', ''obfs_password'', ''ports'', ''hop_interval'',
      ''recv_window_conn'', ''recv_window'', ''disable_mtu_discovery'', ''fast_open'',
      ''flag_transport'', ''flag_port_hopping'', ''flag_quicparam'',
      ''initial_stream_receive_window'', ''max_stream_receive_window'',
      ''initial_connection_receive_window'', ''max_connection_receive_window'',
      ''congestion_controller'', ''disable_sni'', ''udp_relay_mode'', ''reduce_rtt'',
      ''heartbeat_interval'', ''request_timeout'', ''max_udp_relay_packet_size'',
      ''max_open_streams'', ''udp'', ''idle_session_check_interval'', ''idle_session_timeout'',
      ''min_idle_session'', ''transport'', ''multiplexing'', ''port_range'']"

text \<open>
  A text element holds exactly the value assigned to it, and so does its CodeMirror instance
  if it has one. A form is plain when every field has one text element and no list widget.
\<close>

definition text_elem :: "elem \<Rightarrow> bool" where
  "text_elem e \<longleftrightarrow>
     toLowerCase (e_type e) \<noteq> js ''checkbox'' \<and> toLowerCase (e_type e) \<noteq> js ''radio''
     \<and> e_san e = id
     \<and> (case getCodeMirrorInstance e of None \<Rightarrow> True | Some cm \<Rightarrow> cm_norm cm = id)"

definition field_index :: "jsstr \<Rightarrow> string \<Rightarrow> page \<Rightarrow> nat" where
  "field_index sid f p = hd (getElementsByName (base_name sid f) p)"

definition plain_field :: "jsstr \<Rightarrow> string \<Rightarrow> page \<Rightarrow> bool" where
  "plain_field sid f p \<longleftrightarrow>
     getElementsByName (base_name sid f) p = [field_index sid f p]
     \<and> getElementsByName (array_name sid f) p = []
     \<and> getDynamicListContainer sid f p = None
     \<and> text_elem (elems p ! field_index sid f p)"

definition plain_form :: "jsstr \<Rightarrow> page \<Rightarrow> bool" where
  "plain_form sid p \<longleftrightarrow> (\<forall>f\<in>set node_fields. plain_field sid f p)"

lemma base_name_inj [simp]: "base_name sid f = base_name sid g \<longleftrightarrow> f = g"
  by (simp add: base_name_def)

lemma field_index_props:
  assumes "plain_field sid f p"
  shows "field_index sid f p < length (elems p)"
    and "e_name (elems p ! field_index sid f p) = base_name sid f"
proof -
  have "field_index sid f p \<in> set (getElementsByName (base_name sid f) p)"
    using assms by (simp add: plain_field_def)
  then show "field_index sid f p < length (elems p)"
    and "e_name (elems p ! field_index sid f p) = base_name sid f"
    by (simp_all add: getElementsByName_def)
qed

lemma getElementsByName_cong:
  "length (elems q) = length (elems p) \<Longrightarrow> (\<And>i. e_name (elems q ! i) = e_name (elems p ! i)) \<Longrightarrow>
     getElementsByName n q = getElementsByName n p"
  by (simp add: getElementsByName_def)

lemma field_index_setElementValue [simp]:
  "field_index sid f (setElementValue i v p) = field_index sid f p"
  by (simp add: field_index_def)

lemma container_setElementValue [simp]:
  "getDynamicListContainer sid f (setElementValue i v p) = getDynamicListContainer sid f p"
  by (simp add: getDynamicListContainer_def)

lemma cm_cases:
  "getCodeMirrorInstance (set_cm v (assign_value w e)) =
     map_option (\<lambda>cm. cm\<lparr>cm_value := cm_norm cm v\<rparr>) (getCodeMirrorInstance e)"
  by (simp add: getCodeMirrorInstance_def set_cm_def assign_value_def split: option.splits)

lemma getCM_assign [simp]: "getCodeMirrorInstance (assign_value w e) = getCodeMirrorInstance e"
  by (simp add: getCodeMirrorInstance_def assign_value_def split: option.splits)

lemma assign_value_fields [simp]:
  "e_type (assign_value w e) = e_type e" "e_san (assign_value w e) = e_san e"
  "e_value (assign_value w e) = e_san e w"
  by (simp_all add: assign_value_def)

lemma set_cm_fields [simp]:
  "e_type (set_cm w e) = e_type e" "e_san (set_cm w e) = e_san e"
  by (simp_all add: set_cm_def split: option.splits)

lemma written_text_elem:
  assumes "text_elem e"
  shows "text_elem (written_elem v e)"
    and "(case getCodeMirrorInstance (written_elem v e) of
            Some cm \<Rightarrow> cm_value cm | None \<Rightarrow> e_value (written_elem v e)) = v"
proof -
  have "written_elem v e =
     (case getCodeMirrorInstance e of None \<Rightarrow> assign_value v e
      | Some cm \<Rightarrow> assign_value v (set_cm v (assign_value v e)))"
    using assms by (auto simp: written_elem_def text_elem_def split: option.splits)
  then show "text_elem (written_elem v e)"
    and "(case getCodeMirrorInstance (written_elem v e) of
            Some cm \<Rightarrow> cm_value cm | None \<Rightarrow> e_value (written_elem v e)) = v"
    using assms by (auto simp: text_elem_def cm_cases split: option.splits)
qed

lemma plain_field_setElementValue:
  assumes "plain_field sid f p" and "plain_field sid g p"
  shows "plain_field sid g (setElementValue (field_index sid f p) v p)"
proof -
  have "text_elem (elems (setElementValue (field_index sid f p) v p) ! field_index sid g p)"
    using assms written_text_elem(1) field_index_props(1) [OF assms(2)]
    by (cases "field_index sid f p = field_index sid g p")
      (auto simp: elems_setElementValue plain_field_def)
  with assms(2) show ?thesis
    by (simp add: plain_field_def)
qed

lemma plain_field_write:
  assumes "plain_field sid f p"
  shows "setFormValue sid f v r p = setElementValue (field_index sid f p) (text_of v) p"
proof -
  have "getFormElements sid f p = [field_index sid f p]"
    and "getDynamicListInputs sid f p = []"
    using assms by (simp_all add: plain_field_def getFormElements_def getDynamicListInputs_def)
  then show ?thesis
    by (simp add: setFormValue_def primary_element_def Let_def)
qed

lemma plain_field_read:
  assumes "plain_field sid f p"
  shows "getFormValue sid f p = getElementValue (field_index sid f p) p"
proof -
  have "getFormElements sid f p = [field_index sid f p]"
    and "getDynamicListInputs sid f p = []"
    using assms by (simp_all add: plain_field_def getFormElements_def getDynamicListInputs_def)
  then show ?thesis
    by (simp add: getFormValue_def Let_def)
qed

lemma plain_field_get_put:
  assumes "plain_field sid f p" and "plain_field sid g p"
  shows "getFormValue sid g (setFormValue sid f v r p) =
     (if g = f then text_of v else getFormValue sid g p)"
proof -
  let ?i = "field_index sid f p" and ?j = "field_index sid g p"
  have w: "setFormValue sid f v r p = setElementValue ?i (text_of v) p"
    by (rule plain_field_write [OF assms(1)])
  have r: "getFormValue sid g (setElementValue ?i (text_of v) p) =
      getElementValue ?j (setElementValue ?i (text_of v) p)"
    using plain_field_read [OF plain_field_setElementValue [OF assms, of "text_of v"]] by simp
  show ?thesis
  proof (cases "g = f")
    case True
    then show ?thesis
      using written_text_elem(2) [of "elems p ! ?i" "text_of v"] field_index_props(1) [OF assms(1)]
        assms(1)
      unfolding w r unfolding True getElementValue_def elems_setElementValue
        nth_list_update_eq [OF field_index_props(1) [OF assms(1)]]
      by (simp add: plain_field_def)
  next
    case False
    then have n: "?i \<noteq> ?j"
      using field_index_props(2) [OF assms(1)] field_index_props(2) [OF assms(2)]
      by (metis base_name_inj)
    with False show ?thesis
      unfolding w r plain_field_read [OF assms(2)]
      unfolding getElementValue_def elems_setElementValue nth_list_update_neq [OF n] by simp
  qed
qed

interpretation form: field_store
  "\<lambda>p f. getFormValue sid f p" "\<lambda>f v p. setFormValue sid f (Some v) 0 p" "plain_form sid"
  "set node_fields"
  for sid
proof unfold_locales
  fix p f v
  assume p: "plain_form sid p" and f: "f \<in> set node_fields"
  show "plain_form sid (setFormValue sid f (Some v) 0 p)"
    using p f plain_field_setElementValue [of sid f p] plain_field_write [of sid f p]
    by (simp add: plain_form_def)
next
  fix p f g v
  assume "plain_form sid p" and "f \<in> set node_fields" and "g \<in> set node_fields"
  then show "getFormValue sid g (setFormValue sid f (Some v) 0 p) =
      (if g = f then v else getFormValue sid g p)"
    using plain_field_get_put [of sid f p g "Some v"] by (simp add: plain_form_def text_of_def)
qed

section \<open>A form of text inputs\<close>

text \<open>The form with one text input per field, used where a concrete form is needed.\<close>

definition text_input :: "jsstr \<Rightarrow> string \<Rightarrow> jsstr \<Rightarrow> elem" where
  "text_input sid f v =
     \<lparr>e_name = base_name sid f, e_id = base_name sid f, e_tag = js ''INPUT'', e_type = js ''text'',
      e_value = v, e_checked = False, e_san = id, e_next_cm = None, e_parent_cm = None, e_list = None\<rparr>"

definition text_form :: "jsstr \<Rightarrow> (string \<Rightarrow> jsstr) \<Rightarrow> page" where
  "text_form sid g =
     \<lparr>elems = map (\<lambda>f. text_input sid f (g f)) node_fields, combos = [], lists = [], events = [],
      timers = [], import_st = None\<rparr>"

lemma filter_index_distinct:
  assumes "distinct xs" and "i < length xs"
  shows "filter (\<lambda>j. xs ! j = xs ! i) [0..<length xs] = [i]"
proof -
  have "filter (\<lambda>j. xs ! j = xs ! i) [0..<length xs] = filter (\<lambda>j. j = i) [0..<length xs]"
    using assms by (intro filter_cong) (auto simp: nth_eq_iff_index_eq)
  also have "\<dots> = [i]"
    using assms(2) by (induction xs rule: rev_induct) (auto simp: less_Suc_eq filter_empty_conv)
  finally show ?thesis .
qed

lemma distinct_node_fields: "distinct node_fields"
  by (simp add: node_fields_def)

lemma text_form_field:
  assumes "f \<in> set node_fields"
  obtains i where "i < length node_fields" and "node_fields ! i = f"
    and "getElementsByName (base_name sid f) (text_form sid g) = [i]"
    and "elems (text_form sid g) ! i = text_input sid f (g f)"
proof -
  from assms obtain i where i: "i < length node_fields" "node_fields ! i = f"
    by (auto simp: in_set_conv_nth)
  have "getElementsByName (base_name sid f) (text_form sid g) =
      filter (\<lambda>j. node_fields ! j = node_fields ! i) [0..<length node_fields]"
    unfolding getElementsByName_def using i
    by (intro filter_cong) (auto simp: text_form_def text_input_def)
  with i filter_index_distinct [OF distinct_node_fields i(1)] show thesis
    by (intro that [of i]) (simp_all add: text_form_def)
qed

lemma input_tag: "toLowerCase (js ''INPUT'') = js ''input''"
  by code_simp

lemma text_elem_input [simp]: "text_elem (text_input sid f v)"
  by (simp add: text_elem_def text_input_def getCodeMirrorInstance_def input_tag toLowerCase_js)

lemma plain_form_text_form: "plain_form sid (text_form sid g)"
  unfolding plain_form_def
proof
  fix f
  assume "f \<in> set node_fields"
  then obtain i where i: "getElementsByName (base_name sid f) (text_form sid g) = [i]"
    "elems (text_form sid g) ! i = text_input sid f (g f)"
    by (rule text_form_field)
  have "base_name sid h \<noteq> array_name sid f" if "h \<in> set node_fields" for h
  proof
    assume "base_name sid h = array_name sid f"
    then have "js h = js (f @ ''[]'')" by (simp add: base_name_def array_name_def js_append)
    then have "last h = CHR '']''" by simp
    moreover have "\<forall>h\<in>set node_fields. last h \<noteq> CHR '']''" by (simp add: node_fields_def)
    ultimately show False using that by blast
  qed
  then have "getElementsByName (array_name sid f) (text_form sid g) = []"
    by (auto simp: getElementsByName_def filter_empty_conv text_form_def text_input_def)
  then show "plain_field sid f (text_form sid g)"
    using i by (simp add: plain_field_def field_index_def getDynamicListContainer_def text_form_def)
qed

lemma getFormValue_text_form:
  assumes "f \<in> set node_fields"
  shows "getFormValue sid f (text_form sid g) = g f"
proof -
  obtain i where i: "getElementsByName (base_name sid f) (text_form sid g) = [i]"
    "elems (text_form sid g) ! i = text_input sid f (g f)"
    by (rule text_form_field [OF assms])
  have "plain_field sid f (text_form sid g)"
    using plain_form_text_form assms by (simp add: plain_form_def)
  then show ?thesis
    using i by (simp add: plain_field_read field_index_def getElementValue_def text_input_def
        getCodeMirrorInstance_def input_tag)
qed

end
