(* ===== verification/UrlSyntax.thy ===== *)
theory UrlSyntax
  imports JsObject JsUri
begin

text \<open>
  The URL layer of \<open>openclash/js/server_url.js\<close>: \<open>parseUrl\<close> (one regular expression, with the
  browser's URL constructor, the parameter \<open>new_url\<close>, when it does not match), \<open>parseQuery\<close>,
  \<open>decodeFragment\<close> and \<open>queryMapToString\<close>. The lemmas say what the regular expression does on
  well-formed share links, that query strings round-trip, and that \<open>decodeFragment\<close> stops.
\<close>

section \<open>parseUrl\<close>

record url_parts =
  u_hash :: jsstr
  u_host :: jsstr
  u_hostname :: jsstr
  u_href :: jsstr
  u_origin :: jsstr
  u_pathname :: jsstr
  u_port :: jsstr
  u_protocol :: jsstr
  u_search :: jsstr
  u_username :: jsstr
  u_password :: jsstr

definition userinfo_end_re :: re where
  \<comment> \<open>\<open>(?::([^\/?#:]*))?)@\<close>\<close>
  "userinfo_end_re =
     Seq (Opt (Seq (chr (CHR '':'')) (Cap 5 (Star (none_of ''/?#:''))))) (chr (CHR ''@''))"

definition userinfo_re :: re where
  \<comment> \<open>\<open>(?:([^\/?#:]*)(?::([^\/?#:]*))?)@\<close>\<close>
  "userinfo_re = Seq (Cap 4 (Star (none_of ''/?#:''))) userinfo_end_re"

definition hostport_re :: re where
  \<comment> \<open>\<open>([^\/?#:]*)(?::([^\/?#:]*))?\<close>\<close>
  "hostport_re =
     Seq (Cap 6 (Star (none_of ''/?#:'')))
       (Opt (Seq (chr (CHR '':'')) (Cap 7 (Star (none_of ''/?#:'')))))"

definition authority_re :: re where
  "authority_re = Cap 3 (Seq (Opt userinfo_re) hostport_re)"

definition origin_re :: re where
  "origin_re =
     Cap 1 (Seq (Opt (Cap 2 (Seq (plus (none_of '':/?#'')) (chr (CHR '':'')))))
       (Seq (lit ''//'') authority_re))"

definition rest_re :: re where
  \<comment> \<open>\<open>([^?#]*)(\?[^#]*)?(#.*)?$\<close>\<close>
  "rest_re =
     Seq (Cap 8 (Star (none_of ''?#'')))
       (Seq (Opt (Cap 9 (Seq (chr (CHR ''?'')) (Star (none_of ''#'')))))
         (Seq (Opt (Cap 10 (Seq (chr (CHR ''#'')) (Star dot)))) Eol))"

definition url_re :: re where
  "url_re = Seq (Opt origin_re) rest_re"

definition group :: "caps \<Rightarrow> nat \<Rightarrow> jsstr" where
  \<comment> \<open>\<open>m[n] || ""\<close>\<close>
  "group m n = (case m n of None \<Rightarrow> [] | Some s \<Rightarrow> s)"

definition parseUrl :: "(jsstr \<Rightarrow> url_parts option) \<Rightarrow> jsstr \<Rightarrow> url_parts option" where
  "parseUrl new_url url =
     (case exec url_re url of
        None \<Rightarrow> new_url url
      | Some m \<Rightarrow> Some
          \<lparr>u_hash = group m 10, u_host = group m 3, u_hostname = group m 6, u_href = url,
           u_origin = group m 1,
           u_pathname =
             (if group m 8 \<noteq> [] then group m 8 else if group m 1 \<noteq> [] then js ''/'' else []),
           u_port = group m 7, u_protocol = group m 2, u_search = group m 9,
           u_username = group m 4, u_password = group m 5\<rparr>)"

section \<open>decodeFragment\<close>

text \<open>The loop, and the catch that returns the last text decoded.\<close>

function decode_loop :: "jsstr \<Rightarrow> jsstr" where
  "decode_loop fragment =
     (case decodeURIComponent fragment of
        None \<Rightarrow> fragment
      | Some decoded \<Rightarrow> if decoded = fragment then fragment else decode_loop decoded)"
  by pat_completeness auto

termination
  by (relation "measure length") (use decodeURIComponent_length in fastforce)+

declare decode_loop.simps [simp del]

definition decodeFragment :: "jsstr \<Rightarrow> jsstr" where
  "decodeFragment fragment = (if fragment = [] then [] else decode_loop fragment)"

section \<open>parseQuery and queryMapToString\<close>

definition isYamlListLikeKey :: "jsstr \<Rightarrow> bool" where
  "isYamlListLikeKey key \<longleftrightarrow>
     key \<in> set (map js [''alpn'', ''dns'', ''host-key'', ''host-key-algorithms''])"

definition query_key :: "jsstr \<Rightarrow> jsstr" where
  "query_key key = (case decodeURIComponent key of None \<Rightarrow> key | Some k \<Rightarrow> k)"

definition add_param :: "jsstr \<Rightarrow> jsstr \<Rightarrow> jsstr obj \<Rightarrow> jsstr obj option" where
  "add_param key value query =
     (case own_property query key of
        None \<Rightarrow> None
      | Some True \<Rightarrow> Some
          (if isYamlListLikeKey key \<or> key = js ''port'' \<or> key = js ''protocol''
           then obj_assign key (the (obj_get query key) @ js '','' @ value) query
           else obj_assign key value query)
      | Some False \<Rightarrow> Some (obj_assign key value query))"

fun parse_params :: "jsstr list \<Rightarrow> jsstr obj \<Rightarrow> jsstr obj option" where
  "parse_params [] query = Some query"
| "parse_params (param # params) query =
     (case index_of (js ''='') param of
        None \<Rightarrow> parse_params params query
      | Some i \<Rightarrow>
          (case add_param (query_key (substring 0 i param)) (substring_from (i + 1) param) query of
             None \<Rightarrow> None
           | Some query' \<Rightarrow> parse_params params query'))"

definition parseQuery :: "jsstr \<Rightarrow> jsstr obj option" where
  "parseQuery search =
     (if 1 < length search then parse_params (split_on (js ''&'') (substring_from 1 search)) []
      else Some [])"

definition query_pair :: "jsstr \<times> jsstr \<Rightarrow> jsstr option" where
  "query_pair kv =
     (case (encodeURIComponent (fst kv), encodeURIComponent (snd kv)) of
        (Some k, Some v) \<Rightarrow> Some (k @ js ''='' @ v)
      | _ \<Rightarrow> None)"

definition queryMapToString :: "jsstr obj \<Rightarrow> jsstr option" where
  "queryMapToString queryMap =
     (if obj_get queryMap (js ''hasOwnProperty'') \<noteq> None then None
      else map_option (join (js ''&''))
             (collect_opt (map query_pair (filter (\<lambda>kv. snd kv \<noteq> []) (entries queryMap)))))"

section \<open>What the URL expression matches\<close>

lemma opt_first: "rmatch r s c (\<lambda>t d. if length t = length s then None else k t d) = Some x \<Longrightarrow>
    rmatch (Opt r) s c k = Some x"
  by simp

lemma opt_skip: "rmatch r s c (\<lambda>t d. if length t = length s then None else k t d) = None \<Longrightarrow>
    rmatch (Opt r) s c k = k s c"
  by simp

lemma seq_intro: "rmatch a s c (\<lambda>t d. rmatch b t d k) = Some r \<Longrightarrow> rmatch (Seq a b) s c k = Some r"
  by simp

lemma chr_here: "rmatch (Seq (chr ch) r) (cu ch # t) c k = rmatch r t c k"
  by (simp add: chr_def)

lemma chr_other: "t = [] \<or> hd t \<noteq> cu ch \<Longrightarrow> rmatch (Seq (chr ch) r) t c k = None"
  by (cases t) (auto simp: chr_def)

lemma cap_star_greedy:
  assumes "\<forall>x\<in>set a. p x" and "b = [] \<or> \<not> p (hd b)" and "k b (c(n \<mapsto> a)) = Some r"
  shows "rmatch (Cap n (Star p)) (a @ b) c k = Some r"
  using star_greedy [OF assms(1,2), of "\<lambda>t. k t (c(n \<mapsto> take (length (a @ b) - length t) (a @ b)))" r]
    assms(3) by simp

lemma cap_star_at:
  assumes "\<forall>x\<in>set a. p x" and "k b (c(n \<mapsto> a)) = Some r"
    and "\<And>a' b'. b = a' @ b' \<Longrightarrow> a' \<noteq> [] \<Longrightarrow> \<forall>x\<in>set a'. p x \<Longrightarrow> k b' (c(n \<mapsto> a @ a')) = None"
  shows "rmatch (Cap n (Star p)) (a @ b) c k = Some r"
proof -
  have "star p (a @ b) (\<lambda>t. k t (c(n \<mapsto> take (length (a @ b) - length t) (a @ b)))) = Some r"
  proof (rule star_backtrack [OF assms(1)])
    show "k b (c(n \<mapsto> take (length (a @ b) - length b) (a @ b))) = Some r"
      using assms(2) by simp
  next
    fix a' b'
    assume "b = a' @ b'" "a' \<noteq> []" "\<forall>x\<in>set a'. p x"
    then show "k b' (c(n \<mapsto> take (length (a @ b) - length b') (a @ b))) = None"
      using assms(3) [of a' b'] by simp
  qed
  then show ?thesis by simp
qed

text \<open>An authority without @ has no user part, however the expression splits it.\<close>

definition ends_authority :: "jsstr \<Rightarrow> bool" where
  "ends_authority b \<longleftrightarrow> b = [] \<or> hd b \<in> set (js ''/?#'')"

lemma no_at:
  assumes "a @ b = x @ cu (CHR ''@'') # y" and "cu (CHR ''@'') \<notin> set a" and "ends_authority b"
    and "\<forall>u\<in>set x. u \<notin> set (js ''/?#'')"
  shows False
proof -
  from assms(1) obtain zs where
    z: "a = x @ zs \<and> zs @ b = cu (CHR ''@'') # y \<or> a @ zs = x \<and> b = zs @ cu (CHR ''@'') # y"
    by (auto simp: append_eq_append_conv2)
  have at: "cu (CHR ''@'') \<notin> set (js ''/?#'')" by simp
  show False
  proof (cases zs)
    case Nil
    with z have "b = cu (CHR ''@'') # y" by auto
    with assms(3) at show False by (simp only: ends_authority_def) simp
  next
    case (Cons v vs)
    with z consider "v = cu (CHR ''@'')" "v \<in> set a" | "v \<in> set x" "b = v # vs @ cu (CHR ''@'') # y"
      by auto
    then show False
      using assms(2,3,4) by cases (simp_all add: ends_authority_def)
  qed
qed

lemma none_of_name: "none_of ''/?#:'' u \<Longrightarrow> u \<notin> set (js ''/?#'')"
  by (auto simp: none_of_def js_def)

lemma at_none:
  assumes "a @ b = x @ t" and "cu (CHR ''@'') \<notin> set a" and "ends_authority b"
    and "\<forall>u\<in>set x. u \<notin> set (js ''/?#'')"
  shows "rmatch (chr (CHR ''@'')) t c k = None"
  using no_at [of a b x] assms by (cases t) (auto simp: chr_def)

lemma userinfo_end_none:
  assumes "a @ b = x @ t" and "cu (CHR ''@'') \<notin> set a" and "ends_authority b"
    and "\<forall>u\<in>set x. u \<notin> set (js ''/?#'')"
  shows "rmatch userinfo_end_re t c k = None"
proof -
  have "rmatch (Seq (chr (CHR '':'')) (Cap 5 (Star (none_of ''/?#:'')))) t c
      (\<lambda>u d. if length u = length t then None else rmatch (chr (CHR ''@'')) u d k) = None"
  proof (cases t)
    case (Cons y t')
    then show ?thesis
    proof (cases "y = cu (CHR '':'')")
      case True
      have "star (none_of ''/?#:'') t' (\<lambda>u. if length u = length t then None
          else rmatch (chr (CHR ''@'')) u (c(5 \<mapsto> take (length t' - length u) t')) k) = None"
      proof (rule star_none)
        fix a' b'
        assume s: "t' = a' @ b'" and n: "\<forall>x\<in>set a'. none_of ''/?#:'' x"
        have "rmatch (chr (CHR ''@'')) b' d k = None" for d
        proof (rule at_none [of a b "x @ y # a'"])
          show "a @ b = (x @ y # a') @ b'" using assms(1) s Cons by simp
          show "\<forall>u\<in>set (x @ y # a'). u \<notin> set (js ''/?#'')"
            using assms(4) n True by (auto dest: none_of_name simp: js_def)
        qed (use assms in auto)
        then show "(if length b' = length t then None
          else rmatch (chr (CHR ''@'')) b' (c(5 \<mapsto> take (length t' - length b') t')) k) = None"
          by simp
      qed
      with Cons True show ?thesis by (simp add: chr_def)
    qed (simp add: chr_def)
  qed (simp add: chr_def)
  then show ?thesis
    using at_none [OF assms, of c k] by (simp add: userinfo_end_re_def)
qed

lemma userinfo_none:
  assumes "cu (CHR ''@'') \<notin> set a" and "ends_authority b"
  shows "rmatch userinfo_re (a @ b) c k = None"
proof -
  have "star (none_of ''/?#:'') (a @ b) (\<lambda>t. rmatch userinfo_end_re t
      (c(4 \<mapsto> take (length (a @ b) - length t) (a @ b))) k) = None"
  proof (rule star_none)
    fix x t
    assume "a @ b = x @ t" and "\<forall>u\<in>set x. none_of ''/?#:'' u"
    with assms show "rmatch userinfo_end_re t (c(4 \<mapsto> take (length (a @ b) - length t) (a @ b))) k
        = None"
      by (intro userinfo_end_none [of a b x]) (auto dest: none_of_name)
  qed
  then show ?thesis by (simp add: userinfo_re_def)
qed

lemma userinfo_user:
  assumes "\<forall>u\<in>set us. none_of ''/?#:'' u" and "cu (CHR ''@'') \<notin> set a" and "ends_authority b"
    and "k (a @ b) (c(4 \<mapsto> us)) = Some r"
  shows "rmatch userinfo_re (us @ cu (CHR ''@'') # a @ b) c k = Some r"
  unfolding userinfo_re_def rmatch.simps(4)
proof (rule cap_star_at)
  show "\<forall>u\<in>set us. none_of ''/?#:'' u" by fact
  show "rmatch userinfo_end_re (cu (CHR ''@'') # a @ b) (c(4 \<mapsto> us)) k = Some r"
    using assms(4) by (simp add: userinfo_end_re_def chr_def)
next
  fix a' b' :: jsstr
  assume "cu (CHR ''@'') # a @ b = a' @ b'" and "a' \<noteq> []" and n: "\<forall>u\<in>set a'. none_of ''/?#:'' u"
  then obtain x where "a @ b = x @ b'" and "\<forall>u\<in>set x. none_of ''/?#:'' u"
    by (cases a') auto
  then show "rmatch userinfo_end_re b' (c(4 \<mapsto> us @ a')) k = None"
    using assms(2,3) by (intro userinfo_end_none [of a b x]) (auto dest: none_of_name)
qed

lemma userinfo_password:
  assumes "\<forall>u\<in>set us. none_of ''/?#:'' u" and "\<forall>u\<in>set pw. none_of ''/?#:'' u"
    and "cu (CHR ''@'') \<notin> set a" and "ends_authority b"
    and "k (a @ b) (c(4 \<mapsto> us, 5 \<mapsto> pw)) = Some r"
  shows "rmatch userinfo_re (us @ cu (CHR '':'') # pw @ cu (CHR ''@'') # a @ b) c k = Some r"
  unfolding userinfo_re_def rmatch.simps(4)
proof (rule cap_star_greedy [OF assms(1)])
  let ?t = "pw @ cu (CHR ''@'') # a @ b"
  show "cu (CHR '':'') # ?t = [] \<or> \<not> none_of ''/?#:'' (hd (cu (CHR '':'') # ?t))" by simp
  have "rmatch (Cap 5 (Star (none_of ''/?#:''))) ?t (c(4 \<mapsto> us))
      (\<lambda>t d. if length t = length (cu (CHR '':'') # ?t) then None
             else rmatch (chr (CHR ''@'')) t d k) = Some r"
  proof (rule cap_star_at [OF assms(2)])
    fix a' b'
    assume "cu (CHR ''@'') # a @ b = a' @ b'" and "a' \<noteq> []" and n: "\<forall>u\<in>set a'. none_of ''/?#:'' u"
    then obtain x where "a @ b = x @ b'" and "\<forall>u\<in>set x. none_of ''/?#:'' u"
      by (cases a') auto
    then have "rmatch (chr (CHR ''@'')) b' (c(4 \<mapsto> us, 5 \<mapsto> pw @ a')) k = None"
      using assms(3,4) by (intro at_none [of a b x]) (auto dest: none_of_name)
    then show "(if length b' = length (cu (CHR '':'') # ?t) then None
        else rmatch (chr (CHR ''@'')) b' (c(4 \<mapsto> us, 5 \<mapsto> pw @ a')) k) = None"
      by simp
  qed (use assms(5) in \<open>simp add: chr_def\<close>)
  then show "rmatch userinfo_end_re (cu (CHR '':'') # ?t) (c(4 \<mapsto> us)) k = Some r"
    unfolding userinfo_end_re_def by - (rule seq_intro, rule opt_first, simp only: chr_here)
qed

section \<open>Share links\<close>

text \<open>
  The links the exports write: a scheme, an optional user and password, a host, an optional
  port, an optional path, query and fragment. An empty part stands for a missing one.
\<close>

record link =
  l_scheme :: jsstr
  l_user :: jsstr
  l_password :: jsstr
  l_host :: jsstr
  l_port :: jsstr
  l_path :: jsstr
  l_search :: jsstr
  l_hash :: jsstr

definition after :: "char \<Rightarrow> jsstr \<Rightarrow> jsstr" where
  "after c s = (if s = [] then [] else cu c # s)"

definition hostport_text :: "link \<Rightarrow> jsstr" where
  "hostport_text l = l_host l @ after (CHR '':'') (l_port l)"

definition userinfo_text :: "link \<Rightarrow> jsstr" where
  "userinfo_text l =
     (if l_user l = [] \<and> l_password l = [] then []
      else l_user l @ after (CHR '':'') (l_password l) @ js ''@'')"

definition origin_text :: "link \<Rightarrow> jsstr" where
  "origin_text l = l_scheme l @ js ''://'' @ userinfo_text l @ hostport_text l"

definition rest_text :: "link \<Rightarrow> jsstr" where
  "rest_text l = l_path l @ l_search l @ l_hash l"

definition link_text :: "link \<Rightarrow> jsstr" where
  "link_text l = origin_text l @ rest_text l"

definition plain_part :: "jsstr \<Rightarrow> bool" where
  "plain_part s \<longleftrightarrow> (\<forall>u\<in>set s. none_of ''/?#:@'' u)"

definition link_ok :: "link \<Rightarrow> bool" where
  "link_ok l \<longleftrightarrow>
     l_scheme l \<noteq> [] \<and> plain_part (l_scheme l) \<and> plain_part (l_user l)
     \<and> plain_part (l_password l) \<and> plain_part (l_host l) \<and> plain_part (l_port l)
     \<and> (l_path l = [] \<or> hd (l_path l) = cu (CHR ''/'')) \<and> (\<forall>u\<in>set (l_path l). none_of ''?#'' u)
     \<and> (l_search l = [] \<or> hd (l_search l) = cu (CHR ''?'')) \<and> (\<forall>u\<in>set (l_search l). none_of ''#'' u)
     \<and> (l_hash l = [] \<or> hd (l_hash l) = cu (CHR ''#'')) \<and> (\<forall>u\<in>set (l_hash l). dot u)"

definition link_parts :: "link \<Rightarrow> url_parts" where
  "link_parts l =
     \<lparr>u_hash = l_hash l, u_host = userinfo_text l @ hostport_text l, u_hostname = l_host l,
      u_href = link_text l, u_origin = origin_text l,
      u_pathname = (if l_path l = [] then js ''/'' else l_path l), u_port = l_port l,
      u_protocol = l_scheme l @ js '':'', u_search = l_search l, u_username = l_user l,
      u_password = l_password l\<rparr>"

definition cap_opt :: "nat \<Rightarrow> jsstr \<Rightarrow> caps \<Rightarrow> caps" where
  "cap_opt n s c = (if s = [] then c else c(n \<mapsto> s))"

lemma plain_part_name: "plain_part s \<Longrightarrow> \<forall>u\<in>set s. none_of ''/?#:'' u"
  by (auto simp: plain_part_def none_of_def js_def)

lemma plain_part_at: "plain_part s \<Longrightarrow> cu (CHR ''@'') \<notin> set s"
  by (auto simp: plain_part_def)

lemma ends_rest: "link_ok l \<Longrightarrow> ends_authority (rest_text l)"
  by (auto simp: link_ok_def ends_authority_def rest_text_def hd_append)

lemma ends_not_name: "ends_authority b \<Longrightarrow> b = [] \<or> \<not> none_of ''/?#:'' (hd b)"
  by (auto simp: ends_authority_def none_of_def js_def)

lemma ends_not_colon: "ends_authority b \<Longrightarrow> b = [] \<or> hd b \<noteq> cu (CHR '':'')"
  by (auto simp: ends_authority_def js_def)

lemma hostport_match:
  assumes "link_ok l" and "ends_authority b"
    and "k b (cap_opt 7 (l_port l) (c(6 \<mapsto> l_host l))) = Some r"
  shows "rmatch hostport_re (hostport_text l @ b) c k = Some r"
proof -
  let ?p = "Seq (chr (CHR '':'')) (Cap 7 (Star (none_of ''/?#:'')))"
  let ?b = "after (CHR '':'') (l_port l) @ b"
  have "rmatch (Opt ?p) ?b (c(6 \<mapsto> l_host l)) k = Some r"
  proof (cases "l_port l = []")
    case True
    have "rmatch ?p b d h = None" for d h
      by (rule chr_other [OF ends_not_colon [OF assms(2)]])
    then have "rmatch (Opt ?p) b (c(6 \<mapsto> l_host l)) k = k b (c(6 \<mapsto> l_host l))"
      by (rule opt_skip)
    with True assms(3) show ?thesis by (simp only: after_def cap_opt_def refl if_True append_Nil)
  next
    case False
    have "rmatch (Cap 7 (Star (none_of ''/?#:''))) (l_port l @ b) (c(6 \<mapsto> l_host l))
        (\<lambda>t d. if length t = length (cu (CHR '':'') # l_port l @ b) then None else k t d) = Some r"
      using assms(1,3) ends_not_name [OF assms(2)] False
      by (intro cap_star_greedy) (auto simp: link_ok_def cap_opt_def dest: plain_part_name)
    then have "rmatch (Opt ?p) (cu (CHR '':'') # l_port l @ b) (c(6 \<mapsto> l_host l)) k = Some r"
      by (intro opt_first) (simp only: chr_here)
    with False show ?thesis by (simp only: after_def if_False append_Cons)
  qed
  moreover have "?b = [] \<or> \<not> none_of ''/?#:'' (hd ?b)"
    using ends_not_name [OF assms(2)] by (simp add: after_def)
  ultimately have "rmatch (Cap 6 (Star (none_of ''/?#:''))) (l_host l @ ?b) c
      (\<lambda>t d. rmatch (Opt ?p) t d k) = Some r"
    using assms(1) by (intro cap_star_greedy) (auto simp: link_ok_def dest: plain_part_name)
  then show ?thesis
    unfolding hostport_re_def hostport_text_def append_assoc by (rule seq_intro)
qed


lemma authority_match:
  assumes "link_ok l" and "ends_authority b"
    and "k b ((cap_opt 7 (l_port l) ((if userinfo_text l = [] then c
           else cap_opt 5 (l_password l) (c(4 \<mapsto> l_user l)))(6 \<mapsto> l_host l)))
           (3 \<mapsto> userinfo_text l @ hostport_text l)) = Some r"
  shows "rmatch authority_re (userinfo_text l @ hostport_text l @ b) c k = Some r"
proof -
  let ?a = "userinfo_text l @ hostport_text l @ b"
  define k' where "k' = (\<lambda>t d. k t (d(3 \<mapsto> take (length ?a - length t) ?a)))"
  have len: "take (length ?a - length b) ?a = userinfo_text l @ hostport_text l"
    by simp
  have at: "cu (CHR ''@'') \<notin> set (hostport_text l)"
    using assms(1) by (auto simp: hostport_text_def link_ok_def after_def dest: plain_part_at)
  have host: "rmatch hostport_re (hostport_text l @ b) d k' = Some r"
    if "d = (if userinfo_text l = [] then c else cap_opt 5 (l_password l) (c(4 \<mapsto> l_user l)))" for d
    by (rule hostport_match [OF assms(1,2)]) (use assms(3) that len in \<open>simp only: k'_def\<close>)
  have "rmatch (Opt userinfo_re) ?a c (\<lambda>t d. rmatch hostport_re t d k') = Some r"
  proof (cases "userinfo_text l = []")
    case True
    have "rmatch (Opt userinfo_re) (hostport_text l @ b) c (\<lambda>t d. rmatch hostport_re t d k')
        = rmatch hostport_re (hostport_text l @ b) c k'"
      by (rule opt_skip) (rule userinfo_none [OF at assms(2)])
    with True host show ?thesis by simp
  next
    case False
    then have n: "(\<lambda>t d. if length t = length ?a then None else rmatch hostport_re t d k')
          (hostport_text l @ b) (cap_opt 5 (l_password l) (c(4 \<mapsto> l_user l))) = Some r"
      using host by simp
    have us: "\<forall>u\<in>set (l_user l). none_of ''/?#:'' u" "\<forall>u\<in>set (l_password l). none_of ''/?#:'' u"
      using assms(1) by (auto simp: link_ok_def dest: plain_part_name)
    show ?thesis
    proof (cases "l_password l = []")
      case True
      have "?a = l_user l @ cu (CHR ''@'') # hostport_text l @ b"
        using False True by (simp add: userinfo_text_def after_def js_def split: if_splits)
      with n True show ?thesis
        by (intro opt_first) (simp only: userinfo_user [OF us(1) at assms(2)] cap_opt_def refl if_True)
    next
      case p: False
      have "?a = l_user l @ cu (CHR '':'') # l_password l @ cu (CHR ''@'') # hostport_text l @ b"
        using p by (simp add: userinfo_text_def after_def js_def)
      with n p show ?thesis
        by (intro opt_first) (simp only: userinfo_password [OF us at assms(2)] cap_opt_def if_False)
    qed
  qed
  then have "rmatch (Seq (Opt userinfo_re) hostport_re) ?a c k' = Some r"
    by (rule seq_intro)
  then show ?thesis
    unfolding authority_re_def rmatch.simps(7) k'_def .
qed


lemma opt_part:
  assumes "s = [] \<or> hd s = cu ch" and "\<forall>u\<in>set (tl s). p u" and "b = [] \<or> \<not> p (hd b) \<and> hd b \<noteq> cu ch"
    and "k b (cap_opt n s c) = Some r"
  shows "rmatch (Opt (Cap n (Seq (chr ch) (Star p)))) (s @ b) c k = Some r"
proof (cases s)
  case Nil
  have "rmatch (Cap n (Seq (chr ch) (Star p))) b c h = None" for h
    unfolding rmatch.simps(7) using assms(3) by (intro chr_other) auto
  then have "rmatch (Opt (Cap n (Seq (chr ch) (Star p)))) b c k = k b c"
    by (rule opt_skip)
  with Nil assms(4) show ?thesis by (simp add: cap_opt_def)
next
  case (Cons y s')
  with assms(1) have y: "y = cu ch" by simp
  let ?u = "cu ch # s' @ b"
  have "star p (s' @ b) (\<lambda>t. if length t = length ?u then None
      else k t (c(n \<mapsto> take (length ?u - length t) ?u))) = Some r"
    using assms(2-4) Cons y by (intro star_greedy) (auto simp: cap_opt_def)
  then have "rmatch (Opt (Cap n (Seq (chr ch) (Star p)))) ?u c k = Some r"
    by - (rule opt_first, simp only: rmatch.simps(7) chr_here rmatch.simps(3))
  with Cons y show ?thesis by (simp only: append_Cons)
qed

lemmas opt_part_end = opt_part [where b = "[]", unfolded append_Nil2]

lemma rest_match:
  assumes "link_ok l"
  shows "rmatch rest_re (rest_text l) c (\<lambda>t c. Some c) =
    Some (cap_opt 10 (l_hash l) (cap_opt 9 (l_search l) (c(8 \<mapsto> l_path l))))"
proof -
  have tl: "set (tl s) \<subseteq> set s" for s :: jsstr by (cases s) auto
  have hd_hash: "l_hash l = [] \<or> hd (l_hash l) = cu (CHR ''#'')"
    and hd_search: "l_search l = [] \<or> hd (l_search l) = cu (CHR ''?'')"
    and in_hash: "\<forall>u\<in>set (tl (l_hash l)). dot u"
    and in_search: "\<forall>u\<in>set (tl (l_search l)). none_of ''#'' u"
    and in_path: "\<forall>u\<in>set (l_path l). none_of ''?#'' u"
    using assms tl [of "l_hash l"] tl [of "l_search l"] by (auto simp: link_ok_def)
  have hash: "rmatch (Seq (Opt (Cap 10 (Seq (chr (CHR ''#'')) (Star dot)))) Eol) (l_hash l) d
      (\<lambda>t c. Some c) = Some (cap_opt 10 (l_hash l) d)" for d
    by (rule seq_intro, rule opt_part_end [OF hd_hash in_hash]) simp_all
  have search: "rmatch (Seq (Opt (Cap 9 (Seq (chr (CHR ''?'')) (Star (none_of ''#'')))))
      (Seq (Opt (Cap 10 (Seq (chr (CHR ''#'')) (Star dot)))) Eol)) (l_search l @ l_hash l) d
      (\<lambda>t c. Some c) = Some (cap_opt 10 (l_hash l) (cap_opt 9 (l_search l) d))" for d
    by (rule seq_intro, rule opt_part [OF hd_search in_search]) (use hd_hash hash in auto)
  have "l_search l @ l_hash l = [] \<or> \<not> none_of ''?#'' (hd (l_search l @ l_hash l))"
    using hd_search hd_hash by (auto simp: hd_append)
  then show ?thesis
    unfolding rest_re_def rest_text_def
    by - (rule seq_intro, rule cap_star_greedy [OF in_path], simp, rule search)
qed

definition link_caps :: "link \<Rightarrow> caps" where
  "link_caps l =
     cap_opt 10 (l_hash l) (cap_opt 9 (l_search l)
       (((cap_opt 7 (l_port l) ((if userinfo_text l = [] then [2 \<mapsto> l_scheme l @ js '':'']
            else cap_opt 5 (l_password l) [2 \<mapsto> l_scheme l @ js '':'', 4 \<mapsto> l_user l])(6 \<mapsto> l_host l)))
          (3 \<mapsto> userinfo_text l @ hostport_text l, 1 \<mapsto> origin_text l, 8 \<mapsto> l_path l))))"

lemma cap_intro:
  "rmatch r (a @ b) c (\<lambda>t d. k t (d(n \<mapsto> take (length (a @ b) - length t) (a @ b)))) = Some x \<Longrightarrow>
     rmatch (Cap n r) (a @ b) c k = Some x"
  by simp

lemma scheme_match:
  assumes "link_ok l" and "k t [2 \<mapsto> l_scheme l @ js '':''] = Some r"
  shows "rmatch (Opt (Cap 2 (Seq (plus (none_of '':/?#'')) (chr (CHR '':''))))) (l_scheme l @ cu (CHR '':'') # t)
    Map.empty k = Some r"
proof -
  obtain x xs where s: "l_scheme l = x # xs"
    using assms(1) by (cases "l_scheme l") (auto simp: link_ok_def)
  have n: "none_of '':/?#'' x" "\<forall>u\<in>set xs. none_of '':/?#'' u"
    using assms(1) s by (auto simp: link_ok_def plain_part_def none_of_def js_def)
  let ?u = "x # xs @ cu (CHR '':'') # t"
  have "star (none_of '':/?#'') (xs @ cu (CHR '':'') # t) (\<lambda>v. rmatch (chr (CHR '':'')) v Map.empty
      (\<lambda>w d. if length w = length ?u then None else k w (d(2 \<mapsto> take (length ?u - length w) ?u)))) = Some r"
    using n(2) assms(2) s by (intro star_greedy) (auto simp: chr_def js_def)
  then have "rmatch (Opt (Cap 2 (Seq (plus (none_of '':/?#'')) (chr (CHR '':''))))) ?u Map.empty k = Some r"
    using n(1) by - (rule opt_first, simp only: plus_def rmatch.simps(2,3,4,7) list.case if_True)
  with s show ?thesis by simp
qed

lemma origin_match:
  assumes "link_ok l"
  shows "exec url_re (link_text l) = Some (link_caps l)"
proof -
  let ?t = "js ''//'' @ userinfo_text l @ hostport_text l @ rest_text l"
  have tx: "link_text l = l_scheme l @ cu (CHR '':'') # ?t" "link_text l = origin_text l @ rest_text l"
    by (simp_all add: link_text_def origin_text_def js_def)
  let ?k = "\<lambda>t d. if length t = length (link_text l) then None else rmatch rest_re t d (\<lambda>t c. Some c)"
  let ?k1 = "\<lambda>t d. ?k t (d(1 \<mapsto> take (length (link_text l) - length t) (link_text l)))"
  have ne: "length (rest_text l) \<noteq> length (link_text l)"
    using assms by (simp add: tx(1) link_ok_def)
  have at: "take (length (link_text l) - length (rest_text l)) (link_text l) = origin_text l"
    by (simp add: tx(2))
  have "rmatch authority_re (userinfo_text l @ hostport_text l @ rest_text l)
      [2 \<mapsto> l_scheme l @ js '':''] ?k1 = Some (link_caps l)"
    by (rule authority_match [OF assms ends_rest [OF assms]])
      (simp only: ne at if_False rest_match [OF assms] link_caps_def)
  moreover have "rmatch (Seq (lit ''//'') r) (js ''//'' @ u) d h = rmatch r u d h" for r u d and h :: "jsstr \<Rightarrow> caps \<Rightarrow> caps option"
    by (simp add: lit_def chr_def js_def)
  ultimately have "rmatch (Seq (lit ''//'') authority_re) ?t [2 \<mapsto> l_scheme l @ js '':''] ?k1 = Some (link_caps l)"
    by simp
  then have "rmatch (Seq (Opt (Cap 2 (Seq (plus (none_of '':/?#'')) (chr (CHR '':''))))) (Seq (lit ''//'') authority_re))
      (link_text l) Map.empty ?k1 = Some (link_caps l)"
    unfolding tx(1) by - (rule seq_intro, rule scheme_match [OF assms])
  then have "rmatch (Opt origin_re) (link_text l) Map.empty (\<lambda>t d. rmatch rest_re t d (\<lambda>t c. Some c)) = Some (link_caps l)"
    unfolding origin_re_def by - (rule opt_first, simp only: rmatch.simps(7))
  then show ?thesis
    unfolding exec_def url_re_def by (rule seq_intro)
qed

lemma parseUrl_link:
  assumes "link_ok l"
  shows "parseUrl new_url (link_text l) = Some (link_parts l)"
proof -
  have "origin_text l \<noteq> []" by (simp add: origin_text_def)
  then show ?thesis
    by (simp add: parseUrl_def origin_match [OF assms] link_parts_def group_def link_caps_def cap_opt_def
        userinfo_text_def)
qed

section \<open>Query strings\<close>

text \<open>A query map as the exports build it: no key twice, no key that breaks property access.\<close>

definition query_ok :: "jsstr obj \<Rightarrow> bool" where
  "query_ok qm \<longleftrightarrow>
     obj_ok qm \<and> (\<forall>k\<in>fst ` set qm. k \<notin> set [js ''hasOwnProperty'', js ''__proto__''])"

definition encoded :: "jsstr \<Rightarrow> jsstr" where
  "encoded s = the (encodeURIComponent s)"

definition encoded_query :: "jsstr obj \<Rightarrow> jsstr obj" where
  "encoded_query qm = map (\<lambda>(k, v). (k, encoded v)) (filter (\<lambda>kv. snd kv \<noteq> []) (entries qm))"

lemma encode_Some: "well_formed s \<Longrightarrow> encodeURIComponent s = Some (encoded s)"
  using encodeURIComponent_defined [of s] by (auto simp: encoded_def)

lemma decode_encoded [simp]: "well_formed s \<Longrightarrow> decodeURIComponent (encoded s) = Some s"
  by (rule decode_encode [OF encode_Some])

lemma encoded_units: "well_formed s \<Longrightarrow> \<forall>u\<in>set (encoded s). escape_unit u"
  by (rule encode_escape_units [OF encode_Some])

lemma encoded_eq_Nil [simp]: "well_formed s \<Longrightarrow> encoded s = [] \<longleftrightarrow> s = []"
  using encode_eq_Nil_iff [OF encode_Some] by blast

lemma query_pair_Some_iff:
  "query_pair (k, v) = Some ps \<longleftrightarrow>
     well_formed k \<and> well_formed v \<and> ps = encoded k @ js ''='' @ encoded v"
  using encodeURIComponent_defined [of k] encodeURIComponent_defined [of v]
  by (auto simp: query_pair_def encoded_def split: option.splits)

lemma not_escape_units [simp]:
  "\<not> escape_unit (cu (CHR ''=''))" "\<not> escape_unit (cu (CHR ''&''))" "\<not> escape_unit (cu (CHR ''#''))"
  "\<not> escape_unit (cu (CHR ''?''))" "\<not> escape_unit (cu (CHR ''/''))" "\<not> escape_unit (cu (CHR '':''))"
  "\<not> escape_unit (cu (CHR ''@''))"
  by (simp_all add: escape_unit_def uri_unreserved_def char_code_simps)

lemma add_param_new:
  "k \<notin> fst ` set q \<Longrightarrow> js ''hasOwnProperty'' \<notin> fst ` set q \<Longrightarrow> k \<noteq> js ''__proto__'' \<Longrightarrow>
     add_param k v q = Some (q @ [(k, v)])"
  by (simp add: add_param_def own_property_def map_of_eq_None_iff obj_assign_def obj_put_new)

lemma parse_params_pairs:
  assumes "collect_opt (map query_pair kvs) = Some ps"
    and "query_ok (q @ kvs)"
  shows "parse_params ps q = Some (q @ map (\<lambda>(k, v). (k, encoded v)) kvs)"
  using assms
proof (induction kvs arbitrary: q ps)
  case (Cons kv kvs)
  obtain k v where kv: "kv = (k, v)" by force
  from Cons.prems(1) kv obtain p qs where p: "query_pair (k, v) = Some p" and ps: "ps = p # qs"
    and qs: "collect_opt (map query_pair kvs) = Some qs"
    by (cases "query_pair (k, v)") auto
  from p have wf: "well_formed k" "well_formed v" and pe: "p = encoded k @ cu (CHR ''='') # encoded v"
    by (simp_all add: query_pair_Some_iff js_def)
  have eq: "cu (CHR ''='') \<notin> set (encoded k)"
    using encoded_units [OF wf(1)] not_escape_units(1) by metis
  have add: "add_param k (encoded v) q = Some (q @ [(k, encoded v)])"
  proof (rule add_param_new)
    show "k \<notin> fst ` set q"
      using Cons.prems(2) kv by (auto simp: query_ok_def obj_ok_def)
    have names: "\<forall>l\<in>fst ` set (q @ (k, v) # kvs). l \<notin> set [js ''hasOwnProperty'', js ''__proto__'']"
      using Cons.prems(2) unfolding query_ok_def kv by (rule conjunct2)
    then show "k \<noteq> js ''__proto__''" by simp
    show "js ''hasOwnProperty'' \<notin> fst ` set q"
    proof
      assume "js ''hasOwnProperty'' \<in> fst ` set q"
      then have "js ''hasOwnProperty'' \<in> fst ` set (q @ (k, v) # kvs)" by auto
      from bspec [OF names this] show False by simp
    qed
  qed
  have "query_ok ((q @ [(k, encoded v)]) @ kvs)"
    using Cons.prems(2) kv by (auto simp: query_ok_def obj_ok_def)
  then have "parse_params qs (q @ [(k, encoded v)]) =
      Some ((q @ [(k, encoded v)]) @ map (\<lambda>(k, v). (k, encoded v)) kvs)"
    by (rule Cons.IH [OF qs])
  then show ?case
    using add by (simp add: ps pe kv js_def index_of_single [OF eq] substring_def substring_from_def
        query_key_def wf)
qed simp

lemma query_ok_entries: "query_ok qm \<Longrightarrow> query_ok (filter P (entries qm))"
  using obj_ok_entries [of qm] by (auto simp: query_ok_def obj_ok_def intro: distinct_map_filter)

text \<open>A query string the export wrote is read back with its values still encoded.\<close>

lemma parseQuery_queryMapToString:
  assumes "queryMapToString qm = Some s" and "query_ok qm"
  shows "parseQuery (cu (CHR ''?'') # s) = Some (encoded_query qm)"
proof -
  let ?kvs = "filter (\<lambda>kv. snd kv \<noteq> []) (entries qm)"
  from assms(1) obtain ps where ps: "collect_opt (map query_pair ?kvs) = Some ps" and s: "s = join (js ''&'') ps"
    by (auto simp: queryMapToString_def split: if_splits)
  have "query_ok ([] @ ?kvs)" using query_ok_entries [OF assms(2)] by simp
  note parsed = parse_params_pairs [OF ps this]
  have units: "\<forall>p\<in>set ps. cu (CHR ''&'') \<notin> set p \<and> p \<noteq> []"
  proof
    fix p
    assume "p \<in> set ps"
    then have "Some p \<in> set (map query_pair ?kvs)"
      using ps by (simp add: collect_opt_eq_Some_iff)
    then obtain k v where "query_pair (k, v) = Some p" by force
    then have p: "well_formed k" "well_formed v" "p = encoded k @ cu (CHR ''='') # encoded v"
      by (simp_all add: query_pair_Some_iff js_def)
    show "cu (CHR ''&'') \<notin> set p \<and> p \<noteq> []"
      using p encoded_units [OF p(1)] encoded_units [OF p(2)] not_escape_units(2) by auto
  qed
  show ?thesis
  proof (cases "ps = []")
    case True
    with ps have "?kvs = []" by (simp add: collect_opt_eq_Some_iff)
    with True s show ?thesis by (simp add: parseQuery_def encoded_query_def)
  next
    case False
    then have "s \<noteq> []" using units s by (cases ps; cases "tl ps = []") (auto simp: join_Cons)
    moreover have "split_on (js ''&'') s = ps"
      unfolding s js_def using split_on_join [OF False, of "cu (CHR ''&'')"] units by simp
    ultimately show ?thesis
      using parsed by (simp add: parseQuery_def substring_from_def encoded_query_def)
  qed
qed

section \<open>Fragments\<close>

lemma decode_loop_stop: "decodeURIComponent s = None \<or> decodeURIComponent s = Some s \<Longrightarrow> decode_loop s = s"
  by (subst decode_loop.simps) auto

lemma decode_loop_step: "decodeURIComponent s = Some d \<Longrightarrow> decode_loop s = decode_loop d"
  by (subst decode_loop.simps) (auto simp: decode_loop_stop)

text \<open>The result cannot be decoded further, and is no longer than the input.\<close>

lemma decode_loop_result:
  "decodeURIComponent (decode_loop s) \<in> {None, Some (decode_loop s)} \<and> length (decode_loop s) \<le> length s"
proof (induction s rule: decode_loop.induct)
  case (1 s)
  show ?case
  proof (cases "decodeURIComponent s")
    case (Some d)
    show ?thesis
    proof (cases "d = s")
      case False
      with 1 Some decodeURIComponent_length [OF Some] show ?thesis
        by (simp add: decode_loop_step [OF Some])
    qed (use Some in \<open>simp add: decode_loop_stop\<close>)
  qed (simp add: decode_loop_stop)
qed

text \<open>An encoded name comes back when it has nothing left to decode.\<close>

lemma decodeFragment_encoded:
  assumes "well_formed s" and "decodeURIComponent s \<in> {None, Some s}"
  shows "decodeFragment (encoded s) = s"
proof (cases "s = []")
  case False
  with assms(1) have "encoded s \<noteq> []" by simp
  moreover have "decode_loop (encoded s) = s"
    using assms decode_loop_step [of "encoded s" s] by (auto simp: decode_loop_stop)
  ultimately show ?thesis by (simp add: decodeFragment_def)
qed (use assms in \<open>simp add: decodeFragment_def\<close>)

end
