(* ===== verification/OtherParams.thy ===== *)
theory OtherParams
  imports FormFields UrlSyntax
begin

text \<open>
  The free-text \<open>other_parameters\<close> field of a node: a small YAML text that holds the
  parameters of a share link the form has no field for. Import merges unknown parameters into
  it (\<open>mergeUnknownParamsToOtherParameters\<close>), export reads it back (\<open>parseOtherParameters\<close>,
  \<open>mergeOtherParametersToQuery\<close>). Where an own property named hasOwnProperty makes the source
  throw, the result is \<open>None\<close>, or the flag \<open>False\<close> next to the page as it was at the throw.
\<close>

section \<open>Values and scalars\<close>

definition is_true :: "jsstr \<Rightarrow> bool" where
  "is_true s \<longleftrightarrow> s = js ''true''"

definition or_text :: "jsstr \<Rightarrow> jsstr \<Rightarrow> jsstr" where
  \<comment> \<open>\<open>a || b\<close> on strings\<close>
  "or_text a b = (if a \<noteq> [] then a else b)"

datatype pvalue = Text jsstr | Items "jsstr list"

fun jval_of :: "pvalue \<Rightarrow> jval" where
  "jval_of (Text s) = JStr s"
| "jval_of (Items xs) = JArr (map JStr xs)"

definition jvals_of :: "pvalue obj \<Rightarrow> jval obj" where
  "jvals_of ob = map (\<lambda>(k, v). (k, jval_of v)) ob"

definition decodeURIComponentSafe :: "jsstr \<Rightarrow> jsstr" where
  "decodeURIComponentSafe s = (case decodeURIComponent s of None \<Rightarrow> s | Some t \<Rightarrow> t)"

definition quote_unit :: jsstr where
  "quote_unit = js [CHR 0x22]"

definition stripYamlQuotes :: "jsstr \<Rightarrow> jsstr" where
  "stripYamlQuotes s =
     (let v = trim s; first = charAt 0 v; final = charAt (length v - 1) v
      in if 2 \<le> length v
            \<and> (first = quote_unit \<and> final = quote_unit
               \<or> first = js [CHR 0x27] \<and> final = js [CHR 0x27])
         then substring 1 (length v - 1) v else v)"

definition yaml_word_re :: re where
  \<comment> \<open>\<open>/^(true|false|null)$/i\<close>\<close>
  "yaml_word_re = Seq (Cap 1 (alts [lit_i ''true'', lit_i ''false'', lit_i ''null''])) Eol"

definition yaml_number_re :: re where
  \<comment> \<open>\<open>/^-?\d+(\.\d+)?$/\<close>\<close>
  "yaml_number_re =
     Seq (Opt (chr (CHR ''-''))) (Seq (plus digit)
       (Seq (Opt (Cap 1 (Seq (chr (CHR ''.'')) (plus digit)))) Eol))"

definition quoted_scalar :: "jsstr \<Rightarrow> jsstr" where
  "quoted_scalar v =
     quote_unit
     @ replace_unit (cu (CHR 0x22)) (js [CHR 0x5C, CHR 0x22])
         (replace_unit (cu (CHR 0x5C)) (js [CHR 0x5C, CHR 0x5C]) v)
     @ quote_unit"

definition encode_text :: "jsstr \<Rightarrow> jsstr" where
  "encode_text v = (if test yaml_word_re v \<or> test yaml_number_re v then v else quoted_scalar v)"

definition encodeYamlScalar :: "jval \<Rightarrow> jsstr option" where
  "encodeYamlScalar v =
     (case v of
        JBool b \<Rightarrow> to_string v
      | JNum n \<Rightarrow> to_string v
      | JNull \<Rightarrow> Some (encode_text [])
      | _ \<Rightarrow> map_option encode_text (to_string v))"

definition buildOtherParameterBlock :: "jsstr \<Rightarrow> jval \<Rightarrow> jsstr list option" where
  "buildOtherParameterBlock key v =
     (case v of
        JArr vs \<Rightarrow>
          map_option (\<lambda>xs. (js ''    '' @ key @ js '':'') # map (\<lambda>x. js ''      - '' @ x) xs)
            (collect_opt (map encodeYamlScalar vs))
      | _ \<Rightarrow> map_option (\<lambda>x. [js ''    '' @ key @ js '': '' @ x]) (encodeYamlScalar v))"

section \<open>Lines\<close>

abbreviation newline :: cu where
  "newline \<equiv> cu (CHR 0x0A)"

fun unix_newlines :: "jsstr \<Rightarrow> jsstr" where
  \<comment> \<open>\<open>.replace(/\r\n?/g, '\n')\<close>\<close>
  "unix_newlines [] = []"
| "unix_newlines [u] = [if u = cu (CHR 0x0D) then newline else u]"
| "unix_newlines (u # w # s) =
     (if u = cu (CHR 0x0D) then
        (if w = newline then newline # unix_newlines s else newline # unix_newlines (w # s))
      else u # unix_newlines (w # s))"

definition text_lines :: "jsstr \<Rightarrow> jsstr list" where
  "text_lines text =
     (let source = unix_newlines text in if source = [] then [] else split_on [newline] source)"

definition join_lines :: "jsstr list \<Rightarrow> jsstr" where
  "join_lines ls = join [newline] ls"

definition chop_newlines :: "jsstr \<Rightarrow> jsstr" where
  \<comment> \<open>\<open>.replace(/\n+$/, '')\<close>\<close>
  "chop_newlines s = rev (dropWhile (\<lambda>u. u = newline) (rev s))"

definition chop_both :: "jsstr \<Rightarrow> jsstr" where
  "chop_both s = chop_newlines (dropWhile (\<lambda>u. u = newline) s)"

definition blank_re :: re where
  "blank_re = Seq (Star is_ws) Eol"

definition comment_re :: re where
  "comment_re = Seq (Star is_ws) (chr (CHR ''#''))"

definition keepOnlyCommentLines :: "jsstr \<Rightarrow> jsstr" where
  "keepOnlyCommentLines text =
     (let kept = filter (\<lambda>l. test blank_re l \<or> test comment_re l) (text_lines text)
      in join_lines (rev (dropWhile (test blank_re) (rev kept))))"

definition tail_re :: re where
  \<comment> \<open>\<open>:\s*(.*)$\<close>\<close>
  "tail_re = Seq (chr (CHR '':'')) (Seq (Star is_ws) (Seq (Cap 2 (Star dot)) Eol))"

definition param_re :: re where
  \<comment> \<open>\<open>/^ {4}([A-Za-z0-9_-]+):\s*(.*)$/\<close>\<close>
  "param_re = Seq (lit ''    '') (Seq (Cap 1 (plus word_or_dash)) tail_re)"

definition item_re :: re where
  \<comment> \<open>\<open>/^ {6}-\s*(.*)$/\<close>\<close>
  "item_re =
     Seq (lit ''      -'') (Seq (Star is_ws) (Seq (Cap 1 (Star dot)) Eol))"

definition bracket_re :: re where
  \<comment> \<open>\<open>/^\[.*\]$/\<close>\<close>
  "bracket_re = Seq (chr (CHR ''['')) (Seq (Star dot) (Seq (chr (CHR '']'')) Eol))"

definition key_re :: "jsstr \<Rightarrow> re" where
  \<comment> \<open>the RegExp made of the escaped key\<close>
  "key_re key =
     Seq (lit ''    '') (foldr Seq (map (\<lambda>u. Cls (\<lambda>x. x = u)) key) tail_re)"

definition ends_block :: "jsstr \<Rightarrow> bool" where
  "ends_block l \<longleftrightarrow> test param_re l \<or> test (Cls (\<lambda>u. \<not> is_ws u)) l"

section \<open>The import state\<close>

definition beginImportOtherParameters :: "jsstr \<Rightarrow> page \<Rightarrow> page" where
  "beginImportOtherParameters sid p =
     (let cleaned = keepOnlyCommentLines (getFormValue sid ''other_parameters'' p)
      in (setFormValue sid ''other_parameters'' (Some cleaned) 0 p)
           \<lparr>import_st := Some \<lparr>is_sid = sid, is_comments = cleaned, is_params = []\<rparr>\<rparr>)"

definition endImportOtherParameters :: "page \<Rightarrow> page" where
  "endImportOtherParameters p = p\<lparr>import_st := None\<rparr>"

definition no_value :: "jval \<Rightarrow> bool" where
  \<comment> \<open>\<open>value == null || value === ''\<close>\<close>
  "no_value v \<longleftrightarrow> v = JNull \<or> v = JStr []"

fun append_blocks :: "jsstr list \<Rightarrow> jsstr list list \<Rightarrow> jsstr list" where
  "append_blocks ls [] = ls"
| "append_blocks ls (b # bs) =
     append_blocks ((if ls = [] then [] else ls @ [[]]) @ b) bs"

definition params_block_lines :: "jval obj \<Rightarrow> jsstr list option" where
  "params_block_lines params =
     (if obj_get params (js ''hasOwnProperty'') \<noteq> None then None
      else map_option (append_blocks [])
             (collect_opt (map (\<lambda>(k, v). buildOtherParameterBlock k v)
               (filter (\<lambda>(k, v). \<not> no_value v) (entries params)))))"

definition rebuildOtherParametersFromState :: "import_state \<Rightarrow> jsstr option" where
  "rebuildOtherParametersFromState st =
     map_option
       (\<lambda>ls. let paramsText = join_lines ls; commentsText = chop_newlines (unix_newlines (is_comments st))
             in if commentsText \<noteq> [] \<and> paramsText \<noteq> [] then commentsText @ [newline] @ paramsText
                else if commentsText \<noteq> [] then commentsText else paramsText)
       (params_block_lines (is_params st))"

definition upsertOtherParameterText :: "jsstr \<Rightarrow> jsstr \<Rightarrow> jval \<Rightarrow> jsstr option" where
  "upsertOtherParameterText text key v =
     map_option
       (\<lambda>block.
          let ls = text_lines text;
              before = takeWhile (\<lambda>l. \<not> test (key_re key) l) ls;
              found = dropWhile (\<lambda>l. \<not> test (key_re key) l) ls
          in if found = [] then
               chop_both (join_lines ((if ls \<noteq> [] \<and> last ls \<noteq> [] then ls @ [[]] else ls) @ block))
             else
               chop_both (join_lines (before @ block @ dropWhile (\<lambda>l. \<not> ends_block l) (tl found))))
       (buildOtherParameterBlock key v)"

fun upsert_all :: "jval obj \<Rightarrow> jsstr \<Rightarrow> jsstr option" where
  "upsert_all [] text = Some text"
| "upsert_all ((k, v) # kvs) text =
     (if no_value v then upsert_all kvs text
      else case upsertOtherParameterText text k v of
             None \<Rightarrow> None | Some t \<Rightarrow> upsert_all kvs t)"

definition state_params :: "jval obj \<Rightarrow> jval obj \<Rightarrow> jval obj" where
  "state_params params ob =
     foldl (\<lambda>m (k, v). if no_value v then m else obj_assign k v m) ob (entries params)"

definition merge_into_state :: "jsstr \<Rightarrow> jval obj \<Rightarrow> import_state \<Rightarrow> page \<Rightarrow> page \<times> bool" where
  "merge_into_state sid params st p =
     (let st' = st\<lparr>is_params := state_params params (is_params st)\<rparr>;
          q = p\<lparr>import_st := Some st'\<rparr>
      in if \<forall>kv\<in>set params. no_value (snd kv) then (q, True)
         else case rebuildOtherParametersFromState st' of
                None \<Rightarrow> (q, False)
              | Some t \<Rightarrow> (setFormValue sid ''other_parameters'' (Some t) 0 q, True))"

definition merge_into_text :: "jsstr \<Rightarrow> jval obj \<Rightarrow> page \<Rightarrow> page \<times> bool" where
  "merge_into_text sid params p =
     (case upsert_all (entries params) (getFormValue sid ''other_parameters'' p) of
        None \<Rightarrow> (p, False)
      | Some t \<Rightarrow>
          (if \<forall>kv\<in>set params. no_value (snd kv) then p
           else setFormValue sid ''other_parameters'' (Some t) 0 p, True))"

definition mergeUnknownParamsToOtherParameters :: "jsstr \<Rightarrow> jval obj \<Rightarrow> page \<Rightarrow> page \<times> bool" where
  "mergeUnknownParamsToOtherParameters sid params p =
     (if obj_get params (js ''hasOwnProperty'') \<noteq> None then (p, False)
      else case import_st p of
             None \<Rightarrow> merge_into_text sid params p
           | Some st \<Rightarrow>
               if is_sid st = sid then merge_into_state sid params st p
               else merge_into_text sid params p)"

section \<open>Reading the text back\<close>

definition captured :: "nat \<Rightarrow> caps \<Rightarrow> jsstr" where
  "captured n m = (case m n of None \<Rightarrow> [] | Some s \<Rightarrow> s)"

definition scalar_value :: "jsstr \<Rightarrow> pvalue" where
  "scalar_value rest =
     (if test bracket_re rest then
        (let body = trim (substring 1 (length rest - 1) rest)
         in if body = [] then Items []
            else Items (map (\<lambda>x. stripYamlQuotes (trim x)) (split_on (js '','') body)))
      else Text (stripYamlQuotes rest))"

fun take_items :: "jsstr list \<Rightarrow> jsstr list \<times> jsstr list" where
  "take_items [] = ([], [])"
| "take_items (l # ls) =
     (case exec item_re l of
        Some m \<Rightarrow> (case take_items ls of (xs, r) \<Rightarrow> (stripYamlQuotes (trim (captured 1 m)) # xs, r))
      | None \<Rightarrow> if ends_block l then ([], l # ls) else take_items ls)"

lemma take_items_length: "length (snd (take_items ls)) \<le> length ls"
  by (induction ls) (auto split: option.splits prod.splits)

function parse_lines :: "jsstr list \<Rightarrow> pvalue obj \<Rightarrow> pvalue obj" where
  "parse_lines [] ob = ob"
| "parse_lines (l # ls) ob =
     (case exec param_re l of
        None \<Rightarrow> parse_lines ls ob
      | Some m \<Rightarrow>
          (let key = captured 1 m; rest = trim (captured 2 m)
           in if rest \<noteq> [] then
                (if charAt 0 rest = js ''#'' then parse_lines ls ob
                 else parse_lines ls (obj_assign key (scalar_value rest) ob))
              else
                (let (xs, r) = take_items ls
                 in parse_lines r (if xs = [] then ob else obj_assign key (Items xs) ob))))"
  by pat_completeness auto

termination
proof (relation "measure (\<lambda>(ls, ob). length ls)", goal_cases)
  case (5 l ls ob m key rest xr xs r)
  then show ?case using take_items_length [of ls] by (metis in_measure le_imp_less_Suc length_Cons old.prod.case snd_conv)
qed simp_all

definition parseOtherParameters :: "jsstr \<Rightarrow> pvalue obj" where
  "parseOtherParameters text = parse_lines (text_lines text) []"

section \<open>From the text to a query\<close>

definition getDefaultOtherParamSkipKeys :: "string list" where
  "getDefaultOtherParamSkipKeys =
     [''name'', ''type'', ''server'', ''port'', ''username'', ''password'', ''uuid'', ''token'']"

fun pvalue_text :: "pvalue \<Rightarrow> jsstr" where
  "pvalue_text (Text s) = s"
| "pvalue_text (Items xs) = join (js '','') xs"

definition merge_other :: "pvalue obj \<Rightarrow> jsstr obj \<Rightarrow> (string \<times> string) list option \<Rightarrow> string list
    \<Rightarrow> jsstr obj option" where
  "merge_other other queryMap keyMap skipKeys =
     (if obj_get other (js ''hasOwnProperty'') \<noteq> None then None
      else Some (foldl (\<lambda>qm (k, v). if flag_set skipKeys k then qm
                           else obj_assign (mapped_key keyMap k) (pvalue_text v) qm)
                   queryMap (entries other)))"

definition mergeOtherParametersToQuery ::
    "jsstr \<Rightarrow> page \<Rightarrow> jsstr obj \<Rightarrow> (string \<times> string) list option \<Rightarrow> string list \<Rightarrow> jsstr obj option" where
  "mergeOtherParametersToQuery sid p queryMap keyMap skipKeys =
     merge_other (parseOtherParameters (getFormValue sid ''other_parameters'' p))
       queryMap keyMap skipKeys"

section \<open>From a query to unknown parameters\<close>

definition normalizeUnknownParamValueByKey :: "jsstr \<Rightarrow> pvalue \<Rightarrow> pvalue" where
  "normalizeUnknownParamValueByKey key v =
     (if \<not> isYamlListLikeKey key then v
      else case v of
             Items xs \<Rightarrow> Items (filter (\<lambda>x. x \<noteq> []) (map trim xs))
           | Text s \<Rightarrow> Items (trimmed_items s))"

definition collectUnknownQueryParams :: "jsstr obj \<Rightarrow> string list \<Rightarrow> pvalue obj option" where
  "collectUnknownQueryParams query knownKeys =
     (if obj_get query (js ''hasOwnProperty'') \<noteq> None then None
      else Some (foldl (\<lambda>ob (k, v). if flag_set knownKeys k then ob
             else obj_assign k (normalizeUnknownParamValueByKey k (Text (decodeURIComponentSafe v))) ob)
           [] (entries query)))"

definition remapParamKeys :: "pvalue obj \<Rightarrow> (string \<times> string) list \<Rightarrow> pvalue obj option" where
  "remapParamKeys params keyMap =
     (if obj_get params (js ''hasOwnProperty'') \<noteq> None then None
      else Some (foldl (\<lambda>ob (k, v).
             let l = mapped_key (Some keyMap) k
             in obj_assign l (normalizeUnknownParamValueByKey l v) ob) [] (entries params)))"

end
