(* ===== verification/JsBase64.thy ===== *)
theory JsBase64
  imports JsUri
begin

text \<open>
  \<open>btoa\<close> and \<open>atob\<close> as the HTML standard defines them (forgiving-base64 decode), and the
  Base64 helpers of \<open>openclash/js/server_url.js\<close> built on them: the URL-safe variants and the
  variants that go through UTF-8. \<open>None\<close> is the InvalidCharacterError or URIError thrown.
\<close>

section \<open>btoa and atob\<close>

definition b64_alphabet :: jsstr where
  "b64_alphabet = js ''ABCDEFGHIJKLMNOPQRSTUVWXYZabcdefghijklmnopqrstuvwxyz0123456789+/''"

definition b64_digit :: "nat \<Rightarrow> cu" where
  "b64_digit n = b64_alphabet ! n"

definition b64_value :: "cu \<Rightarrow> nat option" where
  "b64_value u = index_of [u] b64_alphabet"

abbreviation eq_sign :: cu where
  "eq_sign \<equiv> cu (CHR ''='')"

fun to_sextets :: "nat list \<Rightarrow> nat list" where
  "to_sextets [] = []"
| "to_sextets [a] = [a div 4, a mod 4 * 16]"
| "to_sextets [a, b] = [a div 4, a mod 4 * 16 + b div 16, b mod 16 * 4]"
| "to_sextets (a # b # c # r) =
     a div 4 # (a mod 4 * 16 + b div 16) # (b mod 16 * 4 + c div 64) # c mod 64 # to_sextets r"

fun from_sextets :: "nat list \<Rightarrow> nat list" where
  "from_sextets (a # b # c # d # r) =
     (a * 4 + b div 16) # (b mod 16 * 16 + c div 4) # (c mod 4 * 64 + d) # from_sextets r"
| "from_sextets [a, b, c] = [a * 4 + b div 16, b mod 16 * 16 + c div 4]"
| "from_sextets [a, b] = [a * 4 + b div 16]"
| "from_sextets _ = []"

definition btoa :: "jsstr \<Rightarrow> jsstr option" where
  "btoa s =
     (if \<exists>u\<in>set s. 256 \<le> unat u then None
      else Some (map b64_digit (to_sextets (map unat s))
                 @ replicate ((3 - length s mod 3) mod 3) eq_sign))"

definition strip_padding :: "jsstr \<Rightarrow> jsstr" where
  "strip_padding s =
     (case rev s of
        x # y # r \<Rightarrow> if x = eq_sign then (if y = eq_sign then rev r else rev (y # r)) else s
      | _ \<Rightarrow> s)"

definition ascii_ws :: "cu \<Rightarrow> bool" where
  "ascii_ws u \<longleftrightarrow> u \<in> set [0x09, 0x0A, 0x0C, 0x0D, 0x20]"

definition atob :: "jsstr \<Rightarrow> jsstr option" where
  "atob s =
     (let t = filter (\<lambda>u. \<not> ascii_ws u) s;
          d = (if length t mod 4 = 0 then strip_padding t else t)
      in if length d mod 4 = 1 then None
         else map_option (\<lambda>vs. map word_of_nat (from_sextets vs)) (collect_opt (map b64_value d)))"

section \<open>The helpers of server_url.js\<close>

definition padright :: "jsstr \<Rightarrow> nat \<Rightarrow> jsstr \<Rightarrow> jsstr" where
  "padright str cnt pad = str @ join pad (replicate (cnt + 1) [])"

text \<open>\<open>.replace(/%([0-9A-F]{2})/g, ...)\<close>: every upper-case escape becomes its octet.\<close>

definition upper_hex :: "cu \<Rightarrow> bool" where
  "upper_hex u \<longleftrightarrow> u \<in> set (js ''0123456789ABCDEF'')"

fun unescape_octets :: "jsstr \<Rightarrow> jsstr" where
  "unescape_octets (p # a # b # r) =
     (if p = cu (CHR ''%'') \<and> upper_hex a \<and> upper_hex b
      then word_of_nat (16 * the (hexval a) + the (hexval b)) # unescape_octets r
      else p # unescape_octets (a # b # r))"
| "unescape_octets s = s"

definition b64EncodeUnicode :: "jsstr \<Rightarrow> jsstr option" where
  "b64EncodeUnicode str =
     (case encodeURIComponent str of None \<Rightarrow> None | Some e \<Rightarrow> btoa (unescape_octets e))"

definition url_safe :: "jsstr \<Rightarrow> jsstr" where
  \<comment> \<open>\<open>.replace(/\+/g, "-").replace(/\//g, "_").replace(/=+$/g, '')\<close>\<close>
  "url_safe s =
     rev (dropWhile (\<lambda>u. u = eq_sign) (rev
       (replace_unit (cu (CHR ''/'')) [cu (CHR ''_'')]
         (replace_unit (cu (CHR ''+'')) [cu (CHR ''-'')] s))))"

definition b64encutf8safe :: "jsstr \<Rightarrow> jsstr option" where
  "b64encutf8safe str = map_option url_safe (b64EncodeUnicode str)"

fun hex_lower :: "nat \<Rightarrow> jsstr" where
  \<comment> \<open>\<open>n.toString(16)\<close>\<close>
  "hex_lower n =
     (if n < 16 then [js ''0123456789abcdef'' ! n]
      else hex_lower (n div 16) @ [js ''0123456789abcdef'' ! (n mod 16)])"

declare hex_lower.simps [simp del]

definition slice_last :: "nat \<Rightarrow> jsstr \<Rightarrow> jsstr" where
  "slice_last n s = drop (length s - n) s"

definition octet_escape :: "nat \<Rightarrow> jsstr" where
  "octet_escape b = js ''%'' @ slice_last 2 (js ''00'' @ hex_lower b)"

definition b64DecodeUnicode :: "jsstr \<Rightarrow> jsstr option" where
  "b64DecodeUnicode str =
     (case atob str of None \<Rightarrow> None
      | Some t \<Rightarrow> decodeURIComponent (join [] (map (\<lambda>c. octet_escape (unat c)) t)))"

definition from_url_safe :: "jsstr \<Rightarrow> jsstr" where
  "from_url_safe s =
     (let t = replace_unit (cu (CHR ''_'')) [cu (CHR ''/'')]
                (replace_unit (cu (CHR ''-'')) [cu (CHR ''+'')] s);
          l = (4 - length t mod 4) mod 4
      in if l \<noteq> 0 then padright t l [eq_sign] else t)"

definition b64decutf8safe :: "jsstr \<Rightarrow> jsstr option" where
  "b64decutf8safe str = b64DecodeUnicode (from_url_safe str)"

definition b64encsafe :: "jsstr \<Rightarrow> jsstr option" where
  "b64encsafe str = map_option url_safe (btoa str)"

definition b64decsafe :: "jsstr \<Rightarrow> jsstr option" where
  "b64decsafe str = atob (from_url_safe str)"

section \<open>Sextets and octets\<close>

lemma sextet_bounds:
  "y < 16 \<Longrightarrow> x mod 4 * 16 + y < (64 :: nat)"
  "z < 4 \<Longrightarrow> x mod 16 * 4 + z < (64 :: nat)"
  using mod_less_divisor [of 4 x] mod_less_divisor [of 16 x] by linarith+

lemma octet_div_bounds:
  "x < 256 \<Longrightarrow> x div 4 < (64 :: nat)"
  "x < 256 \<Longrightarrow> x div 16 < (16 :: nat)"
  "x < 256 \<Longrightarrow> x div 64 < (4 :: nat)"
  by (simp_all add: less_mult_imp_div_less)

lemma to_sextets_less: "\<forall>b\<in>set bs. b < 256 \<Longrightarrow> \<forall>x\<in>set (to_sextets bs). x < 64"
proof (induction bs rule: to_sextets.induct)
  case (2 a)
  then show ?case
    using sextet_bounds(1) [of 0 a] by (simp add: octet_div_bounds)
next
  case (3 a b)
  then show ?case
    using sextet_bounds(2) [of 0 b] by (simp add: octet_div_bounds sextet_bounds)
qed (simp_all add: octet_div_bounds sextet_bounds)

lemma from_to_sextets: "\<forall>b\<in>set bs. b < 256 \<Longrightarrow> from_sextets (to_sextets bs) = bs"
proof (induction bs rule: to_sextets.induct)
  case (4 a b c r)
  then have "b div 16 < 16" "c div 64 < 4" by (simp_all add: less_mult_imp_div_less)
  with 4 show ?case by simp
next
  case (3 a b)
  then have "b div 16 < 16" by (simp_all add: less_mult_imp_div_less)
  with 3 show ?case by simp
qed simp_all

lemma to_sextets_length:
  "(length (to_sextets bs) + (3 - length bs mod 3) mod 3) mod 4 = 0"
proof (induction bs rule: to_sextets.induct)
  case (4 a b c r)
  have "length (a # b # c # r) mod 3 = length r mod 3" by simp
  moreover have "length (to_sextets (a # b # c # r)) = 4 + length (to_sextets r)" by simp
  ultimately show ?case using 4 by (simp only: add.assoc mod_add_self1)
qed simp_all

section \<open>The alphabet\<close>

lemma index_of_nth:
  assumes "distinct xs" and "n < length xs"
  shows "index_of [xs ! n] xs = Some n"
proof -
  have "xs ! n \<notin> set (take n xs)"
    using assms by (metis distinct_take id_take_nth_drop not_distinct_conv_prefix take_all_iff
        nat_less_le in_set_conv_nth length_take min_less_iff_conj nth_eq_iff_index_eq nth_take)
  then have "index_of [xs ! n] (take n xs @ xs ! n # drop (Suc n) xs) = Some n"
    using assms(2) index_of_single [of "xs ! n" "take n xs" "drop (Suc n) xs"] by simp
  then show ?thesis
    using assms(2) by (simp add: id_take_nth_drop [symmetric])
qed

lemma distinct_js: "distinct s \<Longrightarrow> distinct (js s)"
  by (simp add: js_def distinct_map inj_on_def)

lemma length_b64_alphabet: "length b64_alphabet = 64"
  by (simp add: b64_alphabet_def)

lemma b64_value_digit: "n < 64 \<Longrightarrow> b64_value (b64_digit n) = Some n"
  unfolding b64_value_def b64_digit_def
  by (rule index_of_nth) (simp_all add: length_b64_alphabet b64_alphabet_def distinct_js)

lemma b64_digit_in: "n < 64 \<Longrightarrow> b64_digit n \<in> set b64_alphabet"
  by (simp add: b64_digit_def length_b64_alphabet)

lemma ascii_ws_cu:
  "ascii_ws (cu c) \<longleftrightarrow> c \<in> set [CHR 0x09, CHR 0x0A, CHR 0x0C, CHR 0x0D, CHR 0x20]"
  by (simp add: ascii_ws_def word_unat_eq_iff char_code_simps)

lemma alphabet_chars:
  "\<forall>c\<in>set ''ABCDEFGHIJKLMNOPQRSTUVWXYZabcdefghijklmnopqrstuvwxyz0123456789+/''.
     c \<notin> set [CHR ''='', CHR ''-'', CHR ''_'', CHR 0x09, CHR 0x0A, CHR 0x0C, CHR 0x0D, CHR 0x20]"
  by simp

lemma b64_digit_ne:
  assumes "n < 64"
  shows "b64_digit n \<noteq> eq_sign" "b64_digit n \<noteq> cu (CHR ''-'')" "b64_digit n \<noteq> cu (CHR ''_'')"
    "\<not> ascii_ws (b64_digit n)"
proof -
  from b64_digit_in [OF assms] obtain c
    where d: "b64_digit n = cu c"
      and c: "c \<in> set ''ABCDEFGHIJKLMNOPQRSTUVWXYZabcdefghijklmnopqrstuvwxyz0123456789+/''"
    unfolding b64_alphabet_def set_js by blast
  from alphabet_chars c
  have "c \<notin> set [CHR ''='', CHR ''-'', CHR ''_'', CHR 0x09, CHR 0x0A, CHR 0x0C, CHR 0x0D, CHR 0x20]"
    by (rule bspec)
  then show "b64_digit n \<noteq> eq_sign" "b64_digit n \<noteq> cu (CHR ''-'')"
    "b64_digit n \<noteq> cu (CHR ''_'')" "\<not> ascii_ws (b64_digit n)"
    by (auto simp: ascii_ws_cu d)
qed

section \<open>Round trips\<close>

definition latin1 :: "jsstr \<Rightarrow> bool" where
  "latin1 s \<longleftrightarrow> (\<forall>u\<in>set s. unat u < 256)"

lemma btoa_defined: "btoa s \<noteq> None \<longleftrightarrow> latin1 s"
  by (simp add: btoa_def latin1_def) (meson not_le)

definition b64_body :: "jsstr \<Rightarrow> jsstr" where
  "b64_body s = map b64_digit (to_sextets (map unat s))"

definition b64_pad :: "jsstr \<Rightarrow> nat" where
  "b64_pad s = (3 - length s mod 3) mod 3"

lemma btoa_latin1: "latin1 s \<Longrightarrow> btoa s = Some (b64_body s @ replicate (b64_pad s) eq_sign)"
  by (auto simp: btoa_def latin1_def b64_body_def b64_pad_def)

lemma b64_body_length: "(length (b64_body s) + b64_pad s) mod 4 = 0"
  using to_sextets_length [of "map unat s"] by (simp add: b64_body_def b64_pad_def)

lemma b64_pad_less: "b64_pad s < 3"
  by (simp add: b64_pad_def)

lemma body_sextets: "latin1 s \<Longrightarrow> \<forall>x\<in>set (to_sextets (map unat s)). x < 64"
  by (intro to_sextets_less) (auto simp: latin1_def)

lemma body_units:
  assumes "latin1 s" and "u \<in> set (b64_body s)"
  shows "u \<noteq> eq_sign" "u \<noteq> cu (CHR ''-'')" "u \<noteq> cu (CHR ''_'')" "\<not> ascii_ws u"
  using assms body_sextets [OF assms(1)] b64_digit_ne by (auto simp: b64_body_def)

lemma strip_padding_body:
  assumes "eq_sign \<notin> set b" and "n < 3" and "(length b + n) mod 4 = 0"
  shows "strip_padding (b @ replicate n eq_sign) = b"
proof (cases b rule: rev_cases)
  case Nil
  then have "n = 0" using assms(2,3) by simp
  with Nil show ?thesis by (simp add: strip_padding_def)
next
  case (snoc ys y)
  from assms(2) have "n \<in> {0, 1, 2}" by auto
  then show ?thesis
    using snoc assms(1) by (auto simp: strip_padding_def numeral_2_eq_2 split: list.splits)
qed

lemma collect_values: "\<forall>x\<in>set vs. x < 64 \<Longrightarrow> collect_opt (map b64_value (map b64_digit vs)) = Some vs"
  by (induction vs) (simp_all add: b64_value_digit)

lemma atob_btoa:
  assumes "btoa s = Some e" shows "atob e = Some s"
proof -
  have l: "latin1 s" using assms btoa_defined by blast
  then have e: "e = b64_body s @ replicate (b64_pad s) eq_sign"
    using assms by (simp add: btoa_latin1)
  have "\<not> ascii_ws eq_sign"
    by (simp add: ascii_ws_def word_unat_eq_iff)
  then have "filter (\<lambda>u. \<not> ascii_ws u) e = e"
    using body_units(4) [OF l] by (auto simp: e filter_id_conv)
  moreover have "length e mod 4 = 0" using b64_body_length [of s] by (simp add: e)
  moreover have "strip_padding e = b64_body s"
    unfolding e using body_units(1) [OF l] b64_pad_less b64_body_length
    by (intro strip_padding_body) blast+
  moreover have "length (b64_body s) mod 4 \<noteq> 1"
    using b64_body_length [of s] b64_pad_less [of s] by presburger
  moreover have "collect_opt (map b64_value (b64_body s)) = Some (to_sextets (map unat s))"
    unfolding b64_body_def by (rule collect_values [OF body_sextets [OF l]])
  moreover have "from_sextets (to_sextets (map unat s)) = map unat s"
    using l by (intro from_to_sextets) (auto simp: latin1_def)
  ultimately show ?thesis by (simp add: atob_def comp_def)
qed

text \<open>The URL-safe form drops the padding and renames two digits; \<open>from_url_safe\<close> restores it.\<close>

definition safe_digit :: "cu \<Rightarrow> cu" where
  "safe_digit u = (if u = cu (CHR ''+'') then cu (CHR ''-'') else
                   if u = cu (CHR ''/'') then cu (CHR ''_'') else u)"

lemma rename_digits:
  "replace_unit (cu (CHR ''/'')) [cu (CHR ''_'')] (replace_unit (cu (CHR ''+'')) [cu (CHR ''-'')] t)
     = map safe_digit t"
  by (simp add: replace_unit_1 safe_digit_def)

lemma restore_digits:
  "\<forall>u\<in>set b. u \<noteq> cu (CHR ''-'') \<and> u \<noteq> cu (CHR ''_'') \<Longrightarrow>
   replace_unit (cu (CHR ''_'')) [cu (CHR ''/'')]
     (replace_unit (cu (CHR ''-'')) [cu (CHR ''+'')] (map safe_digit b)) = b"
  unfolding replace_unit_1 by (induction b) (simp_all add: safe_digit_def)

lemma strip_eq_signs:
  assumes "\<forall>u\<in>set b. u \<noteq> eq_sign"
  shows "rev (dropWhile (\<lambda>u. u = eq_sign) (rev (b @ replicate n eq_sign))) = b"
proof -
  have "dropWhile (\<lambda>u. u = eq_sign) (replicate n eq_sign @ xs) = dropWhile (\<lambda>u. u = eq_sign) xs" for xs
    by (induction n) simp_all
  moreover have "dropWhile (\<lambda>u. u = eq_sign) (rev b) = rev b"
    using assms by (cases b rule: rev_cases) simp_all
  ultimately show ?thesis by simp
qed

lemma padright_single: "padright b n [c] = b @ replicate n c"
proof -
  have "join [c] (replicate (Suc n) []) = replicate n c"
    by (induction n) (simp_all add: join_Cons)
  then show ?thesis by (simp add: padright_def)
qed

lemma missing_padding:
  assumes "(l + n) mod 4 = 0" and "n < 3"
  shows "(4 - l mod 4) mod 4 = (n :: nat)"
proof -
  define q where "q = l mod 4"
  have "(q + n) mod 4 = 0" using assms(1) by (simp add: q_def mod_add_left_eq)
  moreover have q: "q < 4" by (simp add: q_def)
  ultimately have "q + n = 0 \<or> q + n = 4" using assms(2) by presburger
  then have "(4 - q) mod 4 = n" using q assms(2) by (cases "q = 0") auto
  then show ?thesis by (simp add: q_def)
qed

lemma from_url_safe_url_safe:
  assumes "btoa s = Some e" shows "from_url_safe (url_safe e) = e"
proof -
  have l: "latin1 s" using assms btoa_defined by blast
  then have e: "e = b64_body s @ replicate (b64_pad s) eq_sign"
    using assms by (simp add: btoa_latin1)
  have b: "\<forall>u\<in>set (b64_body s). u \<noteq> cu (CHR ''-'') \<and> u \<noteq> cu (CHR ''_'')"
    and b': "\<forall>u\<in>set (map safe_digit (b64_body s)). u \<noteq> eq_sign"
    using body_units [OF l] by (auto simp: safe_digit_def)
  have "map safe_digit e = map safe_digit (b64_body s) @ replicate (b64_pad s) eq_sign"
    by (simp add: e safe_digit_def)
  then have safe: "url_safe e = map safe_digit (b64_body s)"
    unfolding url_safe_def rename_digits using strip_eq_signs [OF b'] by simp
  have "(4 - length (b64_body s) mod 4) mod 4 = b64_pad s"
    by (rule missing_padding [OF b64_body_length b64_pad_less])
  then show ?thesis
    unfolding from_url_safe_def safe restore_digits [OF b] Let_def
    by (simp add: e padright_single)
qed

lemma b64decsafe_b64encsafe: "b64encsafe s = Some e \<Longrightarrow> b64decsafe e = Some s"
  by (auto simp: b64encsafe_def b64decsafe_def from_url_safe_url_safe intro: atob_btoa)

section \<open>Round trip through UTF-8\<close>

text \<open>
  \<open>code_points\<close> are the scalar values of a string; encoding writes the UTF-8 octets of each,
  and the octets are what \<open>b64EncodeUnicode\<close> hands to \<open>btoa\<close>.
\<close>

fun code_points :: "jsstr \<Rightarrow> nat list" where
  "code_points [] = []"
| "code_points (u # s) =
     (if is_high u then (case s of [] \<Rightarrow> [] | v # t \<Rightarrow> pair_cp u v # code_points t)
      else unat u # code_points s)"

definition octets :: "jsstr \<Rightarrow> nat list" where
  "octets s = concat (map utf8 (code_points s))"

lemma code_points_scalar: "well_formed s \<Longrightarrow> \<forall>n\<in>set (code_points s). scalar n"
  by (induction s rule: code_points.induct)
    (auto simp: utf16_unit utf16_pair high_not_low split: if_splits list.splits)

lemma utf16_code_points: "well_formed s \<Longrightarrow> concat (map utf16 (code_points s)) = s"
  by (induction s rule: code_points.induct)
    (auto simp: utf16_unit utf16_pair high_not_low split: if_splits list.splits)

lemma octets_less: "well_formed s \<Longrightarrow> \<forall>b\<in>set (octets s). b < 256"
  unfolding octets_def using code_points_scalar [of s] utf8_bytes
  by (auto simp: scalar_def)

lemma upper_hex_hexd: "n < 16 \<Longrightarrow> upper_hex (hexd n)"
  by (simp add: hexd_def upper_hex_def)

lemma unescape_pct: "b < 256 \<Longrightarrow> unescape_octets (pct b @ r) = word_of_nat b # unescape_octets r"
  by (simp add: pct_def upper_hex_hexd hexval_hexd)

lemma unescape_pcts:
  "\<forall>b\<in>set bs. b < 256 \<Longrightarrow>
     unescape_octets (concat (map pct bs) @ r) = map word_of_nat bs @ unescape_octets r"
  by (induction bs) (simp_all add: unescape_pct)

lemma unescape_plain: "u \<noteq> cu (CHR ''%'') \<Longrightarrow> unescape_octets (u # r) = u # unescape_octets r"
  by (cases r rule: unescape_octets.cases) simp_all

lemma utf8_unreserved: "uri_unreserved u \<Longrightarrow> utf8 (unat u) = [unat u]"
proof -
  assume "uri_unreserved u"
  moreover have "\<forall>c\<in>set ''ABCDEFGHIJKLMNOPQRSTUVWXYZabcdefghijklmnopqrstuvwxyz0123456789-_.!~*()''.
      (of_char c :: nat) < 128"
    by simp
  ultimately have "unat u < 128"
    by (auto simp: uri_unreserved_def set_js)
  then show ?thesis by (simp add: utf8_def)
qed

lemma unescape_encode:
  "encodeURIComponent s = Some e \<Longrightarrow> unescape_octets e = map word_of_nat (octets s)"
proof (induction s arbitrary: e rule: encodeURIComponent.induct)
  case 1
  then show ?case by (simp add: octets_def)
next
  case (2 u s)
  consider (plain) "uri_unreserved u" | (pair) "\<not> uri_unreserved u" "is_high u"
    | (other) "\<not> uri_unreserved u" "\<not> is_high u"
    by blast
  then show ?case
  proof cases
    case plain
    with 2 show ?thesis
      by (auto simp: octets_def unescape_plain unreserved_not_percent unreserved_not_surrogate
          utf8_unreserved)
  next
    case pair
    with "2.prems" obtain v t e'
      where e': "s = v # t" "is_low v" "encodeURIComponent t = Some e'" "e = pcts (pair_cp u v) @ e'"
      by (auto split: if_splits list.splits)
    moreover have "unescape_octets e' = map word_of_nat (octets t)"
      using "2.IH"(2) pair e' by (simp add: high_not_low)
    moreover have "\<forall>b\<in>set (utf8 (pair_cp u v)). b < 256"
      using pair_cp_bounds pair e' by (intro utf8_bytes) simp
    ultimately show ?thesis using pair by (simp add: pcts_def unescape_pcts octets_def)
  next
    case other
    with "2.prems" obtain e'
      where e': "\<not> is_low u" "encodeURIComponent s = Some e'" "e = pcts (unat u) @ e'"
      by (auto split: if_splits)
    moreover have "unescape_octets e' = map word_of_nat (octets s)"
      using "2.IH"(3) other e' by simp
    moreover have "\<forall>b\<in>set (utf8 (unat u)). b < 256"
      by (intro utf8_bytes less_trans [OF unat_unit_less]) simp
    ultimately show ?thesis using other by (simp add: pcts_def unescape_pcts octets_def)
  qed
qed

lemma hexval_lower: "n < 16 \<Longrightarrow> hexval (js ''0123456789abcdef'' ! n) = Some n"
  by (drule less_16_cases) (auto simp: js_def hexval_def)

lemma octet_escape_digits:
  "b < 256 \<Longrightarrow> octet_escape b =
     [cu (CHR ''%''), js ''0123456789abcdef'' ! (b div 16), js ''0123456789abcdef'' ! (b mod 16)]"
proof (cases "b < 16")
  case True
  then show ?thesis
    by (simp add: octet_escape_def hex_lower.simps [of b] slice_last_def js_Cons)
next
  case False
  assume "b < 256"
  then have "b div 16 < 16" by (simp add: less_mult_imp_div_less)
  with False show ?thesis
    by (simp add: octet_escape_def hex_lower.simps [of b] hex_lower.simps [of "b div 16"]
        slice_last_def js_Cons)
qed

lemma escapes_octet_escape: "escapes octet_escape"
  by (simp add: escapes_def octet_escape_digits hexval_lower less_mult_imp_div_less)

lemma decode_octets:
  "\<forall>n\<in>set ns. scalar n \<Longrightarrow>
     decodeURIComponent (concat (map octet_escape (concat (map utf8 ns)))) = Some (concat (map utf16 ns))"
proof (induction ns)
  case (Cons n ns)
  let ?r = "concat (map octet_escape (concat (map utf8 ns)))"
  have "\<exists>t. concat (map octet_escape (utf8 n)) @ ?r = cu (CHR ''%'') # t"
    by (simp add: utf8_def octet_escape_def js_Cons)
  then obtain t where t: "concat (map octet_escape (utf8 n)) @ ?r = cu (CHR ''%'') # t" by blast
  moreover have "escaped_cp (concat (map octet_escape (utf8 n)) @ ?r) = Some (n, ?r)"
    using Cons.prems by (intro escaped_cp_utf8 escapes_octet_escape) simp
  ultimately have "decodeURIComponent (concat (map octet_escape (utf8 n)) @ ?r)
      = map_option (append (utf16 n)) (decodeURIComponent ?r)"
    by simp
  with Cons show ?case by simp
qed simp

lemma join_Nil_concat: "join [] xs = concat xs"
  by (induction "[] :: jsstr" xs rule: join.induct) simp_all

lemma b64DecodeUnicode_b64EncodeUnicode:
  assumes "b64EncodeUnicode s = Some e" shows "b64DecodeUnicode e = Some s"
proof -
  from assms obtain u where u: "encodeURIComponent s = Some u" "btoa (unescape_octets u) = Some e"
    by (auto simp: b64EncodeUnicode_def split: option.splits)
  then have wf: "well_formed s" using encodeURIComponent_defined by blast
  have "atob e = Some (map word_of_nat (octets s))"
    using u by (simp add: unescape_encode atob_btoa)
  moreover have "map (\<lambda>c. octet_escape (unat c)) (map word_of_nat (octets s) :: jsstr)
      = map octet_escape (octets s)"
    using octets_less [OF wf] by (auto simp: unat_of_nat)
  ultimately have "b64DecodeUnicode e = decodeURIComponent (concat (map octet_escape (octets s)))"
    by (simp only: b64DecodeUnicode_def option.case join_Nil_concat)
  also have "\<dots> = Some s"
    unfolding octets_def decode_octets [OF code_points_scalar [OF wf]] utf16_code_points [OF wf] ..
  finally show ?thesis .
qed

lemma b64decutf8safe_b64encutf8safe:
  assumes "b64encutf8safe s = Some e" shows "b64decutf8safe e = Some s"
proof -
  from assms obtain x where x: "b64EncodeUnicode s = Some x" "e = url_safe x"
    by (auto simp: b64encutf8safe_def)
  then obtain u where "btoa u = Some x"
    by (auto simp: b64EncodeUnicode_def split: option.splits)
  with x show ?thesis
    by (simp add: b64decutf8safe_def from_url_safe_url_safe b64DecodeUnicode_b64EncodeUnicode)
qed

lemma b64EncodeUnicode_defined: "b64EncodeUnicode s \<noteq> None \<longleftrightarrow> well_formed s"
proof
  assume "well_formed s"
  then obtain e where e: "encodeURIComponent s = Some e" using encodeURIComponent_defined by blast
  have "latin1 (unescape_octets e)"
    using octets_less [OF \<open>well_formed s\<close>]
    by (auto simp: unescape_encode [OF e] latin1_def unat_of_nat)
  then show "b64EncodeUnicode s \<noteq> None"
    using e btoa_defined by (auto simp: b64EncodeUnicode_def)
qed (auto simp: b64EncodeUnicode_def encodeURIComponent_defined [symmetric] split: option.splits)

end
