(* ===== verification/Export.thy ===== *)
theory Export
  imports OtherParams JsBase64
begin

text \<open>
  The exports of \<open>openclash/js/server_url.js\<close>: one function per protocol that reads the form of a
  node and writes its share link. \<open>Link\<close> is a link, \<open>NoLink\<close> the null of a missing required
  field, \<open>Failed\<close> an exception (btoa or encodeURIComponent refusing a text, or an other parameter
  named hasOwnProperty).
\<close>

section \<open>Building a link\<close>

datatype exported = Link jsstr | NoLink | Failed

definition link_of :: "jsstr option \<Rightarrow> exported" where
  "link_of r = (case r of None \<Rightarrow> Failed | Some u \<Rightarrow> Link u)"

text \<open>The guarded assignments \<open>if (c) queryMap.k = v\<close> in their order.\<close>

fun set_params :: "(bool \<times> string \<times> jsstr) list \<Rightarrow> jsstr obj \<Rightarrow> jsstr obj" where
  "set_params [] qm = qm"
| "set_params ((c, k, v) # ps) qm = set_params ps (if c then obj_put (js k) v qm else qm)"

text \<open>
  The end every export shares: the other parameters join the query, the query is written
  behind the prefix, and a name becomes the fragment.
\<close>

definition with_name :: "jsstr \<Rightarrow> jsstr \<Rightarrow> jsstr option" where
  "with_name name url =
     (if name = [] then Some url
      else map_option (\<lambda>n. url @ js ''#'' @ n) (encodeURIComponent name))"

definition query_text ::
    "jsstr \<Rightarrow> page \<Rightarrow> (string \<times> string) list option \<Rightarrow> jsstr obj \<Rightarrow> jsstr option" where
  "query_text sid p keyMap queryMap =
     Option.bind (mergeOtherParametersToQuery sid p queryMap keyMap getDefaultOtherParamSkipKeys)
       queryMapToString"

definition finish_link ::
    "jsstr \<Rightarrow> page \<Rightarrow> jsstr \<Rightarrow> jsstr option \<Rightarrow> (string \<times> string) list option \<Rightarrow> jsstr obj \<Rightarrow> exported" where
  "finish_link sid p scheme prefix keyMap queryMap =
     link_of (Option.bind prefix (\<lambda>url.
       Option.bind (query_text sid p keyMap queryMap) (\<lambda>q.
         map_option (append scheme) (with_name (getFormValue sid ''name'' p) (url @ q)))))"

definition host_header :: "jsstr \<Rightarrow> jsstr" where
  \<comment> \<open>\<open>headers.split('Host:')[1].trim()\<close>, where Host: occurs\<close>
  "host_header headers = trim (split_on (js ''Host:'') headers ! 1)"

definition has_host :: "jsstr \<Rightarrow> bool" where
  "has_host headers \<longleftrightarrow> headers \<noteq> [] \<and> str_includes (js ''Host:'') headers"

section \<open>Shadowsocks and ShadowsocksR\<close>

definition ss_plugin :: "jsstr \<Rightarrow> jsstr \<Rightarrow> jsstr \<Rightarrow> jsstr \<Rightarrow> jsstr" where
  "ss_plugin obfs host path tls =
     (if obfs = js ''http'' \<or> obfs = js ''tls'' then
        js ''obfs-local;obfs='' @ obfs @ (if host \<noteq> [] then js '';obfs-host='' @ host else [])
      else if obfs = js ''websocket'' then
        js ''v2ray-plugin;mode=websocket''
        @ (if host \<noteq> [] then js '';host='' @ host else [])
        @ (if path \<noteq> [] then js '';path='' @ path else [])
        @ (if is_true tls then js '';tls=true'' else [])
      else [])"

definition exportSS :: "jsstr \<Rightarrow> page \<Rightarrow> exported" where
  "exportSS sid p =
     (let v = (\<lambda>f. getFormValue sid f p);
          server = v ''server''; port = v ''port''; password = v ''password''; cipher = v ''cipher'';
          obfs = v ''obfs''; plugin = ss_plugin obfs (v ''host'') (v ''path'') (v ''tls'')
      in if server = [] \<or> port = [] \<or> password = [] \<or> cipher = [] then NoLink
         else finish_link sid p (js ''ss://'')
           (map_option (\<lambda>userInfo. userInfo @ js ''@'' @ server @ js '':'' @ port @ js ''/?'')
              (b64encsafe (cipher @ js '':'' @ password)))
           None
           (set_params
              [(obfs \<noteq> [] \<and> obfs \<noteq> js ''none'' \<and> plugin \<noteq> [], ''plugin'', plugin),
               (is_true (v ''udp_over_tcp''), ''uot'', js ''1'')] []))"

definition exportSSR :: "jsstr \<Rightarrow> page \<Rightarrow> exported" where
  "exportSSR sid p =
     (let v = (\<lambda>f. getFormValue sid f p);
          server = v ''server''; port = v ''port''; method = v ''cipher''; password = v ''password''
      in if server = [] \<or> port = [] \<or> password = [] \<or> method = [] then NoLink
         else link_of
           (Option.bind (b64encsafe (v ''obfs_param'')) (\<lambda>obfsparam.
            Option.bind (b64encsafe (v ''protocol_param'')) (\<lambda>protoparam.
            Option.bind (b64encutf8safe (v ''name'')) (\<lambda>remarks.
            Option.bind (mergeOtherParametersToQuery sid p
              [(js ''obfsparam'', obfsparam), (js ''protoparam'', protoparam), (js ''remarks'', remarks)]
              None getDefaultOtherParamSkipKeys) (\<lambda>queryMap.
            Option.bind (b64encsafe password) (\<lambda>pass.
            Option.bind (queryMapToString queryMap) (\<lambda>query.
              map_option (append (js ''ssr://''))
                (b64encsafe
                  (server @ js '':'' @ port @ js '':'' @ v ''protocol'' @ js '':'' @ method @ js '':''
                   @ v ''obfs_ssr'' @ js '':'' @ pass @ js ''/?'' @ query))))))))))"

section \<open>VMess\<close>

definition vmess_network :: "jsstr \<Rightarrow> page \<Rightarrow> (bool \<times> string \<times> jsstr) list" where
  "vmess_network sid p =
     (let v = (\<lambda>f. getFormValue sid f p); obfs = v ''obfs_vmess''; headers = v ''ws_headers'' in
      if obfs = js ''websocket'' then
        [(True, ''net'', js ''ws''), (True, ''path'', or_text (v ''ws_path'') (js ''/'')),
         (has_host headers, ''host'', host_header headers)]
      else if obfs = js ''h2'' then
        [(True, ''net'', js ''h2''), (True, ''path'', or_text (v ''h2_path'') (js ''/'')),
         (True, ''host'', v ''h2_host'')]
      else if obfs = js ''grpc'' then
        [(True, ''net'', js ''grpc''), (True, ''path'', v ''grpc_service_name'')]
      else [])"

definition vmess_info :: "jsstr \<Rightarrow> page \<Rightarrow> jsstr obj" where
  "vmess_info sid p =
     (let v = (\<lambda>f. getFormValue sid f p); tls = v ''tls'' in
      set_params
        ([(True, ''v'', js ''2''), (True, ''ps'', v ''name''), (True, ''add'', v ''server''),
          (True, ''port'', v ''port''), (True, ''id'', v ''uuid''),
          (True, ''aid'', or_text (v ''alterId'') (js ''0'')),
          (True, ''scy'', or_text (v ''cipher'') (js ''auto'')), (True, ''net'', js ''tcp''),
          (True, ''type'', js ''none''), (True, ''host'', []), (True, ''path'', []),
          (True, ''tls'', if is_true tls then js ''tls'' else []),
          (is_true tls \<and> v ''servername'' \<noteq> [], ''sni'', v ''servername''),
          (v ''client_fingerprint'' \<noteq> [], ''fp'', v ''client_fingerprint'')]
         @ vmess_network sid p) [])"

definition exportVmess :: "jsstr \<Rightarrow> page \<Rightarrow> exported" where
  "exportVmess sid p =
     (let v = (\<lambda>f. getFormValue sid f p) in
      if v ''server'' = [] \<or> v ''port'' = [] \<or> v ''uuid'' = [] then NoLink
      else link_of
        (Option.bind (mergeOtherParametersToQuery sid p (vmess_info sid p) None getDefaultOtherParamSkipKeys)
           (\<lambda>info. map_option (append (js ''vmess://'')) (b64EncodeUnicode (stringify info)))))"

section \<open>VLESS and Trojan\<close>

definition vless_params :: "jsstr \<Rightarrow> page \<Rightarrow> (bool \<times> string \<times> jsstr) list" where
  "vless_params sid p =
     (let v = (\<lambda>f. getFormValue sid f p);
          tls = is_true (v ''tls''); obfs = v ''obfs_vless''; flow = v ''vless_flow'';
          pbk = v ''reality_public_key''; short = v ''reality_short_id'';
          reality = pbk \<noteq> [] \<or> short \<noteq> [];
          xtls = flow \<noteq> [] \<and> str_includes (js ''xtls'') flow; headers = v ''ws_headers''
      in [(obfs = js ''tcp'', ''encryption'', or_text (v ''vless_encryption'') (js ''none'')),
          (tls \<and> reality, ''security'', js ''reality''),
          (tls \<and> xtls, ''security'', js ''xtls''),
          (tls \<and> xtls, ''flow'', flow),
          (tls \<and> \<not> xtls, ''security'', if reality then js ''reality'' else js ''tls''),
          (tls \<and> v ''servername'' \<noteq> [], ''sni'', v ''servername''),
          (v ''client_fingerprint'' \<noteq> [], ''fp'', v ''client_fingerprint''),
          (pbk \<noteq> [], ''pbk'', pbk), (short \<noteq> [], ''sid'', short)]
         @ (if obfs = js ''ws'' then
              [(True, ''type'', js ''ws''), (v ''ws_path'' \<noteq> [], ''path'', v ''ws_path''),
               (has_host headers, ''host'', host_header headers)]
            else if obfs = js ''grpc'' then
              [(True, ''type'', js ''grpc''),
               (v ''grpc_service_name'' \<noteq> [], ''serviceName'', v ''grpc_service_name'')]
            else if obfs = js ''xhttp'' then
              [(True, ''type'', js ''xhttp''),
               (v ''xhttp_opts_path'' \<noteq> [], ''path'', v ''xhttp_opts_path''),
               (v ''xhttp_opts_host'' \<noteq> [], ''host'', v ''xhttp_opts_host'')]
            else [(True, ''type'', js ''tcp'')]))"

definition exportVless :: "jsstr \<Rightarrow> page \<Rightarrow> exported" where
  "exportVless sid p =
     (let v = (\<lambda>f. getFormValue sid f p);
          server = v ''server''; port = v ''port''; uuid = v ''uuid''
      in if server = [] \<or> port = [] \<or> uuid = [] then NoLink
         else finish_link sid p (js ''vless://'')
           (Some (uuid @ js ''@'' @ server @ js '':'' @ port @ js ''?''))
           (Some [(''client-fingerprint'', ''fp''), (''public-key'', ''pbk''), (''short-id'', ''sid''),
                  (''grpc-service-name'', ''serviceName'')])
           (set_params (vless_params sid p) []))"

definition trojan_params :: "jsstr \<Rightarrow> page \<Rightarrow> (bool \<times> string \<times> jsstr) list" where
  "trojan_params sid p =
     (let v = (\<lambda>f. getFormValue sid f p); obfs = v ''obfs_trojan''; headers = v ''ws_headers''
      in [(v ''sni'' \<noteq> [], ''sni'', v ''sni''), (v ''alpn'' \<noteq> [], ''alpn'', v ''alpn'')]
         @ (if obfs = js ''ws'' then
              [(True, ''type'', js ''ws''), (v ''ws_path'' \<noteq> [], ''path'', v ''ws_path''),
               (has_host headers, ''host'', host_header headers)]
            else if obfs = js ''grpc'' then
              [(True, ''type'', js ''grpc''),
               (v ''grpc_service_name'' \<noteq> [], ''serviceName'', v ''grpc_service_name'')]
            else [])
         @ [(is_true (v ''skip_cert_verify''), ''allowInsecure'', js ''1''),
            (v ''fingerprint'' \<noteq> [], ''pcs'', v ''fingerprint'')])"

definition exportTrojan :: "jsstr \<Rightarrow> page \<Rightarrow> exported" where
  "exportTrojan sid p =
     (let v = (\<lambda>f. getFormValue sid f p);
          server = v ''server''; port = v ''port''; password = v ''password''
      in if server = [] \<or> port = [] \<or> password = [] then NoLink
         else finish_link sid p (js ''trojan://'')
           (map_option (\<lambda>pw. pw @ js ''@'' @ server @ js '':'' @ port @ js ''/?'')
              (encodeURIComponent password))
           (Some [(''client-fingerprint'', ''fp''), (''grpc-service-name'', ''serviceName'')])
           (set_params (trojan_params sid p) []))"

section \<open>Hysteria, Hysteria2 and TUIC\<close>

definition hysteria_params :: "jsstr \<Rightarrow> page \<Rightarrow> (bool \<times> string \<times> jsstr) list" where
  "hysteria_params sid p =
     (let v = (\<lambda>f. getFormValue sid f p)
      in [(v ''hysteria_auth_str'' \<noteq> [], ''auth'', v ''hysteria_auth_str''),
          (v ''hysteria_protocol'' \<noteq> [], ''protocol'', v ''hysteria_protocol''),
          (v ''hysteria_up'' \<noteq> [], ''up'', v ''hysteria_up''),
          (v ''hysteria_down'' \<noteq> [], ''down'', v ''hysteria_down''),
          (v ''hysteria_obfs'' \<noteq> [], ''obfs'', v ''hysteria_obfs''),
          (v ''sni'' \<noteq> [], ''peer'', v ''sni''),
          (v ''alpn'' \<noteq> [], ''alpn'', v ''alpn''),
          (is_true (v ''skip_cert_verify''), ''insecure'', js ''1''),
          (v ''ports'' \<noteq> [], ''ports'', v ''ports''),
          (v ''hop_interval'' \<noteq> [], ''hop-interval'', v ''hop_interval''),
          (v ''recv_window_conn'' \<noteq> [], ''recv-window-conn'', v ''recv_window_conn''),
          (v ''recv_window'' \<noteq> [], ''recv-window'', v ''recv_window''),
          (is_true (v ''disable_mtu_discovery''), ''disable-mtu-discovery'', js ''1''),
          (is_true (v ''fast_open''), ''fast-open'', js ''1''),
          (v ''fingerprint'' \<noteq> [], ''fingerprint'', v ''fingerprint'')])"

definition exportHysteria :: "jsstr \<Rightarrow> page \<Rightarrow> exported" where
  "exportHysteria sid p =
     (let v = (\<lambda>f. getFormValue sid f p); server = v ''server''; port = v ''port''
      in if server = [] \<or> port = [] then NoLink
         else finish_link sid p (js ''hysteria://'')
           (Some (server @ js '':'' @ port @ js ''?''))
           (Some [(''sni'', ''peer''), (''auth-str'', ''auth''), (''obfs-param'', ''obfsParam'')])
           (set_params (hysteria_params sid p) []))"

definition hysteria2_params :: "jsstr \<Rightarrow> page \<Rightarrow> (bool \<times> string \<times> jsstr) list" where
  "hysteria2_params sid p =
     (let v = (\<lambda>f. getFormValue sid f p)
      in [(v ''hysteria_obfs'' \<noteq> [], ''obfs'', v ''hysteria_obfs''),
          (v ''obfs_password'' \<noteq> [], ''obfs-password'', v ''obfs_password''),
          (v ''hysteria_up'' \<noteq> [], ''up'', v ''hysteria_up''),
          (v ''hysteria_down'' \<noteq> [], ''down'', v ''hysteria_down''),
          (v ''sni'' \<noteq> [], ''sni'', v ''sni''),
          (v ''alpn'' \<noteq> [], ''alpn'', v ''alpn''),
          (is_true (v ''skip_cert_verify''), ''insecure'', js ''1''),
          (v ''fingerprint'' \<noteq> [], ''pinSHA256'', v ''fingerprint''),
          (v ''ports'' \<noteq> [], ''ports'', v ''ports''),
          (v ''hop_interval'' \<noteq> [], ''hop-interval'', v ''hop_interval''),
          (v ''initial_stream_receive_window'' \<noteq> [], ''initial-stream-receive-window'',
             v ''initial_stream_receive_window''),
          (v ''max_stream_receive_window'' \<noteq> [], ''max-stream-receive-window'',
             v ''max_stream_receive_window''),
          (v ''initial_connection_receive_window'' \<noteq> [], ''initial-connection-receive-window'',
             v ''initial_connection_receive_window''),
          (v ''max_connection_receive_window'' \<noteq> [], ''max-connection-receive-window'',
             v ''max_connection_receive_window'')])"

definition exportHysteria2 :: "jsstr \<Rightarrow> page \<Rightarrow> exported" where
  "exportHysteria2 sid p =
     (let v = (\<lambda>f. getFormValue sid f p);
          server = v ''server''; port = v ''port''; password = v ''password''
      in if server = [] \<or> port = [] then NoLink
         else finish_link sid p (js ''hysteria2://'')
           (map_option (\<lambda>user. user @ server @ js '':'' @ port @ js ''?'')
              (if password = [] then Some []
               else map_option (\<lambda>pw. pw @ js ''@'') (encodeURIComponent password)))
           (Some [(''fingerprint'', ''pinSHA256'')])
           (set_params (hysteria2_params sid p) []))"

definition tuic_params :: "jsstr \<Rightarrow> page \<Rightarrow> (bool \<times> string \<times> jsstr) list" where
  "tuic_params sid p =
     (let v = (\<lambda>f. getFormValue sid f p)
      in [(v ''congestion_controller'' \<noteq> [], ''congestion_control'', v ''congestion_controller''),
          (v ''alpn'' \<noteq> [], ''alpn'', v ''alpn''),
          (v ''sni'' \<noteq> [], ''sni'', v ''sni''),
          (is_true (v ''disable_sni''), ''disable_sni'', js ''1''),
          (v ''udp_relay_mode'' \<noteq> [], ''udp_relay_mode'', v ''udp_relay_mode''),
          (is_true (v ''reduce_rtt''), ''reduce_rtt'', js ''1''),
          (v ''heartbeat_interval'' \<noteq> [], ''heartbeat-interval'', v ''heartbeat_interval''),
          (v ''request_timeout'' \<noteq> [], ''request-timeout'', v ''request_timeout''),
          (v ''max_udp_relay_packet_size'' \<noteq> [], ''max-udp-relay-packet-size'',
             v ''max_udp_relay_packet_size''),
          (v ''max_open_streams'' \<noteq> [], ''max-open-streams'', v ''max_open_streams''),
          (v ''fast_open'' \<noteq> [], ''fast-open'', v ''fast_open''),
          (v ''skip_cert_verify'' \<noteq> [], ''skip-cert-verify'', v ''skip_cert_verify'')])"

definition encoded_pair :: "jsstr \<Rightarrow> jsstr \<Rightarrow> jsstr option" where
  \<comment> \<open>\<open>encodeURIComponent(a) + ':' + encodeURIComponent(b) + '@'\<close>\<close>
  "encoded_pair a b =
     Option.bind (encodeURIComponent a) (\<lambda>x.
       map_option (\<lambda>y. x @ js '':'' @ y @ js ''@'') (encodeURIComponent b))"

definition exportTuic :: "jsstr \<Rightarrow> page \<Rightarrow> exported" where
  "exportTuic sid p =
     (let v = (\<lambda>f. getFormValue sid f p);
          server = v ''server''; port = v ''port''; password = v ''password''; token = v ''token''
      in if server = [] \<or> port = [] then NoLink
         else finish_link sid p (js ''tuic://'')
           (map_option (\<lambda>user. user @ server @ js '':'' @ port @ js ''?'')
              (if password \<noteq> [] then encoded_pair (v ''uuid'') password
               else if token \<noteq> [] then map_option (\<lambda>t. t @ js ''@'') (encodeURIComponent token)
               else Some []))
           (Some [(''congestion-controller'', ''congestion_control''), (''disable-sni'', ''disable_sni''),
                  (''udp-relay-mode'', ''udp_relay_mode''), (''reduce-rtt'', ''reduce_rtt'')])
           (set_params (tuic_params sid p) []))"

section \<open>SOCKS, HTTP, AnyTLS and Mieru\<close>

text \<open>SOCKS and HTTP write the question mark only in front of a non-empty query.\<close>

definition finish_plain :: "jsstr \<Rightarrow> page \<Rightarrow> jsstr \<Rightarrow> jsstr option \<Rightarrow> exported" where
  "finish_plain sid p scheme prefix =
     link_of (Option.bind prefix (\<lambda>url.
       Option.bind (query_text sid p None []) (\<lambda>q.
         map_option (append scheme)
           (with_name (getFormValue sid ''name'' p) (url @ (if q = [] then [] else js ''?'' @ q))))))"

definition login_prefix :: "jsstr \<Rightarrow> page \<Rightarrow> jsstr option" where
  "login_prefix sid p =
     (let v = (\<lambda>f. getFormValue sid f p); username = v ''username''; password = v ''password''
      in map_option (\<lambda>user. user @ v ''server'' @ js '':'' @ v ''port'')
           (if username \<noteq> [] \<and> password \<noteq> [] then encoded_pair username password else Some []))"

definition exportSocks :: "jsstr \<Rightarrow> page \<Rightarrow> exported" where
  "exportSocks sid p =
     (let v = (\<lambda>f. getFormValue sid f p)
      in if v ''server'' = [] \<or> v ''port'' = [] then NoLink
         else finish_plain sid p (js ''socks5://'') (login_prefix sid p))"

definition exportHttp :: "jsstr \<Rightarrow> page \<Rightarrow> exported" where
  "exportHttp sid p =
     (let v = (\<lambda>f. getFormValue sid f p)
      in if v ''server'' = [] \<or> v ''port'' = [] then NoLink
         else finish_plain sid p
           ((if is_true (v ''tls'') then js ''https'' else js ''http'') @ js ''://'') (login_prefix sid p))"

definition anytls_username :: "pvalue obj \<Rightarrow> jsstr" where
  "anytls_username other =
     (case obj_get other (js ''username'') of
        None \<Rightarrow> []
      | Some (Text s) \<Rightarrow> s
      | Some (Items xs) \<Rightarrow> (case xs of [] \<Rightarrow> [] | x # _ \<Rightarrow> x))"

definition anytls_params :: "jsstr \<Rightarrow> page \<Rightarrow> (bool \<times> string \<times> jsstr) list" where
  "anytls_params sid p =
     (let v = (\<lambda>f. getFormValue sid f p)
      in [(v ''sni'' \<noteq> [], ''sni'', v ''sni''),
          (is_true (v ''skip_cert_verify''), ''insecure'', js ''1''),
          (v ''alpn'' \<noteq> [], ''alpn'', v ''alpn''),
          (v ''client_fingerprint'' \<noteq> [], ''client-fingerprint'', v ''client_fingerprint''),
          (v ''udp'' \<noteq> [], ''udp'', v ''udp''),
          (v ''idle_session_check_interval'' \<noteq> [], ''idle-session-check-interval'',
             v ''idle_session_check_interval''),
          (v ''idle_session_timeout'' \<noteq> [], ''idle-session-timeout'', v ''idle_session_timeout''),
          (v ''min_idle_session'' \<noteq> [], ''min-idle-session'', v ''min_idle_session'')])"

definition exportAnyTLS :: "jsstr \<Rightarrow> page \<Rightarrow> exported" where
  "exportAnyTLS sid p =
     (let v = (\<lambda>f. getFormValue sid f p);
          server = v ''server''; port = v ''port''; password = v ''password'';
          other = parseOtherParameters (v ''other_parameters'');
          username = anytls_username other
      in if own_property other (js ''username'') = None then Failed
         else if server = [] \<or> port = [] then NoLink
         else finish_link sid p (js ''anytls://'')
           (map_option (\<lambda>user. user @ server @ js '':'' @ port @ js ''?'')
              (if username = [] then Some []
               else if password \<noteq> [] then encoded_pair username password
               else map_option (\<lambda>u. u @ js ''@'') (encodeURIComponent username)))
           (Some [(''fingerprint'', ''hpkp'')])
           (set_params (anytls_params sid p) []))"

definition mieru_params :: "jsstr \<Rightarrow> page \<Rightarrow> (bool \<times> string \<times> jsstr) list" where
  "mieru_params sid p =
     (let v = (\<lambda>f. getFormValue sid f p);
          transport = or_text (v ''transport'') (js ''TCP''); portRange = v ''port_range'';
          rangeItems = trimmed_items portRange
      in (if portRange \<noteq> [] then
            [(rangeItems \<noteq> [], ''port'', join (js '','') rangeItems),
             (rangeItems \<noteq> [], ''protocol'', join (js '','') (map (\<lambda>_. transport) rangeItems))]
          else [(True, ''port'', v ''port''), (True, ''protocol'', transport)])
         @ [(v ''multiplexing'' \<noteq> [], ''multiplexing'', v ''multiplexing'')])"

definition exportMieru :: "jsstr \<Rightarrow> page \<Rightarrow> exported" where
  "exportMieru sid p =
     (let v = (\<lambda>f. getFormValue sid f p);
          server = v ''server''; username = v ''username''; password = v ''password''
      in if server = [] \<or> username = [] \<or> password = [] \<or> v ''port'' = [] \<and> v ''port_range'' = []
         then NoLink
         else finish_link sid p (js ''mierus://'')
           (map_option (\<lambda>user. user @ server @ js ''?'') (encoded_pair username password))
           None
           (set_params (mieru_params sid p) []))"

section \<open>The export button\<close>

text \<open>
  \<open>export_url\<close>: the status line it leaves. \<open>copied\<close> says whether the clipboard command of the
  browser returned without an exception; the messages are the source's translation keys.
\<close>

record status =
  s_class :: string
  s_text :: "jsstr list"

definition upper_unit :: "cu \<Rightarrow> cu" where
  \<comment> \<open>toUpperCase on the lower-case ASCII names of the protocols\<close>
  "upper_unit u = (if 97 \<le> unat u \<and> unat u \<le> 122 then u - 32 else u)"

definition exporter :: "jsstr \<Rightarrow> (jsstr \<Rightarrow> page \<Rightarrow> exported) option" where
  "exporter ty =
     map_of [(js ''ss'', exportSS), (js ''ssr'', exportSSR), (js ''vmess'', exportVmess),
             (js ''vless'', exportVless), (js ''trojan'', exportTrojan),
             (js ''hysteria'', exportHysteria), (js ''hysteria2'', exportHysteria2),
             (js ''tuic'', exportTuic), (js ''socks5'', exportSocks), (js ''http'', exportHttp),
             (js ''anytls'', exportAnyTLS), (js ''mieru'', exportMieru)] ty"

definition export_status :: "bool \<Rightarrow> jsstr \<Rightarrow> exported option \<Rightarrow> status" where
  "export_status copied ty r =
     (case r of
        None \<Rightarrow> \<lparr>s_class = ''oc-status-err'', s_text = [js ''Unsupported protocol type'']\<rparr>
      | Some (Link u) \<Rightarrow>
          if copied then \<lparr>s_class = ''oc-status-ok'',
            s_text = [js ''Copy'', map upper_unit ty, js ''to clipboard successfully'']\<rparr>
          else \<lparr>s_class = ''oc-status-err'',
            s_text = [js ''Unable to copy'', map upper_unit ty, js ''to clipboard'']\<rparr>
      | Some NoLink \<Rightarrow> \<lparr>s_class = ''oc-status-err'', s_text = [js ''Export failed'']\<rparr>
      | Some Failed \<Rightarrow> \<lparr>s_class = ''oc-status-err'', s_text = [js ''Export error'']\<rparr>)"

text \<open>The link put on the clipboard and the status, when the status element and the type exist.\<close>

definition export_url :: "bool \<Rightarrow> jsstr \<Rightarrow> page \<Rightarrow> (exported option \<times> status) option" where
  "export_url copied sid p =
     (case getElementsByName (base_name sid ''type'') p of
        [] \<Rightarrow> None
      | i # _ \<Rightarrow>
          (let ty = toLowerCase (e_value (elems p ! i));
               r = map_option (\<lambda>f. f sid p) (exporter ty)
           in Some (r, export_status copied ty r)))"

end
