(* ===== verification/Import.thy ===== *)
theory Import
  imports OtherParams JsBase64
begin

text \<open>
  The imports of \<open>openclash/js/server_url.js\<close>: one parser per protocol that reads a share link and
  writes the form. A parser is the list of the source's guarded writes in their order; an
  interpreter runs them and stops at an expression that throws, with the writes before it
  kept. The result is the page and the value returned, \<open>None\<close> for an exception.
\<close>

section \<open>Running the writes\<close>

fun write_field :: "jsstr \<Rightarrow> string \<Rightarrow> expr \<Rightarrow> page \<Rightarrow> page" where
  "write_field sid f (Val s) p = setFormValue sid f (Some s) 0 p"
| "write_field sid f Undef p = setFormValue sid f None 0 p"
| "write_field sid f Throws p = p"

fun run_writes :: "jsstr \<Rightarrow> assignment list \<Rightarrow> page \<Rightarrow> page \<times> bool" where
  "run_writes sid [] p = (p, True)"
| "run_writes sid ((c, f, e) # ws) p =
     (if \<not> c then run_writes sid ws p
      else if e = Throws then (p, False)
      else run_writes sid ws (write_field sid f e p))"

definition and_then :: "page \<times> bool \<Rightarrow> (page \<Rightarrow> page \<times> bool) \<Rightarrow> page \<times> bool" where
  "and_then r f = (case r of (p, ok) \<Rightarrow> if ok then f p else (p, False))"

definition merge_unknown :: "jsstr \<Rightarrow> pvalue obj option \<Rightarrow> page \<Rightarrow> page \<times> bool" where
  "merge_unknown sid params p =
     (case params of None \<Rightarrow> (p, False)
      | Some ob \<Rightarrow> mergeUnknownParamsToOtherParameters sid (jvals_of ob) p)"

definition returns_true :: "page \<times> bool \<Rightarrow> page \<times> bool option" where
  "returns_true r = (fst r, if snd r then Some True else None)"

section \<open>Expressions\<close>

definition dec :: "jsstr \<Rightarrow> expr" where
  \<comment> \<open>\<open>decodeURIComponent(s)\<close>\<close>
  "dec s = (case decodeURIComponent s of None \<Rightarrow> Throws | Some t \<Rightarrow> Val t)"

definition safe :: "jsstr \<Rightarrow> expr" where
  "safe s = Val (decodeURIComponentSafe s)"

fun prefixed :: "string \<Rightarrow> expr \<Rightarrow> expr" where
  "prefixed s (Val t) = Val (js s @ t)"
| "prefixed s e = e"

definition of_option :: "jsstr option \<Rightarrow> expr" where
  "of_option v = (case v of None \<Rightarrow> Throws | Some t \<Rightarrow> Val t)"

definition item :: "jsstr list \<Rightarrow> nat \<Rightarrow> expr" where
  \<comment> \<open>\<open>xs[i]\<close>, undefined outside\<close>
  "item xs i = (if i < length xs then Val (xs ! i) else Undef)"

definition qv :: "jsstr obj \<Rightarrow> string \<Rightarrow> jsstr" where
  \<comment> \<open>\<open>query.k\<close>, with the empty text for undefined: the source only tests truth or equality\<close>
  "qv q k = (case obj_get q (js k) of None \<Rightarrow> [] | Some s \<Rightarrow> s)"

definition one_or_true :: "jsstr \<Rightarrow> bool" where
  "one_or_true s \<longleftrightarrow> s = js ''1'' \<or> s = js ''true''"

definition flag_text :: "jsstr \<Rightarrow> jsstr" where
  "flag_text s = (if one_or_true s then js ''true'' else js ''false'')"

text \<open>\<open>decodeFragment(parsed.hash.substr(1))\<close>, and the shape every URL parser has.\<close>

definition name_of :: "url_parts \<Rightarrow> jsstr" where
  "name_of u = decodeFragment (drop 1 (u_hash u))"

definition name_write :: "url_parts \<Rightarrow> assignment" where
  "name_write u = (u_hash u \<noteq> [], ''name'', Val (name_of u))"

definition port_or :: "string \<Rightarrow> url_parts \<Rightarrow> jsstr" where
  "port_or d u = or_text (u_port u) (js d)"

definition import_link ::
    "(jsstr \<Rightarrow> url_parts option) \<Rightarrow> (url_parts \<Rightarrow> jsstr obj \<Rightarrow> assignment list)
     \<Rightarrow> (url_parts \<Rightarrow> jsstr obj \<Rightarrow> pvalue obj option) \<Rightarrow> jsstr \<Rightarrow> jsstr \<Rightarrow> page \<Rightarrow> page \<times> bool option" where
  "import_link new_url writes unknown url sid p =
     (case parseUrl new_url url of
        None \<Rightarrow> (p, Some False)
      | Some u \<Rightarrow>
          (case parseQuery (u_search u) of
             None \<Rightarrow> (p, None)
           | Some q \<Rightarrow>
               returns_true (and_then (run_writes sid (writes u q) p)
                 (merge_unknown sid (unknown u q)))))"

section \<open>Shadowsocks\<close>

definition plugin_options :: "jsstr list \<Rightarrow> (jsstr \<times> jsstr) list" where
  "plugin_options parts =
     concat (map (\<lambda>part. case index_of (js ''='') part of
         None \<Rightarrow> []
       | Some i \<Rightarrow> [(trim (substring 0 i part), trim (substring_from (i + 1) part))]) (drop 1 parts))"

definition option_value :: "string \<Rightarrow> jsstr \<Rightarrow> (jsstr \<times> jsstr) list \<Rightarrow> jsstr" where
  \<comment> \<open>the last option of that name, or the default\<close>
  "option_value k d ps = foldl (\<lambda>d (l, v). if l = js k then v else d) d ps"

definition plugin_writes :: "jsstr \<Rightarrow> assignment list" where
  "plugin_writes decodedPlugin =
     (let parts = split_on (js '';'') decodedPlugin; name = hd parts; opts = plugin_options parts;
          obfs = name = js ''obfs-local'' \<or> str_includes (js ''obfs'') name;
          v2ray = name = js ''v2ray-plugin'';
          obfsHost = option_value ''obfs-host'' [] opts; v2rayHost = option_value ''host'' [] opts;
          v2rayPath = option_value ''path'' (js ''/'') opts
      in [(obfs, ''obfs'', Val (option_value ''obfs'' (js ''http'') opts)),
          (obfs \<and> obfsHost \<noteq> [], ''host'', Val obfsHost),
          (v2ray, ''obfs'', Val (js ''websocket'')),
          (v2ray \<and> v2rayHost \<noteq> [], ''host'', Val v2rayHost),
          (v2ray \<and> v2rayPath \<noteq> [], ''path'', Val v2rayPath),
          (v2ray \<and> one_or_true (option_value ''tls'' [] opts), ''tls'', Val (js ''true''))])"

definition ss_query :: "jsstr \<Rightarrow> jsstr \<Rightarrow> page \<Rightarrow> page \<times> bool" where
  "ss_query sid text p =
     (case parseQuery (js ''?'' @ text) of
        None \<Rightarrow> (p, False)
      | Some q \<Rightarrow>
          (case (if qv q ''plugin'' = [] then Some []
                 else map_option plugin_writes (decodeURIComponent (qv q ''plugin''))) of
             None \<Rightarrow> (p, False)
           | Some ws \<Rightarrow>
               and_then
                 (run_writes sid
                   (ws @ [(qv q ''udp-over-tcp'' = js ''true'' \<or> qv q ''uot'' = js ''1'',
                           ''udp_over_tcp'', Val (js ''true''))]) p)
                 (merge_unknown sid
                   (collectUnknownQueryParams q [''plugin'', ''udp-over-tcp'', ''uot'']))))"

definition ss_sip002 :: "jsstr \<Rightarrow> jsstr \<Rightarrow> nat \<Rightarrow> page \<Rightarrow> page \<times> bool" where
  "ss_sip002 sid url0 sipIndex p =
     (case b64decsafe (substr 0 sipIndex url0) of
        None \<Rightarrow> (p, False)
      | Some userInfo \<Rightarrow>
          (let temp = split_on (js ''/?'') (drop (sipIndex + 1) url0);
               serverInfo = split_on (js '':'') (hd temp);
               split = index_of (js '':'') userInfo
           in and_then
                (if 1 < length temp \<and> temp ! 1 \<noteq> [] then ss_query sid (temp ! 1) p else (p, True))
                (run_writes sid
                  [(True, ''server'', item serverInfo 0), (True, ''port'', item serverInfo 1),
                   (True, ''password'', Val (case split of None \<Rightarrow> [] | Some i \<Rightarrow> drop (i + 1) userInfo)),
                   (True, ''cipher'', Val (case split of None \<Rightarrow> [] | Some i \<Rightarrow> take i userInfo))])))"

definition ss_legacy :: "jsstr \<Rightarrow> jsstr \<Rightarrow> page \<Rightarrow> page \<times> bool" where
  "ss_legacy sid url0 p =
     (case b64decsafe url0 of
        None \<Rightarrow> (p, False)
      | Some sstr \<Rightarrow>
          (let team = split_on (js ''@'') sstr in
           if length team < 2 then (p, False)
           else let part1 = split_on (js '':'') (team ! 0); part2 = split_on (js '':'') (team ! 1)
                in run_writes sid
                     [(True, ''server'', item part2 0), (True, ''port'', item part2 1),
                      (True, ''password'', item part1 1), (True, ''cipher'', item part1 0)] p))"

definition parseSS :: "jsstr \<Rightarrow> jsstr \<Rightarrow> page \<Rightarrow> page \<times> bool option" where
  "parseSS body sid p =
     (let (url0, param) =
            (case index_of (js ''#'') body of
               Some ploc \<Rightarrow> if 0 < ploc then (substr 0 ploc body, drop (ploc + 1) body) else (body, [])
             | None \<Rightarrow> (body, []));
          p1 = setFormValue sid ''type'' (Some (js ''ss'')) 0 p
      in returns_true
           (and_then
             (case index_of (js ''@'') body of
                Some sipIndex \<Rightarrow> ss_sip002 sid url0 sipIndex p1
              | None \<Rightarrow> ss_legacy sid url0 p1)
             (run_writes sid [(param \<noteq> [], ''name'', dec param)])))"

section \<open>ShadowsocksR\<close>

fun ssr_pairs :: "jsstr list \<Rightarrow> jsstr obj \<Rightarrow> jsstr obj option" where
  "ssr_pairs [] params = Some params"
| "ssr_pairs (x # xs) params =
     (case split_on (js ''='') x of
        [k, v] \<Rightarrow>
          (case decodeURIComponent k of None \<Rightarrow> None
           | Some key \<Rightarrow> ssr_pairs xs (obj_assign key v params))
      | _ \<Rightarrow> ssr_pairs xs params)"

definition ssr_params :: "jsstr \<Rightarrow> jsstr \<Rightarrow> page \<Rightarrow> page \<times> bool" where
  "ssr_params sid text p =
     (if text = [] then (p, True)
      else case ssr_pairs (split_on (js ''&'') text) [] of
             None \<Rightarrow> (p, False)
           | Some params \<Rightarrow>
               and_then
                 (run_writes sid
                   [(qv params ''obfsparam'' \<noteq> [], ''obfs_param'',
                       of_option (b64decsafe (qv params ''obfsparam''))),
                    (qv params ''protoparam'' \<noteq> [], ''protocol_param'',
                       of_option (b64decsafe (qv params ''protoparam''))),
                    (qv params ''remarks'' \<noteq> [], ''name'',
                       of_option (b64decutf8safe (qv params ''remarks'')))] p)
                 (merge_unknown sid
                   (collectUnknownQueryParams params [''obfsparam'', ''protoparam'', ''remarks''])))"

definition parseSSR :: "jsstr \<Rightarrow> jsstr \<Rightarrow> page \<Rightarrow> page \<times> bool option" where
  "parseSSR body sid p =
     (case b64decsafe body of
        None \<Rightarrow> (p, Some False)
      | Some dcBuf \<Rightarrow>
          (let p1 = setFormValue sid ''type'' (Some (js ''ssr'')) 0 p;
               (before, text) =
                 (case index_of (js ''/?'') dcBuf of
                    Some i \<Rightarrow> if 0 < i then (substr 0 i dcBuf, drop (i + 2) dcBuf) else (dcBuf, [])
                  | None \<Rightarrow> (dcBuf, []));
               parts = split_on (js '':'') before
           in if length parts \<noteq> 6 then (p1, Some False)
              else case b64decsafe (parts ! 5) of
                     None \<Rightarrow> (p1, None)
                   | Some password \<Rightarrow>
                       returns_true
                         (and_then
                           (run_writes sid
                             [(True, ''server'', Val (parts ! 0)), (True, ''port'', Val (parts ! 1)),
                              (True, ''protocol'', Val (parts ! 2)), (True, ''cipher'', Val (parts ! 3)),
                              (True, ''obfs_ssr'', Val (parts ! 4)), (True, ''password'', Val password)] p1)
                           (ssr_params sid text))))"

section \<open>VMess: the JSON form\<close>

definition jexpr :: "jval option \<Rightarrow> expr" where
  "jexpr v =
     (case v of None \<Rightarrow> Undef | Some JNull \<Rightarrow> Undef | Some x \<Rightarrow> of_option (to_string x))"

definition jexpr_or :: "jval option \<Rightarrow> string \<Rightarrow> expr" where
  "jexpr_or v d = (if truthy v then jexpr v else Val (js d))"

text \<open>\<open>(ssm.net || 'tcp').toLowerCase()\<close> throws for a truthy value that is not a string.\<close>

definition json_network :: "jval option \<Rightarrow> jsstr option" where
  "json_network v =
     (if \<not> truthy v then Some (js ''tcp'')
      else case v of Some (JStr s) \<Rightarrow> Some (toLowerCase s) | _ \<Rightarrow> None)"

fun decimal_text :: "nat \<Rightarrow> jsstr" where
  "decimal_text n =
     (if n < 10 then [js ''0123456789'' ! n]
      else decimal_text (n div 10) @ [js ''0123456789'' ! (n mod 10)])"

declare decimal_text.simps [simp del]

definition own_entries :: "jval \<Rightarrow> jval obj" where
  \<comment> \<open>what \<open>for (k in v)\<close> visits\<close>
  "own_entries v =
     (case v of
        JObj ob \<Rightarrow> entries ob
      | JArr vs \<Rightarrow> map (\<lambda>i. (decimal_text i, vs ! i)) [0..<length vs]
      | JStr s \<Rightarrow> map (\<lambda>i. (decimal_text i, JStr [s ! i])) [0..<length s]
      | _ \<Rightarrow> [])"

definition vmess_json_keys :: "string list" where
  "vmess_json_keys =
     [''v'', ''ps'', ''add'', ''port'', ''id'', ''aid'', ''scy'', ''net'', ''type'', ''host'',
      ''path'', ''tls'', ''sni'', ''fp'']"

fun vmess_unknown :: "jval obj \<Rightarrow> pvalue obj \<Rightarrow> pvalue obj option" where
  "vmess_unknown [] ob = Some ob"
| "vmess_unknown ((k, v) # kvs) ob =
     (if flag_set vmess_json_keys k then vmess_unknown kvs ob
      else case v of
             JNull \<Rightarrow> vmess_unknown kvs ob
           | JArr _ \<Rightarrow> vmess_unknown kvs ob
           | JObj _ \<Rightarrow> vmess_unknown kvs ob
           | _ \<Rightarrow>
               (case to_string v of
                  None \<Rightarrow> None
                | Some s \<Rightarrow>
                    vmess_unknown kvs (obj_assign k (normalizeUnknownParamValueByKey k (Text s)) ob)))"

definition json_unknown :: "jval \<Rightarrow> pvalue obj option" where
  "json_unknown ssm =
     (if js_get ssm ''hasOwnProperty'' \<noteq> None then None else vmess_unknown (own_entries ssm) [])"

definition vmess_json_writes :: "jval \<Rightarrow> assignment list" where
  "vmess_json_writes ssm =
     (let g = js_get ssm; tls = g ''tls'' = Some (JStr (js ''tls''))
      in [(True, ''name'', jexpr_or (g ''ps'') ''''),
          (True, ''server'', jexpr (g ''add'')), (True, ''port'', jexpr (g ''port'')),
          (True, ''alterId'', jexpr_or (g ''aid'') ''0''), (True, ''uuid'', jexpr (g ''id'')),
          (truthy (g ''scy''), ''cipher'', jexpr (g ''scy'')),
          (tls, ''tls'', Val (js ''true'')),
          (tls \<and> truthy (g ''sni''), ''servername'', jexpr (g ''sni'')),
          (truthy (g ''fp''), ''client_fingerprint'', jexpr (g ''fp''))])"

definition vmess_network_writes :: "jval \<Rightarrow> jsstr \<Rightarrow> assignment list" where
  "vmess_network_writes ssm network =
     (let g = js_get ssm; ws = network = js ''ws''; h2 = network = js ''h2''; tcp = network = js ''tcp'';
          http = tcp \<and> g ''type'' = Some (JStr (js ''http'')); grpc = network = js ''grpc''
      in [(ws, ''obfs_vmess'', Val (js ''websocket'')),
          (ws, ''ws_path'', jexpr_or (g ''path'') ''/''),
          (ws \<and> truthy (g ''host''), ''ws_headers'', prefixed ''Host: '' (jexpr (g ''host''))),
          (h2, ''obfs_vmess'', Val (js ''h2'')),
          (h2, ''h2_path'', jexpr_or (g ''path'') ''/''),
          (h2 \<and> truthy (g ''host''), ''h2_host'', jexpr (g ''host'')),
          (http, ''obfs_vmess'', Val (js ''http'')),
          (http \<and> truthy (g ''path''), ''http_path'', jexpr (g ''path'')),
          (tcp \<and> \<not> http, ''obfs_vmess'', Val (js ''none'')),
          (grpc, ''obfs_vmess'', Val (js ''grpc'')),
          (grpc, ''grpc_service_name'', jexpr_or (g ''path'') '''')])"

definition merge_http_host :: "jsstr \<Rightarrow> jval \<Rightarrow> jsstr \<Rightarrow> page \<Rightarrow> page \<times> bool" where
  "merge_http_host sid ssm network p =
     (case js_get ssm ''host'' of
        Some h \<Rightarrow>
          if network = js ''tcp'' \<and> js_get ssm ''type'' = Some (JStr (js ''http'')) \<and> truthy (Some h)
          then mergeUnknownParamsToOtherParameters sid [(js ''host'', h)] p else (p, True)
      | None \<Rightarrow> (p, True))"

definition vmess_json :: "jsstr \<Rightarrow> jval \<Rightarrow> page \<Rightarrow> page \<times> bool" where
  "vmess_json sid ssm p =
     (let p1 = setFormValue sid ''type'' (Some (js ''vmess'')) 0 p in
      if ssm = JNull then (p1, False)
      else and_then (run_writes sid (vmess_json_writes ssm) p1) (\<lambda>p2.
             case json_network (js_get ssm ''net'') of
               None \<Rightarrow> (p2, False)
             | Some network \<Rightarrow>
                 and_then (run_writes sid (vmess_network_writes ssm network) p2) (\<lambda>p3.
                   and_then (merge_http_host sid ssm network p3) (merge_unknown sid (json_unknown ssm)))))"

definition parse_vmess_json ::
    "(jsstr \<Rightarrow> jsstr) \<Rightarrow> jsstr \<Rightarrow> jsstr \<Rightarrow> page \<Rightarrow> page \<times> bool" where
  "parse_vmess_json num_text body sid p =
     (case Option.bind (b64DecodeUnicode body) (json_parse num_text) of
        None \<Rightarrow> (p, False)
      | Some ssm \<Rightarrow> vmess_json sid ssm p)"

section \<open>VMess: the URL form\<close>

definition vmess_uri_writes :: "url_parts \<Rightarrow> jsstr obj \<Rightarrow> assignment list" where
  "vmess_uri_writes u q =
     (let g = qv q; network = toLowerCase (or_text (g ''type'') (js ''tcp''));
          ws = network = js ''ws''; grpc = network = js ''grpc''; http = network = js ''http'';
          h2 = network = js ''h2''; security = toLowerCase (g ''security'')
      in [(True, ''type'', Val (js ''vmess'')),
          (True, ''obfs_vmess'', Val (if ws then js ''websocket'' else if grpc then js ''grpc''
             else if http then js ''http'' else if h2 then js ''h2'' else js ''none'')),
          (True, ''server'', Val (u_hostname u)), (True, ''port'', Val (port_or ''443'' u)),
          (True, ''uuid'', safe (u_username u)), (True, ''alterId'', Val (js ''0'')),
          (True, ''cipher'', Val (or_text (g ''encryption'') (js ''auto''))),
          (security = js ''tls'' \<or> security = js ''xtls'' \<or> security = js ''reality'', ''tls'', Val (js ''true'')),
          (g ''sni'' \<noteq> [], ''servername'', safe (g ''sni'')),
          (g ''fp'' \<noteq> [], ''client_fingerprint'', safe (g ''fp'')),
          (ws, ''ws_path'', safe (or_text (g ''path'') (js ''/''))),
          (ws \<and> g ''host'' \<noteq> [], ''ws_headers'', prefixed ''Host: '' (safe (g ''host''))),
          (grpc, ''grpc_service_name'', safe (or_text (g ''serviceName'') (g ''path''))),
          (http \<and> g ''path'' \<noteq> [], ''http_path'', safe (g ''path'')),
          (h2 \<and> g ''path'' \<noteq> [], ''h2_path'', safe (g ''path'')),
          (h2 \<and> g ''host'' \<noteq> [], ''h2_host'', safe (g ''host'')),
          (one_or_true (g ''allowInsecure'') \<or> one_or_true (g ''insecure''), ''skip_cert_verify'',
             Val (js ''true'')),
          name_write u])"

definition vmess_uri :: "(jsstr \<Rightarrow> url_parts option) \<Rightarrow> jsstr \<Rightarrow> jsstr \<Rightarrow> page \<Rightarrow> page \<times> bool option" where
  "vmess_uri new_url body sid p =
     import_link new_url vmess_uri_writes
       (\<lambda>u q. collectUnknownQueryParams q
          [''encryption'', ''sni'', ''fp'', ''security'', ''type'', ''path'', ''host'', ''serviceName'',
           ''allowInsecure'', ''insecure''])
       (js ''vmess://'' @ body) sid p"

definition parseVmess ::
    "(jsstr \<Rightarrow> url_parts option) \<Rightarrow> (jsstr \<Rightarrow> jsstr) \<Rightarrow> jsstr \<Rightarrow> jsstr \<Rightarrow> page \<Rightarrow> page \<times> bool option" where
  "parseVmess new_url num_text body sid p =
     (case parse_vmess_json num_text body sid p of
        (q, True) \<Rightarrow> (q, Some True)
      | (q, False) \<Rightarrow>
          (case vmess_uri new_url body sid q of
             (r, None) \<Rightarrow> (r, Some False)
           | (r, Some b) \<Rightarrow> (r, Some b)))"

section \<open>VLESS and Trojan\<close>

definition vless_writes :: "url_parts \<Rightarrow> jsstr obj \<Rightarrow> assignment list" where
  "vless_writes u q =
     (let g = qv q; network = toLowerCase (or_text (g ''type'') (js ''tcp''));
          ws = network = js ''ws''; grpc = network = js ''grpc''; xhttp = network = js ''xhttp'';
          tcp = network = js ''tcp''; security = g ''security'';
          tls = security = js ''tls'' \<or> security = js ''xtls''; reality = security = js ''reality'';
          pbk = or_text (g ''pbk'') (g ''public-key''); short = or_text (g ''sid'') (g ''short-id'')
      in [(True, ''type'', Val (js ''vless'')),
          (True, ''server'', Val (u_hostname u)), (True, ''port'', Val (port_or ''443'' u)),
          (True, ''uuid'', safe (u_username u)),
          (True, ''obfs_vless'', Val (if ws then js ''ws'' else if grpc then js ''grpc''
             else if xhttp then js ''xhttp'' else js ''tcp'')),
          (tls, ''tls'', Val (js ''true'')),
          (tls \<and> g ''sni'' \<noteq> [], ''servername'', dec (g ''sni'')),
          (security = js ''xtls'' \<and> tcp, ''vless_flow'', Val (or_text (g ''flow'') (js ''xtls-rprx-direct''))),
          (reality, ''tls'', Val (js ''true'')),
          (reality \<and> g ''sni'' \<noteq> [], ''servername'', dec (g ''sni'')),
          (reality \<and> (tcp \<or> grpc) \<and> pbk \<noteq> [], ''reality_public_key'', Val pbk),
          (reality \<and> (tcp \<or> grpc) \<and> short \<noteq> [], ''reality_short_id'', Val short),
          (tcp \<and> g ''encryption'' \<noteq> [], ''vless_encryption'', safe (g ''encryption'')),
          (g ''fp'' \<noteq> [], ''client_fingerprint'', safe (g ''fp'')),
          (tcp \<and> g ''flow'' \<noteq> [], ''vless_flow'', safe (g ''flow'')),
          (ws, ''ws_path'', dec (or_text (g ''path'') (js ''/''))),
          (ws \<and> g ''host'' \<noteq> [], ''ws_headers'', prefixed ''Host: '' (dec (g ''host''))),
          (grpc, ''grpc_service_name'', dec (or_text (g ''serviceName'') (g ''path''))),
          (xhttp \<and> g ''path'' \<noteq> [], ''xhttp_opts_path'', dec (g ''path'')),
          (xhttp \<and> g ''host'' \<noteq> [], ''xhttp_opts_host'', dec (g ''host'')),
          name_write u])"

definition vless_unknown :: "url_parts \<Rightarrow> jsstr obj \<Rightarrow> pvalue obj option" where
  "vless_unknown u q =
     collectUnknownQueryParams q
       ([''security'', ''sni'', ''flow'', ''type'', ''path'', ''host'', ''serviceName'', ''pbk'',
         ''public-key'', ''sid'', ''short-id'', ''fp'']
        @ (if toLowerCase (or_text (qv q ''type'') (js ''tcp'')) = js ''tcp'' then [''encryption''] else []))"

definition parseVless :: "(jsstr \<Rightarrow> url_parts option) \<Rightarrow> jsstr \<Rightarrow> jsstr \<Rightarrow> page \<Rightarrow> page \<times> bool option" where
  "parseVless new_url url sid p = import_link new_url vless_writes vless_unknown url sid p"

definition trojan_writes :: "url_parts \<Rightarrow> jsstr obj \<Rightarrow> assignment list" where
  "trojan_writes u q =
     (let g = qv q; network = toLowerCase (g ''type''); ws = network = js ''ws''; grpc = network = js ''grpc''
      in [(True, ''type'', Val (js ''trojan'')),
          (True, ''server'', Val (u_hostname u)), (True, ''port'', Val (port_or ''443'' u)),
          (True, ''password'', safe (u_username u)), (True, ''obfs_trojan'', Val (js ''none'')),
          (g ''sni'' \<noteq> [], ''sni'', dec (g ''sni'')),
          (g ''alpn'' \<noteq> [], ''alpn'', dec (g ''alpn'')),
          (g ''pcs'' \<noteq> [], ''fingerprint'', safe (g ''pcs'')),
          (ws, ''obfs_trojan'', Val (js ''ws'')),
          (ws, ''ws_path'', dec (or_text (g ''path'') (js ''/''))),
          (ws \<and> g ''host'' \<noteq> [], ''ws_headers'', prefixed ''Host: '' (dec (g ''host''))),
          (grpc, ''obfs_trojan'', Val (js ''grpc'')),
          (grpc, ''grpc_service_name'', dec (g ''serviceName'')),
          (one_or_true (g ''allowInsecure''), ''skip_cert_verify'', Val (js ''true'')),
          name_write u])"

definition trojan_unknown :: "url_parts \<Rightarrow> jsstr obj \<Rightarrow> pvalue obj option" where
  "trojan_unknown u q =
     Option.bind
       (collectUnknownQueryParams q
         [''sni'', ''alpn'', ''allowInsecure'', ''type'', ''path'', ''host'', ''serviceName'', ''pcs''])
       (\<lambda>ob. remapParamKeys ob [(''fp'', ''client-fingerprint''), (''serviceName'', ''grpc-service-name'')])"

definition parseTrojan :: "(jsstr \<Rightarrow> url_parts option) \<Rightarrow> jsstr \<Rightarrow> jsstr \<Rightarrow> page \<Rightarrow> page \<times> bool option" where
  "parseTrojan new_url url sid p = import_link new_url trojan_writes trojan_unknown url sid p"

section \<open>Hysteria, Hysteria2 and TUIC\<close>

definition dash_in :: "jsstr \<Rightarrow> bool" where
  "dash_in s \<longleftrightarrow> str_includes (js ''-'') s"

definition base_port :: "jsstr \<Rightarrow> jsstr" where
  "base_port authorityPort =
     (let first = or_text (hd (split_on (js '','') authorityPort)) (js ''443'')
      in if dash_in first then hd (split_on (js ''-'') first) else first)"

definition hop_ports :: "jsstr \<Rightarrow> jsstr" where
  "hop_ports authorityPort =
     (let parts = split_on (js '','') authorityPort; first = or_text (hd parts) (js ''443'');
          rest = join (js '','') (tl parts)
      in if dash_in first then (if rest \<noteq> [] then first @ js '','' @ rest else first) else rest)"

definition applyHysteriaAuthorityPort :: "jsstr \<Rightarrow> assignment list" where
  "applyHysteriaAuthorityPort authorityPort =
     [(True, ''port'', Val (base_port authorityPort)),
      (hop_ports authorityPort \<noteq> [], ''flag_port_hopping'', Val (js ''1'')),
      (hop_ports authorityPort \<noteq> [], ''ports'', Val (hop_ports authorityPort))]"

definition only_digits :: "jsstr \<Rightarrow> jsstr" where
  \<comment> \<open>\<open>.replace(/[^0-9]/g, '')\<close>\<close>
  "only_digits s = filter digit s"

definition hysteria_writes :: "url_parts \<Rightarrow> jsstr obj \<Rightarrow> assignment list" where
  "hysteria_writes u q =
     (let g = qv q; up = or_text (g ''up'') (g ''upmbps''); down = or_text (g ''down'') (g ''downmbps'');
          obfs = or_text (g ''obfs'') (g ''obfsParam''); peer = or_text (g ''peer'') (g ''sni'')
      in [(True, ''type'', Val (js ''hysteria'')), (True, ''server'', Val (u_hostname u))]
         @ applyHysteriaAuthorityPort (u_port u)
         @ [(g ''auth'' \<noteq> [], ''hysteria_auth_str'', safe (g ''auth'')),
            (g ''protocol'' \<noteq> [], ''flag_transport'', Val (js ''1'')),
            (g ''protocol'' \<noteq> [], ''hysteria_protocol'', Val (g ''protocol'')),
            (g ''ports'' \<noteq> [], ''flag_port_hopping'', Val (js ''1'')),
            (g ''ports'' \<noteq> [], ''ports'', safe (g ''ports'')),
            (g ''hop-interval'' \<noteq> [], ''flag_port_hopping'', Val (js ''1'')),
            (g ''hop-interval'' \<noteq> [], ''flag_transport'', Val (js ''1'')),
            (g ''hop-interval'' \<noteq> [], ''hop_interval'', safe (g ''hop-interval'')),
            (up \<noteq> [], ''hysteria_up'', Val (only_digits (decodeURIComponentSafe up))),
            (down \<noteq> [], ''hysteria_down'', Val (only_digits (decodeURIComponentSafe down))),
            (obfs \<noteq> [], ''hysteria_obfs'', safe obfs),
            (peer \<noteq> [], ''sni'', safe peer),
            (g ''alpn'' \<noteq> [], ''alpn'', safe (g ''alpn'')),
            (one_or_true (g ''insecure''), ''skip_cert_verify'', Val (js ''true'')),
            (g ''recv-window-conn'' \<noteq> [], ''flag_quicparam'', Val (js ''1'')),
            (g ''recv-window-conn'' \<noteq> [], ''recv_window_conn'', safe (g ''recv-window-conn'')),
            (g ''recv-window'' \<noteq> [], ''flag_quicparam'', Val (js ''1'')),
            (g ''recv-window'' \<noteq> [], ''recv_window'', safe (g ''recv-window'')),
            (g ''disable-mtu-discovery'' \<noteq> [], ''flag_quicparam'', Val (js ''1'')),
            (g ''disable-mtu-discovery'' \<noteq> [], ''disable_mtu_discovery'',
               Val (flag_text (g ''disable-mtu-discovery''))),
            (g ''fast-open'' \<noteq> [], ''flag_quicparam'', Val (js ''1'')),
            (g ''fast-open'' \<noteq> [], ''fast_open'', Val (flag_text (g ''fast-open''))),
            (g ''fingerprint'' \<noteq> [], ''fingerprint'', safe (g ''fingerprint'')),
            name_write u])"

definition hysteria_unknown :: "url_parts \<Rightarrow> jsstr obj \<Rightarrow> pvalue obj option" where
  "hysteria_unknown u q =
     collectUnknownQueryParams q
       [''auth'', ''protocol'', ''up'', ''upmbps'', ''down'', ''downmbps'', ''obfs'', ''obfsParam'', ''peer'',
        ''sni'', ''alpn'', ''insecure'', ''ports'', ''hop-interval'', ''recv-window-conn'', ''recv-window'',
        ''disable-mtu-discovery'', ''fast-open'', ''fingerprint'']"

definition parseHysteria :: "(jsstr \<Rightarrow> url_parts option) \<Rightarrow> jsstr \<Rightarrow> jsstr \<Rightarrow> page \<Rightarrow> page \<times> bool option" where
  "parseHysteria new_url url sid p = import_link new_url hysteria_writes hysteria_unknown url sid p"

definition hysteria2_writes :: "url_parts \<Rightarrow> jsstr obj \<Rightarrow> assignment list" where
  "hysteria2_writes u q =
     (let g = qv q
      in [(True, ''type'', Val (js ''hysteria2'')), (True, ''server'', Val (u_hostname u))]
         @ applyHysteriaAuthorityPort (u_port u)
         @ [(u_username u \<noteq> [], ''password'', safe (u_username u)),
            (g ''obfs'' \<noteq> [], ''hysteria_obfs'', safe (g ''obfs'')),
            (g ''obfs-password'' \<noteq> [], ''obfs_password'', safe (g ''obfs-password'')),
            (g ''up'' \<noteq> [], ''hysteria_up'', safe (g ''up'')),
            (g ''down'' \<noteq> [], ''hysteria_down'', safe (g ''down'')),
            (g ''sni'' \<noteq> [], ''sni'', safe (g ''sni'')),
            (g ''alpn'' \<noteq> [], ''alpn'', safe (g ''alpn'')),
            (one_or_true (g ''insecure''), ''skip_cert_verify'', Val (js ''true'')),
            (g ''pinSHA256'' \<noteq> [], ''fingerprint'', safe (g ''pinSHA256'')),
            (g ''ports'' \<noteq> [], ''flag_port_hopping'', Val (js ''1'')),
            (g ''ports'' \<noteq> [], ''ports'', safe (g ''ports'')),
            (g ''hop-interval'' \<noteq> [], ''flag_port_hopping'', Val (js ''1'')),
            (g ''hop-interval'' \<noteq> [], ''hop_interval'', safe (g ''hop-interval'')),
            (g ''initial-stream-receive-window'' \<noteq> [], ''flag_quicparam'', Val (js ''1'')),
            (g ''initial-stream-receive-window'' \<noteq> [], ''initial_stream_receive_window'',
               safe (g ''initial-stream-receive-window'')),
            (g ''max-stream-receive-window'' \<noteq> [], ''flag_quicparam'', Val (js ''1'')),
            (g ''max-stream-receive-window'' \<noteq> [], ''max_stream_receive_window'',
               safe (g ''max-stream-receive-window'')),
            (g ''initial-connection-receive-window'' \<noteq> [], ''flag_quicparam'', Val (js ''1'')),
            (g ''initial-connection-receive-window'' \<noteq> [], ''initial_connection_receive_window'',
               safe (g ''initial-connection-receive-window'')),
            (g ''max-connection-receive-window'' \<noteq> [], ''flag_quicparam'', Val (js ''1'')),
            (g ''max-connection-receive-window'' \<noteq> [], ''max_connection_receive_window'',
               safe (g ''max-connection-receive-window'')),
            name_write u])"

definition hysteria2_unknown :: "url_parts \<Rightarrow> jsstr obj \<Rightarrow> pvalue obj option" where
  "hysteria2_unknown u q =
     collectUnknownQueryParams q
       [''obfs'', ''obfs-password'', ''up'', ''down'', ''sni'', ''alpn'', ''insecure'', ''pinSHA256'',
        ''protocol'', ''ports'', ''hop-interval'', ''initial-stream-receive-window'',
        ''max-stream-receive-window'', ''initial-connection-receive-window'',
        ''max-connection-receive-window'']"

definition parseHysteria2 :: "(jsstr \<Rightarrow> url_parts option) \<Rightarrow> jsstr \<Rightarrow> jsstr \<Rightarrow> page \<Rightarrow> page \<times> bool option" where
  "parseHysteria2 new_url url sid p = import_link new_url hysteria2_writes hysteria2_unknown url sid p"

definition tuic_writes :: "url_parts \<Rightarrow> jsstr obj \<Rightarrow> assignment list" where
  "tuic_writes u q =
     (let g = qv q; cc = or_text (g ''congestion_control'') (g ''congestion-controller'');
          v5 = u_password u \<noteq> []
      in [(True, ''type'', Val (js ''tuic'')),
          (True, ''server'', Val (u_hostname u)), (True, ''port'', Val (port_or ''443'' u)),
          (v5, ''uuid'', safe (u_username u)), (v5, ''password'', safe (u_password u)),
          (\<not> v5, ''token'', safe (u_username u)),
          (cc \<noteq> [], ''congestion_controller'', safe cc),
          (g ''alpn'' \<noteq> [], ''alpn'', dec (g ''alpn'')),
          (g ''sni'' \<noteq> [], ''sni'', dec (g ''sni'')),
          (one_or_true (g ''disable_sni''), ''disable_sni'', Val (js ''true'')),
          (g ''udp_relay_mode'' \<noteq> [], ''udp_relay_mode'', dec (g ''udp_relay_mode'')),
          (one_or_true (g ''reduce_rtt''), ''reduce_rtt'', Val (js ''true'')),
          (g ''heartbeat-interval'' \<noteq> [], ''heartbeat_interval'', safe (g ''heartbeat-interval'')),
          (g ''request-timeout'' \<noteq> [], ''request_timeout'', safe (g ''request-timeout'')),
          (g ''max-udp-relay-packet-size'' \<noteq> [], ''max_udp_relay_packet_size'',
             safe (g ''max-udp-relay-packet-size'')),
          (g ''max-open-streams'' \<noteq> [], ''max_open_streams'', safe (g ''max-open-streams'')),
          (g ''fast-open'' \<noteq> [], ''fast_open'', Val (flag_text (g ''fast-open''))),
          (g ''skip-cert-verify'' \<noteq> [], ''skip_cert_verify'', Val (flag_text (g ''skip-cert-verify''))),
          name_write u])"

definition tuic_unknown :: "url_parts \<Rightarrow> jsstr obj \<Rightarrow> pvalue obj option" where
  "tuic_unknown u q =
     collectUnknownQueryParams q
       [''congestion_control'', ''congestion-controller'', ''alpn'', ''sni'', ''disable_sni'',
        ''udp_relay_mode'', ''reduce_rtt'', ''heartbeat-interval'', ''request-timeout'',
        ''max-udp-relay-packet-size'', ''max-open-streams'', ''fast-open'', ''skip-cert-verify'']"

definition parseTuic :: "(jsstr \<Rightarrow> url_parts option) \<Rightarrow> jsstr \<Rightarrow> jsstr \<Rightarrow> page \<Rightarrow> page \<times> bool option" where
  "parseTuic new_url url sid p = import_link new_url tuic_writes tuic_unknown url sid p"

section \<open>SOCKS, HTTP, AnyTLS and Mieru\<close>

definition login_writes :: "url_parts \<Rightarrow> assignment list" where
  "login_writes u =
     [(u_username u \<noteq> [], ''username'', safe (u_username u)),
      (u_username u \<noteq> [] \<and> u_password u \<noteq> [], ''password'', safe (u_password u))]"

definition name_or_address :: "url_parts \<Rightarrow> assignment" where
  "name_or_address u =
     (True, ''name'', Val (if u_hash u \<noteq> [] then name_of u else u_hostname u @ js '':'' @ u_port u))"

definition socks_writes :: "url_parts \<Rightarrow> jsstr obj \<Rightarrow> assignment list" where
  "socks_writes u q =
     [(True, ''type'', Val (js ''socks5'')),
      (True, ''server'', Val (u_hostname u)), (True, ''port'', Val (port_or ''1080'' u))]
     @ login_writes u @ [name_or_address u]"

definition all_unknown :: "url_parts \<Rightarrow> jsstr obj \<Rightarrow> pvalue obj option" where
  "all_unknown u q = collectUnknownQueryParams q []"

definition parseSocks :: "(jsstr \<Rightarrow> url_parts option) \<Rightarrow> jsstr \<Rightarrow> jsstr \<Rightarrow> page \<Rightarrow> page \<times> bool option" where
  "parseSocks new_url url sid p = import_link new_url socks_writes all_unknown url sid p"

definition http_writes :: "url_parts \<Rightarrow> jsstr obj \<Rightarrow> assignment list" where
  "http_writes u q =
     (let https = u_protocol u = js ''https:''
      in [(True, ''type'', Val (js ''http'')), (True, ''server'', Val (u_hostname u)),
          (True, ''port'', Val (port_or (if https then ''443'' else ''80'') u)),
          (https, ''tls'', Val (js ''true''))]
         @ login_writes u @ [name_or_address u])"

definition parseHttp :: "(jsstr \<Rightarrow> url_parts option) \<Rightarrow> jsstr \<Rightarrow> jsstr \<Rightarrow> page \<Rightarrow> page \<times> bool option" where
  "parseHttp new_url url sid p = import_link new_url http_writes all_unknown url sid p"

definition anytls_writes :: "url_parts \<Rightarrow> jsstr obj \<Rightarrow> assignment list" where
  "anytls_writes u q =
     (let g = qv q; fp = or_text (g ''client-fingerprint'') (g ''fp'')
      in [(True, ''type'', Val (js ''anytls'')),
          (True, ''server'', Val (u_hostname u)), (True, ''port'', Val (port_or ''443'' u)),
          (True, ''password'', safe (or_text (u_password u) (u_username u))),
          (g ''sni'' \<noteq> [], ''sni'', safe (g ''sni'')),
          (g ''alpn'' \<noteq> [], ''alpn'', safe (g ''alpn'')),
          (one_or_true (g ''insecure''), ''skip_cert_verify'', Val (js ''true'')),
          (fp \<noteq> [], ''client_fingerprint'', safe fp),
          (g ''udp'' \<noteq> [], ''udp'', Val (flag_text (g ''udp''))),
          (g ''idle-session-check-interval'' \<noteq> [], ''idle_session_check_interval'',
             safe (g ''idle-session-check-interval'')),
          (g ''idle-session-timeout'' \<noteq> [], ''idle_session_timeout'', safe (g ''idle-session-timeout'')),
          (g ''min-idle-session'' \<noteq> [], ''min_idle_session'', safe (g ''min-idle-session'')),
          name_or_address u])"

definition anytls_unknown :: "url_parts \<Rightarrow> jsstr obj \<Rightarrow> pvalue obj option" where
  "anytls_unknown u q =
     map_option
       (\<lambda>ob. if u_username u = [] then ob
             else obj_assign (js ''username'') (Text (decodeURIComponentSafe (u_username u))) ob)
       (Option.bind
         (collectUnknownQueryParams q
           [''sni'', ''insecure'', ''alpn'', ''client-fingerprint'', ''fp'', ''udp'',
            ''idle-session-check-interval'', ''idle-session-timeout'', ''min-idle-session''])
         (\<lambda>ob. remapParamKeys ob [(''hpkp'', ''fingerprint''), (''fp'', ''client-fingerprint'')]))"

definition parseAnyTLS :: "(jsstr \<Rightarrow> url_parts option) \<Rightarrow> jsstr \<Rightarrow> jsstr \<Rightarrow> page \<Rightarrow> page \<times> bool option" where
  "parseAnyTLS new_url url sid p = import_link new_url anytls_writes anytls_unknown url sid p"

definition comma_parts :: "jsstr \<Rightarrow> jsstr list" where
  \<comment> \<open>\<open>v ? decodeURIComponentSafe(v).split(',') : []\<close>\<close>
  "comma_parts v = (if v = [] then [] else split_on (js '','') (decodeURIComponentSafe v))"

definition mieru_writes :: "url_parts \<Rightarrow> jsstr obj \<Rightarrow> assignment list" where
  "mieru_writes u q =
     (let g = qv q; ports = comma_parts (g ''port''); protocols = comma_parts (g ''protocol'');
          one = length ports = 1
      in [(True, ''type'', Val (js ''mieru'')), (True, ''server'', Val (u_hostname u)),
          (True, ''username'', safe (u_username u)), (True, ''password'', safe (u_password u)),
          (one \<and> dash_in (hd ports), ''port_range'', Val (hd ports)),
          (one \<and> \<not> dash_in (hd ports), ''port'', Val (hd ports)),
          (1 < length ports, ''port_range'', Val (join (js '','') ports)),
          (protocols \<noteq> [] \<and> hd protocols \<noteq> [], ''transport'', Val (hd protocols)),
          (g ''multiplexing'' \<noteq> [], ''multiplexing'', safe (g ''multiplexing'')),
          name_write u])"

definition mieru_unknown :: "url_parts \<Rightarrow> jsstr obj \<Rightarrow> pvalue obj option" where
  "mieru_unknown u q = collectUnknownQueryParams q [''port'', ''protocol'', ''multiplexing'']"

definition parseMieru :: "(jsstr \<Rightarrow> url_parts option) \<Rightarrow> jsstr \<Rightarrow> jsstr \<Rightarrow> page \<Rightarrow> page \<times> bool option" where
  "parseMieru new_url url sid p = import_link new_url mieru_writes mieru_unknown url sid p"

section \<open>The import button\<close>

text \<open>
  \<open>import_url\<close>: the parser of each scheme, and the outcome the status line reports. The first
  three parsers take the text between the first two occurrences of \<open>://\<close>, the others the link.
\<close>

datatype outcome = Cancelled | Invalid_format | Parse_error | Imported

definition parser ::
    "(jsstr \<Rightarrow> url_parts option) \<Rightarrow> (jsstr \<Rightarrow> jsstr) \<Rightarrow> jsstr \<Rightarrow> jsstr \<Rightarrow> jsstr \<Rightarrow>
     (jsstr \<Rightarrow> page \<Rightarrow> page \<times> bool option) option" where
  "parser new_url num_text scheme body url =
     map_of
       [(js ''ss'', parseSS body), (js ''ssr'', parseSSR body),
        (js ''vmess'', parseVmess new_url num_text body), (js ''vless'', parseVless new_url url),
        (js ''trojan'', parseTrojan new_url url), (js ''hysteria'', parseHysteria new_url url),
        (js ''hysteria2'', parseHysteria2 new_url url), (js ''hy2'', parseHysteria2 new_url url),
        (js ''tuic'', parseTuic new_url url), (js ''socks'', parseSocks new_url url),
        (js ''socks5'', parseSocks new_url url), (js ''socks5h'', parseSocks new_url url),
        (js ''http'', parseHttp new_url url), (js ''https'', parseHttp new_url url),
        (js ''anytls'', parseAnyTLS new_url url), (js ''mierus'', parseMieru new_url url)] scheme"

definition outcome_of :: "bool option \<Rightarrow> outcome" where
  "outcome_of r =
     (case r of None \<Rightarrow> Parse_error | Some True \<Rightarrow> Imported | Some False \<Rightarrow> Invalid_format)"

definition import_with ::
    "(jsstr \<Rightarrow> page \<Rightarrow> page \<times> bool option) option \<Rightarrow> jsstr \<Rightarrow> page \<Rightarrow> page \<times> outcome" where
  "import_with f sid p =
     (let p1 = beginImportOtherParameters sid p in
      case f of
        None \<Rightarrow> (endImportOtherParameters p1, Invalid_format)
      | Some g \<Rightarrow> (case g sid p1 of (q, r) \<Rightarrow> (endImportOtherParameters q, outcome_of r)))"

definition import_url ::
    "(jsstr \<Rightarrow> url_parts option) \<Rightarrow> (jsstr \<Rightarrow> jsstr) \<Rightarrow> jsstr option \<Rightarrow> jsstr \<Rightarrow> page \<Rightarrow> page \<times> outcome" where
  "import_url new_url num_text answer sid p =
     (case answer of
        None \<Rightarrow> (p, Cancelled)
      | Some ssrurl \<Rightarrow>
          if ssrurl = [] then (p, Cancelled)
          else
            (let ssu = split_on (js ''://'') ssrurl in
             if length ssu < 2 then (p, Invalid_format)
             else import_with (parser new_url num_text (toLowerCase (ssu ! 0)) (ssu ! 1) ssrurl) sid p))"

text \<open>What the status line shows: class and translation key.\<close>

definition import_status :: "outcome \<Rightarrow> string \<times> string" where
  "import_status r =
     (case r of
        Cancelled \<Rightarrow> (''oc-status-err'', ''User cancelled'')
      | Invalid_format \<Rightarrow> (''oc-status-err'', ''Invalid format'')
      | Parse_error \<Rightarrow> (''oc-status-err'', ''Parse error'')
      | Imported \<Rightarrow> (''oc-status-ok'', ''Import configuration information successfully''))"

end
