(* ===== verification/ImportLemmas.thy ===== *)
theory ImportLemmas
  imports Export Import
begin

text \<open>
  What the parsers share: the writes of a parser on a plain form leave the last value written
  to each field, a throw keeps the writes before it, and a query written by an export is read
  back value by value.
\<close>

section \<open>Writes on a plain form\<close>

abbreviation fields_of :: "assignment list \<Rightarrow> string set" where
  "fields_of ws \<equiv> fst ` snd ` set ws"

abbreviation field :: "jsstr \<Rightarrow> page \<Rightarrow> string \<Rightarrow> jsstr" where
  "field sid p f \<equiv> getFormValue sid f p"

lemma write_field_plain:
  assumes "plain_form sid p" and "f \<in> set node_fields" and "e \<noteq> Throws"
  shows "write_field sid f e p = setFormValue sid f (Some (expr_text e)) 0 p"
proof (cases e)
  case Undef
  have "plain_field sid f p" using assms(1,2) by (simp add: plain_form_def)
  then show ?thesis using Undef by (simp add: plain_field_write text_of_def)
qed (use assms in simp_all)

lemma run_writes_all:
  assumes "plain_form sid p" and "fields_of ws \<subseteq> set node_fields" and "no_throw ws"
  shows "run_writes sid ws p = (form.put_all sid ws p, True)"
  using assms
proof (induction ws arbitrary: p)
  case (Cons w ws)
  obtain c f e where w: "w = (c, f, e)" by (cases w)
  have rest: "no_throw ws" "fields_of ws \<subseteq> set node_fields" and f: "f \<in> set node_fields"
    and e: "c \<Longrightarrow> e \<noteq> Throws"
    using Cons.prems(2,3) w by (auto simp: no_throw_def)
  show ?case
  proof (cases c)
    case True
    with e have "write_field sid f e p = setFormValue sid f (Some (expr_text e)) 0 p"
      by (intro write_field_plain Cons.prems(1) f) simp
    moreover have "plain_form sid (setFormValue sid f (Some (expr_text e)) 0 p)"
      by (rule form.put_ok [OF Cons.prems(1) f])
    ultimately show ?thesis
      using Cons.IH [OF _ rest(2,1)] True e w by (simp add: form.put_all.simps)
  next
    case False
    then show ?thesis
      using Cons.IH [OF Cons.prems(1) rest(2,1)] w by (simp add: form.put_all.simps)
  qed
qed (simp add: form.put_all.simps)

lemma import_st_put_all [simp]: "import_st (form.put_all sid ws p) = import_st p"
  by (induction ws arbitrary: p) (auto simp: form.put_all.simps)

lemmas plain_put_all = form.put_all_ok
lemmas field_put_all = form.get_put_all

lemma run_writes_append:
  "run_writes sid (ws @ vs) p = and_then (run_writes sid ws p) (run_writes sid vs)"
  by (induction sid ws p rule: run_writes.induct) (auto simp: and_then_def)

text \<open>A throwing expression: the writes before it stay, nothing after it happens.\<close>

lemma run_writes_throw:
  assumes "plain_form sid p" and "fields_of ws \<subseteq> set node_fields" and "no_throw ws"
  shows "run_writes sid (ws @ (True, f, Throws) # vs) p = (form.put_all sid ws p, False)"
  by (simp add: run_writes_append run_writes_all [OF assms] and_then_def)

lemma no_throw_simps [simp]:
  "no_throw []"
  "no_throw ((c, f, e) # ws) \<longleftrightarrow> (c \<longrightarrow> e \<noteq> Throws) \<and> no_throw ws"
  "no_throw (ws @ vs) \<longleftrightarrow> no_throw ws \<and> no_throw vs"
  by (auto simp: no_throw_def)

lemma final_value_append:
  "final_value (ws @ vs) g old = final_value vs g (final_value ws g old)"
  by (induction ws g old rule: final_value.induct) auto

section \<open>Merging no parameters\<close>

definition importing :: "jsstr \<Rightarrow> page \<Rightarrow> bool" where
  "importing sid p \<longleftrightarrow> (\<exists>st. import_st p = Some st \<and> is_sid st = sid)"

lemma merge_unknown_none:
  assumes "importing sid p"
  shows "merge_unknown sid (Some []) p = (p, True)"
proof -
  from assms obtain st where st: "import_st p = Some st" "is_sid st = sid"
    by (auto simp: importing_def)
  then have "p\<lparr>import_st := Some (st\<lparr>is_params := is_params st\<rparr>)\<rparr> = p" by (cases p) simp
  with st show ?thesis
    by (simp add: merge_unknown_def jvals_of_def mergeUnknownParamsToOtherParameters_def
        merge_into_state_def state_params_def entries_def)
qed

lemma collect_unknown_none:
  assumes "\<forall>k\<in>fst ` set q. flag_set known k" and "js ''hasOwnProperty'' \<notin> fst ` set q"
  shows "collectUnknownQueryParams q known = Some []"
proof -
  have "foldl (\<lambda>ob (k, v). if flag_set known k then ob else g ob k v) [] kvs = []"
    if "set kvs \<subseteq> set q" for kvs and g :: "pvalue obj \<Rightarrow> jsstr \<Rightarrow> jsstr \<Rightarrow> pvalue obj"
    using that assms(1) by (induction kvs) auto
  then show ?thesis
    using assms(2) by (simp add: collectUnknownQueryParams_def map_of_eq_None_iff)
qed

lemma remap_none [simp]: "remapParamKeys [] m = Some []"
  by (simp add: remapParamKeys_def entries_def)

lemma parseOtherParameters_Nil [simp]: "parseOtherParameters [] = []"
  by (simp add: parseOtherParameters_def text_lines_def)

lemma merge_other_none [simp]: "merge_other [] qm m ks = Some qm"
  by (simp add: merge_other_def entries_def)

section \<open>The query of an export\<close>

fun last_param :: "(bool \<times> string \<times> jsstr) list \<Rightarrow> string \<Rightarrow> jsstr \<Rightarrow> jsstr" where
  "last_param [] k d = d"
| "last_param ((c, l, v) # ps) k d = last_param ps k (if c \<and> l = k then v else d)"

lemma qv_put: "qv (obj_put (js l) v q) k = (if l = k then v else qv q k)"
  by (simp add: qv_def)

lemma qv_set_params_from: "qv (set_params ps q) k = last_param ps k (qv q k)"
  by (induction ps q rule: set_params.induct) (auto simp: qv_put)

lemma qv_set_params: "qv (set_params ps []) k = last_param ps k []"
  using qv_set_params_from [of ps "[]" k] by (simp add: qv_def)

lemma key_set_obj_put: "fst ` set (obj_put k v ob) = insert k (fst ` set ob)"
  by (induction k v ob rule: obj_put.induct) auto

lemma keys_set_params:
  "fst ` set (set_params ps q) \<subseteq> fst ` set q \<union> js ` fst ` snd ` set ps"
proof (induction ps q rule: set_params.induct)
  case (2 c k v ps qm)
  then show ?case using key_set_obj_put [of "js k" v qm] by (cases c) auto
qed simp

lemma obj_ok_set_params: "obj_ok q \<Longrightarrow> obj_ok (set_params ps q)"
  by (induction ps q rule: set_params.induct) auto

lemma encoded_Nil [simp]: "encoded [] = []"
  by (simp add: encoded_def)

lemma well_formed_Nil [simp]: "well_formed []"
  using encodeURIComponent_defined [of "[]"] by simp

lemma query_values_wf:
  assumes "queryMapToString qm = Some s" and "(k, v) \<in> set qm"
  shows "well_formed v"
proof (cases "v = []")
  case False
  from assms(1) obtain ps where
    "collect_opt (map query_pair (filter (\<lambda>kv. snd kv \<noteq> []) (entries qm))) = Some ps"
    by (auto simp: queryMapToString_def split: if_splits)
  then have all: "map query_pair (filter (\<lambda>kv. snd kv \<noteq> []) (entries qm)) = map Some ps"
    by (simp add: collect_opt_eq_Some_iff)
  have "query_pair (k, v) \<in> set (map query_pair (filter (\<lambda>kv. snd kv \<noteq> []) (entries qm)))"
    using assms(2) False by force
  then obtain x where "query_pair (k, v) = Some x"
    unfolding all by auto
  then show ?thesis by (simp add: query_pair_Some_iff)
qed simp

lemma qv_wf: "queryMapToString qm = Some s \<Longrightarrow> well_formed (qv qm k)"
  using query_values_wf map_of_SomeD by (fastforce simp: qv_def split: option.splits)

lemma keys_encoded_query: "fst ` set (encoded_query qm) \<subseteq> fst ` set qm"
  by (auto simp: encoded_query_def intro: rev_image_eqI)

lemma encoded_query_get:
  assumes "obj_ok qm"
  shows "obj_get (encoded_query qm) k =
    (case obj_get qm k of None \<Rightarrow> None | Some v \<Rightarrow> if v = [] then None else Some (encoded v))"
proof -
  let ?f = "filter (\<lambda>kv. snd kv \<noteq> []) (entries qm)"
  have ok: "obj_ok ?f"
    using obj_ok_entries [OF assms] by (simp add: obj_ok_def distinct_map_filter)
  have f: "obj_get ?f k = (case obj_get qm k of None \<Rightarrow> None | Some v \<Rightarrow> if v = [] then None else Some v)"
  proof (cases "obj_get ?f k")
    case None
    then have "(k, v) \<notin> set qm \<or> v = []" for v
      by (force simp: map_of_eq_None_iff)
    then show ?thesis
      using None obj_get_eq_Some_iff [OF assms, of k] by (auto split: option.splits)
  next
    case (Some v)
    then have "(k, v) \<in> set ?f" using obj_get_eq_Some_iff [OF ok] by blast
    then have "(k, v) \<in> set qm" "v \<noteq> []" by auto
    then show ?thesis
      using Some obj_get_eq_Some_iff [OF assms, of k v] by simp
  qed
  have "obj_get (encoded_query qm) k = map_option encoded (obj_get ?f k)"
    by (simp add: encoded_query_def map_of_map)
  with f show ?thesis by (auto split: option.splits)
qed

lemma qv_encoded: "obj_ok qm \<Longrightarrow> qv (encoded_query qm) k = encoded (qv qm k)"
  by (simp add: qv_def encoded_query_get split: option.splits)

lemma encoded_js:
  assumes "\<forall>u\<in>set t. uri_unreserved u"
  shows "encoded t = t"
  using encode_unreserved [OF assms] by (simp add: encoded_def)

lemma encoded_eq:
  assumes "well_formed s" and "\<forall>u\<in>set t. uri_unreserved u"
  shows "encoded s = t \<longleftrightarrow> s = t"
proof
  assume "encoded s = t"
  then have "decodeURIComponent (encoded s) = decodeURIComponent (encoded t)"
    using encoded_js [OF assms(2)] by simp
  moreover have "well_formed t"
    using encodeURIComponent_defined [of t] encode_unreserved [OF assms(2)] by simp
  ultimately show "s = t" using assms(1) by simp
qed (use encoded_js [OF assms(2)] in simp)

lemma dec_encoded [simp]: "well_formed s \<Longrightarrow> dec (encoded s) = Val s"
  by (simp add: dec_def)

lemma safe_encoded [simp]: "well_formed s \<Longrightarrow> safe (encoded s) = Val s"
  by (simp add: safe_def decodeURIComponentSafe_def)

lemma safe_text [simp]: "well_formed s \<Longrightarrow> decodeURIComponentSafe (encoded s) = s"
  by (simp add: decodeURIComponentSafe_def)

text \<open>A query map of constant keys is a good one.\<close>

lemma query_ok_set_params:
  assumes "list_all (\<lambda>(c, k, v). k \<notin> set [''hasOwnProperty'', ''__proto__'']) ps"
  shows "query_ok (set_params ps [])"
proof -
  have "k \<notin> set [js ''hasOwnProperty'', js ''__proto__'']" if "k \<in> fst ` set (set_params ps [])" for k
  proof -
    have "k \<in> js ` fst ` snd ` set ps"
      using that keys_set_params [of ps "[]"] by (simp only: list.set(1) image_empty Un_empty_left) blast
    then obtain l where "k = js l" "l \<in> fst ` snd ` set ps" by blast
    with assms show ?thesis by (auto simp: list_all_iff)
  qed
  then show ?thesis by (simp add: query_ok_def obj_ok_set_params)
qed

lemma unknown_none_set_params:
  assumes "list_all (\<lambda>(c, k, v). k \<in> set known \<and> k \<noteq> ''hasOwnProperty'') ps"
  shows "collectUnknownQueryParams (encoded_query (set_params ps [])) known = Some []"
proof (rule collect_unknown_none)
  have keys: "fst ` set (encoded_query (set_params ps [])) \<subseteq> js ` fst ` snd ` set ps"
    using keys_encoded_query [of "set_params ps []"] keys_set_params [of ps "[]"] by simp
  show "\<forall>k\<in>fst ` set (encoded_query (set_params ps [])). flag_set known k"
  proof
    fix k
    assume "k \<in> fst ` set (encoded_query (set_params ps []))"
    then have "k \<in> js ` fst ` snd ` set ps" using keys by blast
    then obtain l where "k = js l" "l \<in> fst ` snd ` set ps" by blast
    with assms show "flag_set known k" by (auto simp: list_all_iff flag_set_def)
  qed
  show "js ''hasOwnProperty'' \<notin> fst ` set (encoded_query (set_params ps []))"
  proof
    assume "js ''hasOwnProperty'' \<in> fst ` set (encoded_query (set_params ps []))"
    with keys have "js ''hasOwnProperty'' \<in> js ` fst ` snd ` set ps" by blast
    then have "''hasOwnProperty'' \<in> fst ` snd ` set ps" by (simp add: image_iff)
    with assms show False by (auto simp: list_all_iff)
  qed
qed

section \<open>The import of a link\<close>

lemma form_page_irrelevant [simp]: "getFormValue sid f (p\<lparr>import_st := x\<rparr>) = getFormValue sid f p"
proof -
  have n: "getElementsByName n (p\<lparr>import_st := x\<rparr>) = getElementsByName n p" for n
    by (simp add: getElementsByName_def)
  have i: "getElementById n (p\<lparr>import_st := x\<rparr>) = getElementById n p" for n
    by (simp add: getElementById_def)
  have e: "getFormElements sid f (p\<lparr>import_st := x\<rparr>) = getFormElements sid f p"
    by (simp add: getFormElements_def Let_def n i)
  have d: "getDynamicListInputs sid f (p\<lparr>import_st := x\<rparr>) = getDynamicListInputs sid f p"
    by (simp add: getDynamicListInputs_def getDynamicListContainer_def split: option.splits)
  have v: "(\<lambda>j. getElementValue j (p\<lparr>import_st := x\<rparr>)) = (\<lambda>j. getElementValue j p)"
    by (simp add: getElementValue_def fun_eq_iff split: option.splits)
  show ?thesis using fun_cong [OF v] by (simp add: getFormValue_def Let_def e d joined_values_def)
qed

lemma plain_form_irrelevant [simp]: "plain_form sid (p\<lparr>import_st := x\<rparr>) = plain_form sid p"
proof -
  have "getElementsByName n (p\<lparr>import_st := x\<rparr>) = getElementsByName n p" for n
    by (simp add: getElementsByName_def)
  then show ?thesis
    by (simp add: plain_form_def plain_field_def field_index_def getDynamicListContainer_def)
qed

lemma begin_import:
  assumes "plain_form sid r"
  shows "plain_form sid (beginImportOtherParameters sid r)"
    and "importing sid (beginImportOtherParameters sid r)"
    and "f \<in> set node_fields \<Longrightarrow> f \<noteq> ''other_parameters'' \<Longrightarrow>
      getFormValue sid f (beginImportOtherParameters sid r) = getFormValue sid f r"
proof -
  have o: "''other_parameters'' \<in> set node_fields" by (simp add: node_fields_def)
  show "plain_form sid (beginImportOtherParameters sid r)"
    using form.put_ok [OF assms o] by (simp add: beginImportOtherParameters_def Let_def)
  show "importing sid (beginImportOtherParameters sid r)"
    by (simp add: beginImportOtherParameters_def importing_def Let_def)
  show "getFormValue sid f (beginImportOtherParameters sid r) = getFormValue sid f r"
    if "f \<in> set node_fields" "f \<noteq> ''other_parameters''"
    using form.get_put [OF assms o that(1)] that(2) by (simp add: beginImportOtherParameters_def Let_def)
qed

definition restored :: "jsstr \<Rightarrow> assignment list \<Rightarrow> page \<Rightarrow> page \<Rightarrow> bool" where
  "restored sid ws r r' \<longleftrightarrow>
     (\<forall>f\<in>set node_fields. f \<noteq> ''other_parameters'' \<longrightarrow>
        getFormValue sid f r' = final_value ws f (getFormValue sid f r))"

text \<open>The writes of an import seen from outside, when no parameter is unknown.\<close>

lemma import_with_writes:
  assumes "plain_form sid r" and "fields_of ws \<subseteq> set node_fields" and "no_throw ws"
    and "\<And>q. plain_form sid q \<Longrightarrow> importing sid q \<Longrightarrow> g sid q = (form.put_all sid ws q, Some True)"
  shows "\<exists>r'. import_with (Some g) sid r = (r', Imported) \<and> restored sid ws r r' \<and> import_st r' = None"
proof -
  let ?b = "beginImportOtherParameters sid r"
  note b = begin_import [OF assms(1)]
  have "getFormValue sid f (endImportOtherParameters (form.put_all sid ws ?b)) =
      final_value ws f (getFormValue sid f r)"
    if "f \<in> set node_fields" "f \<noteq> ''other_parameters''" for f
    using field_put_all [OF b(1) assms(2) that(1)] b(3) [OF that]
    by (simp add: endImportOtherParameters_def)
  then show ?thesis
    using assms(4) [OF b(1,2)]
    by (simp add: import_with_def outcome_of_def restored_def endImportOtherParameters_def)
qed

lemma import_url_scheme:
  assumes "cu (CHR '':'') \<notin> set sch" and "sch \<noteq> []"
  shows "import_url nu nt (Some (sch @ js ''://'' @ rest)) sid r =
    import_with (parser nu nt (toLowerCase sch) (hd (split_on (js ''://'') rest)) (sch @ js ''://'' @ rest)) sid r"
proof -
  have s: "split_on (js ''://'') (sch @ js ''://'' @ rest) = sch # split_on (js ''://'') rest"
    using split_on_found [OF assms(1), of "js ''//''" rest] by (simp add: js_Cons)
  then show ?thesis
    using assms(2) by (cases "split_on (js ''://'') rest") (simp_all add: import_url_def Let_def)
qed

text \<open>The URL parsers: a link of the exported shape is parsed into its writes.\<close>

lemma import_link_writes:
  assumes "link_ok l" and "l_search l = cu (CHR ''?'') # s" and "queryMapToString qm = Some s"
    and "query_ok qm" and "unknown (link_parts l) (encoded_query qm) = Some []"
    and "ws = writes (link_parts l) (encoded_query qm)"
    and "fields_of ws \<subseteq> set node_fields" and "no_throw ws"
    and "plain_form sid q" and "importing sid q"
  shows "import_link nu writes unknown (link_text l) sid q = (form.put_all sid ws q, Some True)"
proof -
  have "parseQuery (u_search (link_parts l)) = Some (encoded_query qm)"
    using parseQuery_queryMapToString [OF assms(3,4)] assms(2) by (simp add: link_parts_def)
  moreover have "importing sid (form.put_all sid ws q)"
    using assms(10) by (simp add: importing_def)
  ultimately show ?thesis
    using parseUrl_link [OF assms(1)] assms(5,6) run_writes_all [OF assms(9,7,8)]
    by (simp add: import_link_def and_then_def merge_unknown_none returns_true_def)
qed

section \<open>The shape of an exported link\<close>

lemma finish_link_shape:
  assumes "finish_link sid p scheme prefix keyMap qm = Link url"
    and "getFormValue sid ''other_parameters'' p = []"
  obtains pre s where "prefix = Some pre" and "queryMapToString qm = Some s"
    and "well_formed (getFormValue sid ''name'' p)"
    and "url = scheme @ pre @ s @ after (CHR ''#'') (encoded (getFormValue sid ''name'' p))"
proof -
  let ?n = "getFormValue sid ''name'' p"
  have q: "query_text sid p keyMap qm = queryMapToString qm"
    using assms(2) by (simp add: query_text_def mergeOtherParametersToQuery_def)
  from assms(1) obtain pre s t where pre: "prefix = Some pre" and s: "queryMapToString qm = Some s"
    and t: "with_name ?n (pre @ s) = Some t" and url: "url = scheme @ t"
    by (auto simp: finish_link_def link_of_def q bind_eq_Some_conv split: option.splits)
  have wf: "well_formed ?n"
  proof (cases "?n = []")
    case False
    then show ?thesis
      using t encodeURIComponent_defined [of ?n] by (auto simp: with_name_def)
  qed simp
  have "t = pre @ s @ after (CHR ''#'') (encoded ?n)"
    using t wf by (auto simp: with_name_def after_def encode_Some js_def split: if_splits)
  with pre s wf url that show thesis by blast
qed

end
