(* ===== verification/RoundTrip.thy ===== *)
theory RoundTrip
  imports ImportLemmas
begin

text \<open>
  Export followed by import: the link a form exports, imported into any plain form, restores
  the fields of the protocol. The first lemmas build the link of an export; then one section
  per protocol.
\<close>

section \<open>The link of an export\<close>

lemma escape_unit_dot: "escape_unit u \<Longrightarrow> dot u"
proof -
  assume "escape_unit u"
  then obtain c where "u = cu c" and "c \<noteq> CHR 0x0A" and "c \<noteq> CHR 0x0D"
    by (auto simp: escape_unit_def uri_unreserved_def js_def)
  then show "dot u" by simp
qed

lemma plain_part_encoded [intro, simp]: "well_formed s \<Longrightarrow> plain_part (encoded s)"
  using encoded_units [of s] not_escape_units by (auto simp: plain_part_def none_of_def js_def)

lemma plain_part_Nil [simp]: "plain_part []"
  by (simp add: plain_part_def)

lemma query_units:
  assumes "queryMapToString qm = Some s"
  shows "\<forall>u\<in>set s. escape_unit u \<or> u \<in> {cu (CHR ''=''), cu (CHR ''&'')}"
proof -
  from assms obtain ps where
    ps: "collect_opt (map query_pair (filter (\<lambda>kv. snd kv \<noteq> []) (entries qm))) = Some ps"
    and s: "s = join (js ''&'') ps"
    by (auto simp: queryMapToString_def split: if_splits)
  have p: "\<forall>u\<in>set x. escape_unit u \<or> u = cu (CHR ''='')" if x: "x \<in> set ps" for x
  proof -
    have "Some x \<in> set (map query_pair (filter (\<lambda>kv. snd kv \<noteq> []) (entries qm)))"
      using ps x by (simp add: collect_opt_eq_Some_iff)
    then obtain k v where "query_pair (k, v) = Some x" by force
    then show ?thesis
      using encoded_units [of k] encoded_units [of v] by (auto simp: query_pair_Some_iff js_def)
  qed
  show ?thesis
    using set_join [of "js ''&''" ps] p unfolding s by (fastforce simp: js_def)
qed

lemma link_ok_export:
  assumes "l_scheme l \<noteq> []" and "plain_part (l_scheme l)" and "plain_part (l_user l)"
    and "plain_part (l_password l)" and "plain_part (l_host l)" and "plain_part (l_port l)"
    and "l_path l = [] \<or> l_path l = js ''/''"
    and "l_search l = cu (CHR ''?'') # s" and "queryMapToString qm = Some s"
    and "l_hash l = after (CHR ''#'') (encoded name)" and "well_formed name"
  shows "link_ok l"
proof -
  have "none_of ''#'' u" if "u \<in> set s" for u
    using query_units [OF assms(9)] that not_escape_units(3) by (auto simp: none_of_def js_def)
  moreover have "dot u" if "u \<in> set (encoded name)" for u
    using encoded_units [OF assms(11)] that escape_unit_dot by blast
  ultimately show ?thesis
    using assms(1-8,10) by (auto simp: link_ok_def after_def js_def)
qed

text \<open>A name that comes back: it has nothing left to decode.\<close>

definition settled :: "jsstr \<Rightarrow> bool" where
  "settled s \<longleftrightarrow> decodeURIComponent s \<in> {None, Some s}"

lemma name_of_export:
  assumes "u_hash u = after (CHR ''#'') (encoded name)" and "well_formed name" and "settled name"
  shows "name_write u = (name \<noteq> [], ''name'', Val name)"
  using assms decodeFragment_encoded [of name]
  by (auto simp: name_write_def name_of_def after_def settled_def decodeFragment_def)

lemma unreserved_js: "list_all (\<lambda>c. uri_unreserved (cu c)) t \<Longrightarrow> \<forall>u\<in>set (js t). uri_unreserved u"
  by (auto simp: js_def list_all_iff)

lemma or_encoded:
  assumes "well_formed s" and "CHR ''%'' \<notin> set t"
  shows "dec (or_text (encoded s) (js t)) = Val (or_text s (js t))"
    and "safe (or_text (encoded s) (js t)) = Val (or_text s (js t))"
  using assms decode_no_percent [of "js t"]
  by (simp_all add: or_text_def dec_def safe_def decodeURIComponentSafe_def)

lemma safe_not_Throws [simp]: "safe s \<noteq> Throws"
  by (simp add: safe_def)

lemma encoded_lit: "list_all (\<lambda>c. uri_unreserved (cu c)) t \<Longrightarrow> encoded (js t) = js t"
  by (rule encoded_js [OF unreserved_js])

lemma last_param_append:
  "last_param (ps @ qs) k d = last_param qs k (last_param ps k d)"
  by (induction ps k d rule: last_param.induct) auto

lemma last_param_if:
  "last_param (if c then ps else qs) k d = (if c then last_param ps k d else last_param qs k d)"
  by simp

text \<open>What an import restores of the exported form \<open>p\<close> in the form \<open>r\<close> it is run on.\<close>

definition carried :: "jsstr \<Rightarrow> string list \<Rightarrow> page \<Rightarrow> page \<Rightarrow> page \<Rightarrow> bool" where
  "carried sid fs p r r' \<longleftrightarrow>
     list_all (\<lambda>f. getFormValue sid f r' =
        (if getFormValue sid f p = [] then getFormValue sid f r else getFormValue sid f p)) fs"

definition flagged :: "jsstr \<Rightarrow> string list \<Rightarrow> page \<Rightarrow> page \<Rightarrow> page \<Rightarrow> bool" where
  "flagged sid fs p r r' \<longleftrightarrow>
     list_all (\<lambda>f. getFormValue sid f r' =
        (if is_true (getFormValue sid f p) then js ''true'' else getFormValue sid f r)) fs"

definition holds :: "jsstr \<Rightarrow> (string \<times> jsstr) list \<Rightarrow> page \<Rightarrow> bool" where
  "holds sid kvs r' \<longleftrightarrow> list_all (\<lambda>(f, v). getFormValue sid f r' = v) kvs"

lemma list_all_step: "P x \<Longrightarrow> list_all P xs \<Longrightarrow> list_all P (x # xs)" "list_all P []"
  by simp_all

lemma restored_at:
  "restored sid ws r r' \<Longrightarrow> f \<in> set node_fields \<Longrightarrow> f \<noteq> ''other_parameters'' \<Longrightarrow>
     getFormValue sid f r' = final_value ws f (getFormValue sid f r)"
  by (simp add: restored_def)

text \<open>What the parser of a URL sees of an export.\<close>

definition reads :: "jsstr \<Rightarrow> page \<Rightarrow> (bool \<times> string \<times> jsstr) list \<Rightarrow> url_parts \<Rightarrow> jsstr obj \<Rightarrow> bool" where
  "reads sid p ps u q \<longleftrightarrow>
     u_hostname u = getFormValue sid ''server'' p
     \<and> name_write u = (getFormValue sid ''name'' p \<noteq> [], ''name'', Val (getFormValue sid ''name'' p))
     \<and> (\<forall>k. well_formed (last_param ps k [])) \<and> (\<forall>k. qv q k = encoded (last_param ps k []))"

lemma reads_export:
  assumes "queryMapToString (set_params ps []) = Some s"
    and "l_host l = getFormValue sid ''server'' p"
    and "l_hash l = after (CHR ''#'') (encoded (getFormValue sid ''name'' p))"
    and "well_formed (getFormValue sid ''name'' p)" and "settled (getFormValue sid ''name'' p)"
  shows "reads sid p ps (link_parts l) (encoded_query (set_params ps []))"
proof -
  have "well_formed (last_param ps k [])" for k
    using qv_wf [OF assms(1), of k] by (simp add: qv_set_params)
  moreover have "qv (encoded_query (set_params ps [])) k = encoded (last_param ps k [])" for k
    by (simp add: qv_encoded obj_ok_set_params qv_set_params)
  moreover have "u_hash (link_parts l) = after (CHR ''#'') (encoded (getFormValue sid ''name'' p))"
    by (simp add: link_parts_def assms(3))
  ultimately show ?thesis
    using name_of_export [OF _ assms(4,5)] assms(2) by (simp add: reads_def link_parts_def)
qed

lemma reads_simps:
  assumes "reads sid p ps u q"
  shows "u_hostname u = getFormValue sid ''server'' p"
    and "name_write u = (getFormValue sid ''name'' p \<noteq> [], ''name'', Val (getFormValue sid ''name'' p))"
    and "qv q k = encoded (last_param ps k [])" and "well_formed (last_param ps k [])"
  using assms by (simp_all add: reads_def)

lemma round_trip_link:
  assumes "link_ok l" and "l_search l = cu (CHR ''?'') # s"
    and "queryMapToString (set_params ps []) = Some s"
    and "list_all (\<lambda>(c, k, v). k \<notin> set [''hasOwnProperty'', ''__proto__'']) ps"
    and "unknown (link_parts l) (encoded_query (set_params ps [])) = Some []"
    and "ws = writes (link_parts l) (encoded_query (set_params ps []))"
    and "fields_of ws \<subseteq> set node_fields" and "no_throw ws" and "plain_form sid r"
    and "\<And>body. parser nu nt (toLowerCase (l_scheme l)) body (link_text l) =
           Some (import_link nu writes unknown (link_text l))"
  shows "\<exists>r'. import_url nu nt (Some (link_text l)) sid r = (r', Imported) \<and> restored sid ws r r'"
proof -
  have "\<exists>r'. import_with (Some (import_link nu writes unknown (link_text l))) sid r = (r', Imported)
      \<and> restored sid ws r r' \<and> import_st r' = None"
    by (rule import_with_writes [OF assms(9,7,8)])
      (rule import_link_writes [where s = s and qm = "set_params ps []"];
        (rule assms(1-3,5-8) query_ok_set_params [OF assms(4)] | assumption))
  moreover have "cu (CHR '':'') \<notin> set (l_scheme l)" "l_scheme l \<noteq> []"
    using assms(1) by (auto simp: link_ok_def plain_part_def)
  then have "import_url nu nt (Some (link_text l)) sid r =
      import_with (Some (import_link nu writes unknown (link_text l))) sid r"
    using import_url_scheme [of "l_scheme l" nu nt] assms(10)
    by (simp add: link_text_def origin_text_def)
  ultimately show ?thesis by auto
qed

section \<open>Host headers\<close>

definition host_ok :: "jsstr \<Rightarrow> bool" where
  "host_ok headers \<longleftrightarrow> headers = [] \<or>
     (let h = drop 6 headers in take 6 headers = js ''Host: '' \<and> h \<noteq> [] \<and> trim h = h
        \<and> \<not> str_includes (js ''Host:'') h)"

lemma host_header_ok:
  assumes "host_ok headers" and "headers \<noteq> []"
  shows "has_host headers" and "js ''Host: '' @ host_header headers = headers"
    and "host_header headers \<noteq> []"
proof -
  define h where "h = drop 6 headers"
  have h: "headers = js ''Host:'' @ cu (CHR '' '') # h" "h \<noteq> []" "trim h = h" "index_of (js ''Host:'') h = None"
    using assms append_take_drop_id [of 6 headers]
    by (auto simp: host_ok_def h_def Let_def str_includes_def js_def)
  then show "has_host headers"
    using index_of_here [of "js ''Host:''" "cu (CHR '' '') # h"] by (simp add: has_host_def str_includes_def)
  have n: "index_of (js ''Host:'') (cu (CHR '' '') # h) = None"
    using h(4) by (simp add: js_Cons)
  have "split_on (js ''Host:'') headers = [[], cu (CHR '' '') # h]"
    using index_of_here [of "js ''Host:''" "cu (CHR '' '') # h"] split_on_none [OF _ n]
    unfolding h(1) by (subst split_on_some [of _ _ 0]) simp_all
  moreover have "trim (cu (CHR '' '') # h) = trim h"
    by (simp add: trim_def trim_start_def is_ws_def word_unat_eq_iff char_code_simps)
  ultimately have "host_header headers = h" using h(3) by (simp add: host_header_def)
  with h show "js ''Host: '' @ host_header headers = headers" and "host_header headers \<noteq> []"
    by (simp_all add: js_Cons)
qed

lemma has_host_Nil [simp]: "\<not> has_host []"
  by (simp add: has_host_def)

lemma host_header_cases:
  assumes "host_ok headers"
  shows "has_host headers \<longleftrightarrow> headers \<noteq> []"
    and "headers \<noteq> [] \<Longrightarrow> js ''Host: '' @ host_header headers = headers"
    and "headers \<noteq> [] \<Longrightarrow> host_header headers \<noteq> []"
  using host_header_ok [OF assms] by auto

section \<open>Assembling a round trip\<close>

definition login :: "jsstr \<Rightarrow> jsstr \<Rightarrow> jsstr" where
  "login us pw = (if us = [] \<and> pw = [] then [] else us @ after (CHR '':'') pw @ js ''@'')"

text \<open>
  The common course of every URL protocol: what is left to show for a protocol is what its
  writes leave, given what the parser reads of the export.
\<close>

lemma round_trip:
  fixes sid p ps
  defines "name \<equiv> getFormValue sid ''name'' p" and "server \<equiv> getFormValue sid ''server'' p"
  assumes query: "queryMapToString (set_params ps []) = Some s"
    and name: "well_formed name" "settled name"
    and url: "url = js sch @ js ''://'' @ login us pw @ server @ after (CHR '':'') port @ path
      @ cu (CHR ''?'') # s @ after (CHR ''#'') (encoded name)"
    and sch: "sch \<noteq> []" "list_all (\<lambda>c. c \<notin> set ''/?#:@'') sch"
    and lower: "list_all (\<lambda>c. \<not> (65 \<le> (of_char c :: nat) \<and> (of_char c :: nat) \<le> 90)) sch"
    and parts: "plain_part us" "plain_part pw" "plain_part server" "plain_part port"
      "path = [] \<or> path = js ''/''"
    and keys: "list_all (\<lambda>(c, k, v). k \<notin> set [''hasOwnProperty'', ''__proto__'']) ps"
    and unknown: "\<And>u. u_username u = us \<Longrightarrow> unknown u (encoded_query (set_params ps [])) = Some []"
    and throws: "\<And>u q. reads sid p ps u q \<Longrightarrow> no_throw (writes u q)"
    and fields: "\<And>u q. fields_of (writes u q) \<subseteq> set node_fields"
    and parse: "\<And>body url. parser nu nt (js sch) body url = Some (import_link nu writes unknown url)"
    and plain: "plain_form sid r"
  obtains u q r' where "import_url nu nt (Some url) sid r = (r', Imported)"
    and "restored sid (writes u q) r r'" and "reads sid p ps u q"
    and "u_port u = port" and "u_username u = us" and "u_password u = pw" and "u_protocol u = js sch @ js '':''"
proof -
  define l where "l = \<lparr>l_scheme = js sch, l_user = us, l_password = pw, l_host = server, l_port = port,
    l_path = path, l_search = cu (CHR ''?'') # s, l_hash = after (CHR ''#'') (encoded name)\<rparr>"
  let ?q = "encoded_query (set_params ps [])"
  have "plain_part (js sch)"
    using sch(2) by (auto simp: plain_part_def js_def list_all_iff)
  then have ok: "link_ok l"
    using sch(1) parts query name(1) by (intro link_ok_export [where s = s and name = name]) (simp_all add: l_def)
  have "url = link_text l"
    unfolding url by (simp add: l_def link_text_def origin_text_def rest_text_def userinfo_text_def hostport_text_def login_def)
  moreover have r: "reads sid p ps (link_parts l) ?q"
    using reads_export [OF query, of l sid p] name by (simp add: l_def name_def server_def)
  moreover have u: "u_port (link_parts l) = port" "u_username (link_parts l) = us"
    "u_password (link_parts l) = pw" "u_protocol (link_parts l) = js sch @ js '':''"
    by (simp_all add: link_parts_def l_def)
  moreover have "\<exists>r'. import_url nu nt (Some (link_text l)) sid r = (r', Imported)
      \<and> restored sid (writes (link_parts l) ?q) r r'"
    by (rule round_trip_link [OF ok _ query keys, where unknown = unknown and writes = writes])
      (use unknown [OF u(2)] throws [OF r] fields plain parse toLowerCase_js [OF lower] in \<open>simp_all add: l_def\<close>)
  ultimately show thesis using that by blast
qed

lemma carried_append:
  "carried sid (fs @ gs) p r r' \<longleftrightarrow> carried sid fs p r r' \<and> carried sid gs p r r'"
  by (simp add: carried_def)

lemma carried_step:
  "getFormValue sid f r' = (if getFormValue sid f p = [] then getFormValue sid f r else getFormValue sid f p)
     \<Longrightarrow> carried sid fs p r r' \<Longrightarrow> carried sid (f # fs) p r r'"
  "carried sid [] p r r'"
  by (simp_all add: carried_def)

lemma flagged_step:
  "getFormValue sid f r' = (if is_true (getFormValue sid f p) then js ''true'' else getFormValue sid f r)
     \<Longrightarrow> flagged sid fs p r r' \<Longrightarrow> flagged sid (f # fs) p r r'"
  "flagged sid [] p r r'"
  by (simp_all add: flagged_def)

lemma holds_step:
  "getFormValue sid f r' = v \<Longrightarrow> holds sid fvs r' \<Longrightarrow> holds sid ((f, v) # fvs) r'"
  "holds sid [] r'"
  by (simp_all add: holds_def)

lemmas literals = encoded_lit unreserved_cu toLowerCase_js
lemmas params = last_param_append last_param_if Let_def or_text_def

section \<open>Exports of well-formed text succeed\<close>

lemma well_formed_latin1: "\<forall>u\<in>set s. unat u < 256 \<Longrightarrow> well_formed s"
  by (induction s rule: well_formed.induct) (auto simp: is_high_def is_low_def)

lemma well_formed_js [simp]: "well_formed (js s)"
  by (rule well_formed_latin1) (auto simp: js_def unat_unit_less)

lemma set_params_values:
  "(k, v) \<in> set (set_params ps q) \<Longrightarrow> (k, v) \<in> set q \<or> (\<exists>l. k = js l \<and> (True, l, v) \<in> set ps)"
proof (induction ps q rule: set_params.induct)
  case (2 c l w ps qm)
  have "(a, b) \<in> set (obj_put (js l) w qm) \<Longrightarrow> (a, b) \<in> set qm \<or> a = js l \<and> b = w" for a b
    by (induction "js l" w qm rule: obj_put.induct) (auto split: if_splits)
  with 2 show ?case by (cases c) auto
qed simp

lemma queryMapToString_defined:
  assumes "list_all (\<lambda>(c, k, v). k \<noteq> ''hasOwnProperty'' \<and> (c \<longrightarrow> well_formed v)) ps"
  shows "\<exists>s. queryMapToString (set_params ps []) = Some s"
proof -
  have "js ''hasOwnProperty'' \<notin> fst ` set (set_params ps [])"
  proof
    assume "js ''hasOwnProperty'' \<in> fst ` set (set_params ps [])"
    then have "''hasOwnProperty'' \<in> fst ` snd ` set ps"
      using keys_set_params [of ps "[]"] by (auto simp: image_iff; force)
    with assms show False by (auto simp: list_all_iff)
  qed
  moreover have "collect_opt (map query_pair kvs) \<noteq> None" if "set kvs \<subseteq> set (set_params ps [])" for kvs
    using that
  proof (induction kvs)
    case (Cons kv kvs)
    obtain k v where kv: "kv = (k, v)" by force
    with Cons.prems obtain l where "k = js l" "(True, l, v) \<in> set ps"
      using set_params_values [of k v ps "[]"] by auto
    with assms have "well_formed v" by (auto simp: list_all_iff)
    then have "query_pair (k, v) \<noteq> None"
      using \<open>k = js l\<close> query_pair_Some_iff [of k v] by auto
    with Cons kv show ?case by (cases "query_pair (k, v)") auto
  qed simp
  ultimately show ?thesis
    by (auto simp: queryMapToString_def map_of_eq_None_iff)
qed

lemma finish_link_defined:
  assumes "getFormValue sid ''other_parameters'' p = []" and "well_formed (getFormValue sid ''name'' p)"
    and "list_all (\<lambda>(c, k, v). k \<noteq> ''hasOwnProperty'' \<and> (c \<longrightarrow> well_formed v)) ps"
  shows "\<exists>url. finish_link sid p scheme (Some pre) keyMap (set_params ps []) = Link url"
proof -
  obtain s where "queryMapToString (set_params ps []) = Some s"
    using queryMapToString_defined [OF assms(3)] by blast
  then show ?thesis
    using assms(1,2) by (simp add: finish_link_def link_of_def query_text_def
        mergeOtherParametersToQuery_def with_name_def encode_Some)
qed

section \<open>Trojan\<close>

definition trojan_ok :: "jsstr \<Rightarrow> page \<Rightarrow> bool" where
  "trojan_ok sid p \<longleftrightarrow>
     (let v = (\<lambda>f. getFormValue sid f p)
      in v ''other_parameters'' = [] \<and> plain_part (v ''server'') \<and> plain_part (v ''port'')
         \<and> settled (v ''name'')
         \<and> (v ''obfs_trojan'' = js ''ws'' \<and> v ''ws_path'' \<noteq> [] \<and> host_ok (v ''ws_headers'')
            \<or> v ''obfs_trojan'' = js ''grpc'' \<or> v ''obfs_trojan'' = js ''none''))"

definition trojan_carries :: "jsstr \<Rightarrow> page \<Rightarrow> string list" where
  "trojan_carries sid p =
     [''server'', ''port'', ''password'', ''name'', ''sni'', ''alpn'', ''fingerprint'', ''obfs_trojan'']
     @ (if getFormValue sid ''obfs_trojan'' p = js ''ws'' then [''ws_path'', ''ws_headers''] else [])"

definition trojan_sets :: "jsstr \<Rightarrow> page \<Rightarrow> (string \<times> jsstr) list" where
  "trojan_sets sid p =
     (''type'', js ''trojan'')
     # (if getFormValue sid ''obfs_trojan'' p = js ''grpc''
        then [(''grpc_service_name'', getFormValue sid ''grpc_service_name'' p)] else [])"

lemma trojan_keys:
  "list_all (\<lambda>(c, k, v). k \<in> set [''sni'', ''alpn'', ''allowInsecure'', ''type'', ''path'', ''host'',
     ''serviceName'', ''pcs''] \<and> k \<noteq> ''hasOwnProperty'') (trojan_params sid p)"
  "list_all (\<lambda>(c, k, v). k \<notin> set [''hasOwnProperty'', ''__proto__'']) (trojan_params sid p)"
  by (simp_all add: trojan_params_def Let_def)

lemma trojan_no_throw: "reads sid p ps u q \<Longrightarrow> no_throw (trojan_writes u q)"
  by (simp add: trojan_writes_def Let_def reads_simps or_encoded)

lemma trojan_fields: "fields_of (trojan_writes u q) \<subseteq> set node_fields"
  by (simp add: trojan_writes_def Let_def name_write_def node_fields_def)

lemma trojan_type:
  assumes "reads sid p (trojan_params sid p) u q"
  shows "toLowerCase (qv q ''type'') = (if getFormValue sid ''obfs_trojan'' p \<in> {js ''ws'', js ''grpc''}
    then getFormValue sid ''obfs_trojan'' p else [])"
  by (simp add: reads_simps [OF assms] trojan_params_def Let_def last_param_append last_param_if literals)

lemma trojan_final:
  assumes reads: "reads sid p (trojan_params sid p) u q" and "u_port u = getFormValue sid ''port'' p"
    and "u_username u = encoded (getFormValue sid ''password'' p)"
    and "well_formed (getFormValue sid ''password'' p)" and ok: "trojan_ok sid p"
    and "getFormValue sid ''server'' p \<noteq> []" "getFormValue sid ''port'' p \<noteq> []" "getFormValue sid ''password'' p \<noteq> []"
    and restored: "restored sid (trojan_writes u q) r r'"
  shows "carried sid (trojan_carries sid p) p r r'" and "flagged sid [''skip_cert_verify''] p r r'"
    and "holds sid (trojan_sets sid p) r'"
proof -
  note wr = restored_at [OF restored] trojan_type [OF reads] node_fields_def trojan_writes_def Let_def
    reads_simps(1,2) [OF reads] assms(2-4,6-8) port_or_def one_or_true_def
  note rd = reads_simps(3,4) [OF reads] or_encoded
  note pr = trojan_params_def params literals assms(6-8) is_true_def
  let ?o = "getFormValue sid ''obfs_trojan'' p"
  consider (ws) "?o = js ''ws''" "getFormValue sid ''ws_path'' p \<noteq> []" "host_ok (getFormValue sid ''ws_headers'' p)"
    | (grpc) "?o = js ''grpc''" | (none) "?o = js ''none''"
    using ok by (auto simp: trojan_ok_def Let_def)
  then have "carried sid (trojan_carries sid p) p r r' \<and> holds sid (trojan_sets sid p) r'"
  proof cases
    case ws
    show ?thesis
      unfolding trojan_carries_def trojan_sets_def ws(1) simp_thms if_True append.simps
      apply (intro conjI carried_step)
      apply (simp_all add: wr ws holds_def)
      apply (simp_all add: rd)
      apply (simp_all add: pr ws host_header_cases)
      done
  next
    case grpc
    show ?thesis
      unfolding trojan_carries_def trojan_sets_def
      apply (simp add: grpc)
      apply (intro conjI carried_step holds_step)
      apply (simp_all add: wr grpc)
      apply (simp_all add: rd)
      apply (simp_all add: pr grpc)
      done
  next
    case none
    show ?thesis
      unfolding trojan_carries_def trojan_sets_def
      apply (simp add: none)
      apply (intro conjI carried_step holds_step)
      apply (simp_all add: wr none)
      apply (simp_all add: rd)
      apply (simp_all add: pr none)
      done
  qed
  then show "carried sid (trojan_carries sid p) p r r'" and "holds sid (trojan_sets sid p) r'"
    by simp_all
  show "flagged sid [''skip_cert_verify''] p r r'"
    by (intro flagged_step; simp add: wr; simp add: rd; simp add: pr)
qed

lemma parser_trojan: "parser nu nt (js ''trojan'') body url = Some (import_link nu trojan_writes trojan_unknown url)"
  by (simp add: parser_def parseTrojan_def fun_eq_iff)


definition sample :: "(string \<times> string) list \<Rightarrow> page" where
  "sample kvs = text_form (js ''node'') (\<lambda>f. js (case map_of kvs f of None \<Rightarrow> [] | Some v \<Rightarrow> v))"

lemma sample_field:
  "f \<in> set node_fields \<Longrightarrow>
     getFormValue (js ''node'') f (sample kvs) = js (case map_of kvs f of None \<Rightarrow> [] | Some v \<Rightarrow> v)"
  by (simp add: sample_def getFormValue_text_form)

lemma plain_sample: "plain_form (js ''node'') (sample kvs)"
  by (simp add: sample_def plain_form_text_form)

lemma settled_js: "CHR ''%'' \<notin> set s \<Longrightarrow> settled (js s)"
  by (simp add: settled_def decode_no_percent)

lemma plain_part_js: "list_all (\<lambda>c. c \<notin> set ''/?#:@'') s \<Longrightarrow> plain_part (js s)"
  by (auto simp: plain_part_def js_def list_all_iff)

definition trojan_sample :: page where
  "trojan_sample =
     sample [(''server'', ''example.com''), (''port'', ''443''), (''password'', ''p@ss''), (''name'', ''node 1''),
       (''sni'', ''a.example''), (''obfs_trojan'', ''ws''), (''ws_path'', ''/ws''), (''skip_cert_verify'', ''true'')]"


end
