(* ===== verification/Subconverter.thy ===== *)
theory Subconverter
  imports UrlSyntax JsJson
begin

text \<open>
  The text side of \<open>openclash/js/subconverter-version.js\<close>: the backend address and the version
  addresses tried for it, the clean-up of a version text, and what the status line shows. The
  browser's URL constructor is the parameter \<open>new_url\<close>.
\<close>

section \<open>Backend addresses\<close>

definition is_letter :: "cu \<Rightarrow> bool" where
  \<comment> \<open>the class [a-z] of a pattern with the i flag\<close>
  "is_letter u \<longleftrightarrow> 65 \<le> unat u \<and> unat u \<le> 90 \<or> 97 \<le> unat u \<and> unat u \<le> 122"

definition scheme_re :: re where
  \<comment> \<open>\<open>/^[a-z][a-z0-9+\-.]*:\/\//i\<close>\<close>
  "scheme_re =
     Seq (Cls is_letter)
       (Seq (Star (\<lambda>u. is_letter u \<or> digit u \<or> u \<in> set (js ''+-.''))) (lit ''://''))"

definition strip_slashes :: "jsstr \<Rightarrow> jsstr" where
  \<comment> \<open>\<open>.replace(/\/+$/, '')\<close>\<close>
  "strip_slashes s = rev (dropWhile (\<lambda>u. u = cu (CHR ''/'')) (rev s))"

definition strip_sub :: "jsstr \<Rightarrow> jsstr" where
  \<comment> \<open>\<open>.replace(/\/sub$/i, '')\<close>\<close>
  "strip_sub s =
     (if 4 \<le> length s \<and> test (Seq (chr (CHR ''/'')) (Seq (lit_i ''sub'') Eol)) (drop (length s - 4) s)
      then take (length s - 4) s else s)"

definition addUniqueURL :: "jsstr list \<Rightarrow> jsstr \<Rightarrow> jsstr list" where
  "addUniqueURL xs v = (if v \<in> set xs then xs else xs @ [v])"

definition buildVersionURLs :: "url_parts \<Rightarrow> jsstr list" where
  "buildVersionURLs u =
     (let path = strip_slashes (u_pathname u); pathBase = strip_sub path;
          first = (if path \<noteq> [] \<and> path \<noteq> js ''/'' \<and> pathBase \<noteq> []
                   then addUniqueURL [] (u_origin u @ pathBase @ js ''/version'') else [])
      in addUniqueURL first (u_origin u @ js ''/version''))"

datatype backend = Empty_url | Invalid_url | Backend jsstr "jsstr list"

definition normalizeBackendURL :: "(jsstr \<Rightarrow> url_parts option) \<Rightarrow> jsstr \<Rightarrow> backend" where
  "normalizeBackendURL new_url text =
     (let v = trim text in
      if v = [] then Empty_url
      else case new_url (if test scheme_re v then v else js ''https://'' @ v) of
             None \<Rightarrow> Invalid_url
           | Some u \<Rightarrow>
               if u_protocol u \<noteq> js ''http:'' \<and> u_protocol u \<noteq> js ''https:'' then Invalid_url
               else Backend (u_origin u) (buildVersionURLs u))"

section \<open>The selected backend\<close>

text \<open>A LuCI dropdown or a plain control: what \<open>readElementValue\<close> can find in it.\<close>

record control =
  k_dropdown :: bool
  k_value :: "jsstr option"
  k_selected :: "jsstr option"
  k_hidden :: "jsstr option"

definition readElementValue :: "control option \<Rightarrow> jsstr" where
  "readElementValue e =
     (case e of
        None \<Rightarrow> []
      | Some k \<Rightarrow>
          if k_dropdown k then
            (case k_value k of Some v \<Rightarrow> v
             | None \<Rightarrow> (case k_selected k of Some v \<Rightarrow> v
                        | None \<Rightarrow> (case k_hidden k of Some v \<Rightarrow> v | None \<Rightarrow> [])))
          else (case k_value k of Some v \<Rightarrow> v | None \<Rightarrow> []))"

definition getSelectedBackend :: "control option \<Rightarrow> control option \<Rightarrow> jsstr" where
  "getSelectedBackend selectEl customInputEl =
     (if selectEl = None then []
      else if readElementValue selectEl = js ''custom'' then readElementValue customInputEl
      else readElementValue selectEl)"

section \<open>The version text\<close>

definition found :: "re \<Rightarrow> jsstr \<Rightarrow> bool" where
  \<comment> \<open>an unanchored pattern: it matches at some position\<close>
  "found r s \<longleftrightarrow> list_ex (\<lambda>i. test r (drop i s)) [0..<length s + 1]"

definition markup_re :: re where
  \<comment> \<open>\<open>/<\s*\/?\s*[a-z!][^>]*>/i\<close>\<close>
  "markup_re =
     seqs [chr (CHR ''<''), Star is_ws, Opt (chr (CHR ''/'')), Star is_ws,
           Cls (\<lambda>u. is_letter u \<or> u = cu (CHR ''!'')), Star (none_of ''>''), chr (CHR ''>'')]"

definition word_at :: "jsstr \<Rightarrow> nat \<Rightarrow> bool" where
  "word_at s i \<longleftrightarrow> i < length s \<and> (is_letter (s ! i) \<or> digit (s ! i) \<or> s ! i = cu (CHR ''_''))"

definition word_boundary :: "jsstr \<Rightarrow> nat \<Rightarrow> bool" where
  \<comment> \<open>\<open>\b\<close> at position i\<close>
  "word_boundary s i \<longleftrightarrow> ((0 < i \<and> word_at s (i - 1)) \<noteq> word_at s i)"

definition version_word :: "jsstr \<Rightarrow> bool" where
  "version_word s \<longleftrightarrow>
     list_ex (\<lambda>i. word_boundary s i \<and> test (lit_i ''version'') (drop i s) \<and> word_boundary s (i + 7))
       [0..<length s + 1]"

definition number_re :: re where
  \<comment> \<open>\<open>v?\d+(?:\.\d+){1,}\<close>, of which a test needs the first repetition only\<close>
  "number_re = seqs [Opt (chr_i (CHR ''v'')), plus digit, chr (CHR ''.''), plus digit]"

definition names_version :: "jsstr \<Rightarrow> bool" where
  "names_version s \<longleftrightarrow>
     found (lit_i ''subconverter'') s \<or> found (lit_i ''backend'') s \<or> version_word s \<or> found number_re s"

definition one_line :: "jsstr \<Rightarrow> jsstr" where
  "one_line text =
     (let ls = split_on (js [CHR 0x0A]) (replace_unit (cu (CHR 0x0D)) (js [CHR 0x0A]) text)
      in trim (collapse_ws (join (js '' '') (filter (\<lambda>l. l \<noteq> []) (map trim ls)))))"

definition sanitizeVersionText :: "jsstr \<Rightarrow> jsstr" where
  "sanitizeVersionText text =
     (let t = one_line text in
      if t = [] \<or> found markup_re t \<or> 220 < length t \<or> \<not> names_version t then [] else t)"

section \<open>The status line\<close>

text \<open>
  The status element: the text of its label and text children, \<open>None\<close> where the template has no
  such child. Without a text child the message replaces the whole content.
\<close>

record status_line =
  w_hidden :: bool
  w_state :: string
  w_label :: "jsstr option"
  w_label_shown :: bool
  w_text :: "jsstr option"
  w_content :: jsstr

definition defaultLabels :: "jsstr obj" where
  "defaultLabels =
     [(js ''checking'', js ''Checking backend version...''),
      (js ''versionPrefix'', js ''Backend Version''),
      (js ''empty'', js ''Please enter backend URL''),
      (js ''invalid'', js ''Invalid backend URL''),
      (js ''unrecognized'', js ''Backend version information not detected''),
      (js ''failed'', js ''Unable to detect backend version'')]"

definition extend :: "jsstr obj \<Rightarrow> jsstr obj \<Rightarrow> jsstr obj" where
  "extend base extra =
     foldl (\<lambda>ob (k, v). obj_assign k v ob) (foldl (\<lambda>ob (k, v). obj_assign k v ob) [] (entries base))
       (entries extra)"

definition label :: "jsstr obj \<Rightarrow> string \<Rightarrow> jsstr" where
  "label ob k = (case obj_get ob (js k) of None \<Rightarrow> [] | Some v \<Rightarrow> v)"

definition renderStatus :: "string \<Rightarrow> jsstr \<Rightarrow> jsstr obj \<Rightarrow> status_line \<Rightarrow> status_line" where
  "renderStatus state message labels w =
     (let success = state = ''success'';
          w1 = w\<lparr>w_hidden := False, w_state := state,
                 w_label := map_option (\<lambda>_. if success then label labels ''versionPrefix'' @ js '':'' else [])
                              (w_label w),
                 w_label_shown := (if w_label w = None then w_label_shown w else success)\<rparr>
      in case w_text w of
           Some _ \<Rightarrow> w1\<lparr>w_text := Some message\<rparr>
         | None \<Rightarrow> w1\<lparr>w_label := None, w_content := message\<rparr>)"

definition hideStatus :: "status_line \<Rightarrow> status_line" where
  "hideStatus w = w\<lparr>w_hidden := True, w_state := ''idle''\<rparr>"

section \<open>What a version text looks like\<close>

fun single_spaced :: "jsstr \<Rightarrow> bool" where
  "single_spaced [] \<longleftrightarrow> True"
| "single_spaced [u] \<longleftrightarrow> (is_ws u \<longrightarrow> u = cu (CHR '' ''))"
| "single_spaced (u # v # s) \<longleftrightarrow> (is_ws u \<longrightarrow> u = cu (CHR '' '') \<and> \<not> is_ws v) \<and> single_spaced (v # s)"

lemma is_ws_space [simp]: "is_ws (cu (CHR '' ''))"
  by (simp add: is_ws_def word_unat_eq_iff char_code_simps)

lemma dropWhile_head: "dropWhile P s = [] \<or> \<not> P (hd (dropWhile P s))"
  by (induction s) auto

lemma collapse_head: "collapse_ws s = [] \<longleftrightarrow> s = []"
  "s \<noteq> [] \<Longrightarrow> is_ws (hd (collapse_ws s)) = is_ws (hd s)"
  by (cases s; simp)+

lemma single_spaced_Cons:
  "single_spaced (u # s) \<longleftrightarrow> (is_ws u \<longrightarrow> u = cu (CHR '' '') \<and> (s = [] \<or> \<not> is_ws (hd s))) \<and> single_spaced s"
  by (cases s) auto

lemma single_spaced_collapse: "single_spaced (collapse_ws s)"
proof (induction s rule: collapse_ws.induct)
  case (2 u s)
  have "collapse_ws (dropWhile is_ws s) = [] \<or> \<not> is_ws (hd (collapse_ws (dropWhile is_ws s)))"
    using dropWhile_head [of is_ws s] collapse_head [of "dropWhile is_ws s"] by auto
  with 2 show ?case by (simp add: single_spaced_Cons)
qed simp

lemma collapse_single_spaced: "single_spaced s \<Longrightarrow> collapse_ws s = s"
proof (induction s rule: collapse_ws.induct)
  case (2 u s)
  have "is_ws u \<Longrightarrow> dropWhile is_ws s = s"
    using 2(3) by (cases s) (auto simp: single_spaced_Cons)
  with 2 show ?case by (auto simp: single_spaced_Cons)
qed simp

lemma single_spaced_append: "single_spaced (a @ b) \<Longrightarrow> single_spaced a \<and> single_spaced b"
  by (induction a) (auto simp: single_spaced_Cons hd_append split: if_splits)

lemma single_spaced_trim: "single_spaced s \<Longrightarrow> single_spaced (trim s)"
proof -
  assume s: "single_spaced s"
  have "single_spaced (trim_start s)"
    using single_spaced_append [of "takeWhile is_ws s" "dropWhile is_ws s"] s by (simp add: trim_start_def)
  moreover have "trim_start s = rev (dropWhile is_ws (rev (trim_start s))) @ rev (takeWhile is_ws (rev (trim_start s)))"
    by (metis rev_append rev_rev_ident takeWhile_dropWhile_id)
  ultimately show "single_spaced (trim s)"
    using single_spaced_append [of "trim s"] by (metis trim_def)
qed

lemma single_spaced_units: "single_spaced s \<Longrightarrow> u \<in> set s \<Longrightarrow> is_ws u \<Longrightarrow> u = cu (CHR '' '')"
  by (induction s) (auto simp: single_spaced_Cons)

lemma trim_trim: "trim (trim s) = trim s"
proof (cases "trim s = []")
  case False
  have start: "trim_start s = [] \<or> \<not> is_ws (hd (trim_start s))"
    unfolding trim_start_def by (rule dropWhile_head)
  let ?b = "dropWhile is_ws (rev (trim_start s))"
  have b: "?b \<noteq> []" using False by (simp add: trim_def)
  then have "\<not> is_ws (hd ?b)" using dropWhile_head [of is_ws "rev (trim_start s)"] by blast
  then have last: "\<not> is_ws (last (trim s))" using b by (simp add: trim_def last_rev)
  have "trim_start s = trim s @ rev (takeWhile is_ws (rev (trim_start s)))"
    unfolding trim_def by (metis rev_append rev_rev_ident takeWhile_dropWhile_id)
  then have "hd (trim s) = hd (trim_start s)" "trim_start s \<noteq> []"
    using False by (metis hd_append2, metis append_is_Nil_conv)
  with start last False show ?thesis by (intro trim_id) auto
qed simp

lemma one_line_shape: "single_spaced (one_line t)" "trim (one_line t) = one_line t"
  by (simp_all add: one_line_def Let_def single_spaced_trim single_spaced_collapse trim_trim)

lemma one_line_id:
  assumes "single_spaced s" and "trim s = s"
  shows "one_line s = s"
proof -
  have no: "cu c \<notin> set s" if "is_ws (cu c)" "c \<noteq> CHR '' ''" for c
    using single_spaced_units [OF assms(1)] that by (metis cu_eq_iff)
  have ws: "is_ws (cu (CHR 0x0A))" "is_ws (cu (CHR 0x0D))"
    by (simp_all add: is_ws_def word_unat_eq_iff char_code_simps)
  have cr: "replace_unit (cu (CHR 0x0D)) (js [CHR 0x0A]) s = s"
    using no [OF ws(2)] by (intro replace_unit_id) simp
  have "split_on (js [CHR 0x0A]) s = [s]"
    using no [OF ws(1)] by (simp add: js_Cons)
  with cr show ?thesis
    using assms collapse_single_spaced [OF assms(1)] by (simp add: one_line_def Let_def)
qed

lemma one_line_idem: "one_line (one_line t) = one_line t"
  by (rule one_line_id [OF one_line_shape])

lemma sanitize_cases:
  "sanitizeVersionText t = [] \<or> sanitizeVersionText t = one_line t \<and> one_line t \<noteq> []
     \<and> \<not> found markup_re (one_line t) \<and> length (one_line t) \<le> 220 \<and> names_version (one_line t)"
  by (auto simp: sanitizeVersionText_def Let_def)

lemma sanitize_idem: "sanitizeVersionText (sanitizeVersionText t) = sanitizeVersionText t"
proof -
  have "one_line [] = []" by (rule one_line_id) simp_all
  then show ?thesis
    using one_line_idem [of t] by (auto simp: sanitizeVersionText_def Let_def)
qed

lemma version_urls_shape:
  "set (buildVersionURLs u) \<noteq> {} \<and> distinct (buildVersionURLs u) \<and> length (buildVersionURLs u) \<le> 2
   \<and> last (buildVersionURLs u) = u_origin u @ js ''/version''"
  by (auto simp: buildVersionURLs_def addUniqueURL_def Let_def)

text \<open>A cleaned version text has at most 220 characters, single spaces only and none at its ends,
  no markup, and cleaning it again changes nothing.\<close>

theorem version_text_shape:
  "length (sanitizeVersionText t) \<le> 220 \<and> single_spaced (sanitizeVersionText t)
   \<and> trim (sanitizeVersionText t) = sanitizeVersionText t
   \<and> \<not> found markup_re (sanitizeVersionText t)
   \<and> sanitizeVersionText (sanitizeVersionText t) = sanitizeVersionText t"
proof -
  have "trim [] = []" "\<not> found markup_re []" by code_simp+
  then show ?thesis using sanitize_cases [of t] one_line_shape [of t] sanitize_idem [of t] by auto
qed

end
