(* ===== verification/SubconverterMachine.thy ===== *)
theory SubconverterMachine
  imports Subconverter
begin

text \<open>
  The asynchronous side of \<open>openclash/js/subconverter-version.js\<close>. A lookup is a record of the
  promise chain of \<open>fetchVersionCandidates\<close>: the address being fetched, the addresses left, whether
  the fetch goes through the proxy, and whether its signal is aborted. The network is an adversary:
  it answers any pending fetch in any order, or never. \<open>handle\<close> is the widget: one event of the
  page, of the clock or of the network, and what the code does on it. A fetch that times out is a
  failed one.
\<close>

section \<open>One lookup\<close>

record request =
  r_id :: nat
  r_key :: jsstr
  r_url :: jsstr
  r_rest :: "jsstr list"
  r_proxied :: bool
  r_saw :: bool
  r_aborted :: bool

datatype result = Success jsstr | Unrecognized | Aborted

text \<open>What the network answers: an OK text or JSON body, or any failure.\<close>

datatype answer = Body jsstr | Json jval | Failure

text \<open>A lookup goes on with the next fetch, or its promise settles; a rejection is \<open>Settled None\<close>.\<close>

datatype progress = Fetching request | Settled "result option"

definition proxied_address :: "jsstr \<Rightarrow> jsstr \<Rightarrow> jsstr option" where
  "proxied_address proxyURL versionURL =
     map_option (\<lambda>e. proxyURL @ (if cu (CHR ''?'') \<in> set proxyURL then js ''&'' else js ''?'') @ js ''url='' @ e)
       (encodeURIComponent versionURL)"

definition address :: "jsstr \<Rightarrow> request \<Rightarrow> jsstr option" where
  "address proxyURL r = (if r_proxied r then proxied_address proxyURL (r_url r) else Some (r_url r))"

definition direct_result :: "jsstr \<Rightarrow> result" where
  "direct_result body =
     (let version = sanitizeVersionText body in if version = [] then Unrecognized else Success version)"

definition proxied_result :: "jval \<Rightarrow> result option" where
  \<comment> \<open>\<open>None\<close> is the error thrown by the handler of the JSON body\<close>
  "proxied_result data =
     (if \<not> truthy (Some data) then None
      else if js_get data ''status'' = Some (JStr (js ''success'')) then
        (case (if truthy (js_get data ''version'') then to_string (the (js_get data ''version'')) else Some []) of
           None \<Rightarrow> None
         | Some v \<Rightarrow> (if sanitizeVersionText v = [] then None else Some (Success (sanitizeVersionText v))))
      else if js_get data ''status'' = Some (JStr (js ''unrecognized'')) then Some Unrecognized
      else None)"

definition next_candidate :: "request \<Rightarrow> result option \<Rightarrow> progress" where
  \<comment> \<open>\<open>next()\<close> while addresses are left, else the given end of the loop\<close>
  "next_candidate r final =
     (case r_rest r of
        [] \<Rightarrow> Settled final
      | u # us \<Rightarrow>
          if r_aborted r then Settled (Some Aborted)
          else Fetching (r\<lparr>r_url := u, r_rest := us, r_proxied := False\<rparr>))"

definition candidate_result :: "result \<Rightarrow> request \<Rightarrow> progress" where
  "candidate_result res r =
     (if res = Unrecognized then next_candidate (r\<lparr>r_saw := True\<rparr>) (Some Unrecognized)
      else Settled (Some res))"

definition candidate_error :: "request \<Rightarrow> progress" where
  "candidate_error r =
     (if r_aborted r then Settled (Some Aborted)
      else next_candidate r (if r_saw r then Some Unrecognized else None))"

definition on_error :: "jsstr \<Rightarrow> request \<Rightarrow> progress" where
  \<comment> \<open>the failure of a fetch: aborted, handed to the proxy, or an error of the candidate\<close>
  "on_error proxyURL r =
     (if r_aborted r then candidate_result Aborted r
      else if r_proxied r \<or> proxyURL = [] \<or> proxied_address proxyURL (r_url r) = None
      then candidate_error r
      else Fetching (r\<lparr>r_proxied := True\<rparr>))"

definition on_answer :: "jsstr \<Rightarrow> answer \<Rightarrow> request \<Rightarrow> progress option" where
  \<comment> \<open>\<open>None\<close>: not an answer to the fetch that is pending\<close>
  "on_answer proxyURL a r =
     (case a of
        Body body \<Rightarrow> if r_proxied r then None else Some (candidate_result (direct_result body) r)
      | Json data \<Rightarrow>
          if \<not> r_proxied r then None
          else Some (case proxied_result data of
                       Some res \<Rightarrow> candidate_result res r
                     | None \<Rightarrow> on_error proxyURL r)
      | Failure \<Rightarrow> Some (on_error proxyURL r))"

section \<open>The widget\<close>

record config =
  c_new_url :: "jsstr \<Rightarrow> url_parts option"
  c_labels :: "jsstr obj"
  c_debounce :: nat
  c_cache :: nat
  c_proxy :: jsstr
  c_abort :: bool

record cached =
  e_time :: nat
  e_state :: string
  e_message :: jsstr

text \<open>The page, the clock and the variables of \<open>init\<close>. \<open>m_active\<close> is the id of the lookup that owns
  \<open>activeController\<close>; \<open>m_enabled\<close> is \<open>None\<close> without an enable checkbox.\<close>

record machine =
  m_now :: nat
  m_select :: "control option"
  m_custom :: "control option"
  m_enabled :: "bool option"
  m_timer :: "nat option"
  m_active :: "nat option"
  m_request_id :: nat
  m_requests :: "request list"
  m_cache :: "cached obj"
  m_view :: status_line

definition render :: "config \<Rightarrow> string \<Rightarrow> jsstr \<Rightarrow> machine \<Rightarrow> machine" where
  "render c state message m = m\<lparr>m_view := renderStatus state message (c_labels c) (m_view m)\<rparr>"

definition enabled :: "machine \<Rightarrow> bool" where
  "enabled m \<longleftrightarrow> m_enabled m \<noteq> Some False"

definition abort_active :: "machine \<Rightarrow> machine" where
  \<comment> \<open>\<open>if (activeController) activeController.abort()\<close>\<close>
  "abort_active m =
     m\<lparr>m_requests := map (\<lambda>r. if m_active m = Some (r_id r) then r\<lparr>r_aborted := True\<rparr> else r) (m_requests m)\<rparr>"

definition fresh :: "config \<Rightarrow> machine \<Rightarrow> jsstr \<Rightarrow> cached option" where
  "fresh c m key =
     (case obj_get (m_cache m) key of
        None \<Rightarrow> None
      | Some e \<Rightarrow> if int (m_now m) - int (e_time e) < int (c_cache c) then Some e else None)"

definition start_request :: "config \<Rightarrow> jsstr list \<Rightarrow> machine \<Rightarrow> machine" where
  "start_request c urls m =
     (let m1 = abort_active m; i = Suc (m_request_id m1);
          m2 = m1\<lparr>m_active := (if c_abort c then Some i else None), m_request_id := i\<rparr>;
          m3 = render c ''checking'' (label (c_labels c) ''checking'') m2
      in m3\<lparr>m_requests := m_requests m3 @
              [\<lparr>r_id = i, r_key = join (js ''|'') urls, r_url = hd urls, r_rest = tl urls,
                r_proxied = False, r_saw = False, r_aborted = False\<rparr>]\<rparr>)"

definition run :: "config \<Rightarrow> machine \<Rightarrow> machine" where
  "run c m0 =
     (let m = m0\<lparr>m_timer := None\<rparr> in
      if \<not> enabled m then m\<lparr>m_view := hideStatus (m_view m)\<rparr>
      else case normalizeBackendURL (c_new_url c) (getSelectedBackend (m_select m) (m_custom m)) of
             Empty_url \<Rightarrow> render c ''empty'' (label (c_labels c) ''empty'') m
           | Invalid_url \<Rightarrow> render c ''error'' (label (c_labels c) ''invalid'') m
           | Backend base urls \<Rightarrow>
               (case fresh c m (join (js ''|'') urls) of
                  Some e \<Rightarrow> render c (e_state e) (e_message e) m
                | None \<Rightarrow> start_request c urls m))"

definition schedule_run :: "config \<Rightarrow> machine \<Rightarrow> machine" where
  "schedule_run c m = m\<lparr>m_timer := Some (m_now m + c_debounce c)\<rparr>"

definition hide :: "machine \<Rightarrow> machine" where
  "hide m = (let m1 = abort_active m in m1\<lparr>m_view := hideStatus (m_view m1)\<rparr>)"

definition settle :: "config \<Rightarrow> request \<Rightarrow> result option \<Rightarrow> machine \<Rightarrow> machine" where
  \<comment> \<open>the handlers at the end of the chain in \<open>run\<close>\<close>
  "settle c r res m =
     (if r_id r \<noteq> m_request_id m then m
      else case res of
             None \<Rightarrow> render c ''error'' (label (c_labels c) ''failed'') m
           | Some Aborted \<Rightarrow> m
           | Some x \<Rightarrow>
               (let state = (case x of Success _ \<Rightarrow> ''success'' | _ \<Rightarrow> ''unrecognized'');
                    message = (case x of Success t \<Rightarrow> t | _ \<Rightarrow> label (c_labels c) ''unrecognized'')
                in render c state message
                     (m\<lparr>m_cache := obj_assign (r_key r)
                          \<lparr>e_time = m_now m, e_state = state, e_message = message\<rparr> (m_cache m)\<rparr>)))"

definition find_request :: "nat \<Rightarrow> machine \<Rightarrow> request option" where
  "find_request i m = List.find (\<lambda>r. r_id r = i) (m_requests m)"

definition drop_request :: "nat \<Rightarrow> machine \<Rightarrow> machine" where
  "drop_request i m = m\<lparr>m_requests := filter (\<lambda>r. r_id r \<noteq> i) (m_requests m)\<rparr>"

definition reply :: "config \<Rightarrow> nat \<Rightarrow> answer \<Rightarrow> machine \<Rightarrow> machine option" where
  "reply c i a m =
     (case find_request i m of
        None \<Rightarrow> None
      | Some r \<Rightarrow>
          (case on_answer (c_proxy c) a r of
             None \<Rightarrow> None
           | Some (Fetching r') \<Rightarrow>
               Some (m\<lparr>m_requests := map (\<lambda>q. if r_id q = i then r' else q) (m_requests m)\<rparr>)
           | Some (Settled res) \<Rightarrow> Some (settle c r res (drop_request i m))))"

datatype widget_event =
    Edit "control option" "control option" "bool option"
  | Tick nat
  | Changed
  | Typed
  | Timer
  | Hide
  | Answer nat answer

definition handle :: "config \<Rightarrow> widget_event \<Rightarrow> machine \<Rightarrow> machine option" where
  "handle c ev m =
     (case ev of
        Edit s k b \<Rightarrow> Some (m\<lparr>m_select := s, m_custom := k, m_enabled := b\<rparr>)
      | Tick n \<Rightarrow> Some (m\<lparr>m_now := m_now m + n\<rparr>)
      | Changed \<Rightarrow> Some (run c m)
      | Typed \<Rightarrow> Some (schedule_run c m)
      | Timer \<Rightarrow>
          (case m_timer m of
             Some t \<Rightarrow> if t \<le> m_now m then Some (run c m) else None
           | None \<Rightarrow> None)
      | Hide \<Rightarrow> Some (hide m)
      | Answer i a \<Rightarrow> reply c i a m)"

definition init :: "config \<Rightarrow> control option \<Rightarrow> control option \<Rightarrow> bool option \<Rightarrow> nat \<Rightarrow> status_line \<Rightarrow> machine" where
  "init c s k b now view =
     run c \<lparr>m_now = now, m_select = s, m_custom = k, m_enabled = b, m_timer = None, m_active = None,
            m_request_id = 0, m_requests = [], m_cache = [], m_view = view\<rparr>"

inductive reachable :: "config \<Rightarrow> machine \<Rightarrow> bool" for c where
  Init: "s \<noteq> None \<Longrightarrow> reachable c (init c s k b now view)"
| Step: "reachable c m \<Longrightarrow> handle c ev m = Some m' \<Longrightarrow> reachable c m'"

section \<open>A lookup ends\<close>

definition fetches_left :: "request \<Rightarrow> nat" where
  "fetches_left r = 2 * length (r_rest r) + (if r_proxied r then 1 else 2)"

lemmas answer_defs =
  on_answer_def on_error_def candidate_error_def candidate_result_def next_candidate_def

lemma on_answer_less:
  "on_answer p a r = Some (Fetching r') \<Longrightarrow> fetches_left r' < fetches_left r"
  by (auto simp: answer_defs fetches_left_def split: answer.splits if_splits list.splits option.splits)

lemma on_answer_same:
  "on_answer p a r = Some (Fetching r') \<Longrightarrow>
     r_id r' = r_id r \<and> r_key r' = r_key r \<and> r_aborted r' = r_aborted r"
  by (auto simp: answer_defs split: answer.splits if_splits list.splits option.splits)

lemma on_answer_failure: "on_answer p Failure r \<noteq> None"
  by (simp add: on_answer_def)

lemma on_answer_aborted:
  "on_answer p a r = Some (Fetching r') \<Longrightarrow> \<not> r_aborted r"
  by (auto simp: answer_defs split: answer.splits if_splits list.splits option.splits)

definition version_text :: "jsstr \<Rightarrow> bool" where
  "version_text t \<longleftrightarrow> t \<noteq> [] \<and> sanitizeVersionText t = t"

lemma version_text_sanitize: "sanitizeVersionText t \<noteq> [] \<Longrightarrow> version_text (sanitizeVersionText t)"
  by (simp add: version_text_def sanitize_idem)

lemma direct_result_text: "direct_result b = Success t \<Longrightarrow> version_text t"
  by (auto simp: direct_result_def Let_def version_text_sanitize split: if_splits)

lemma proxied_result_text: "proxied_result d = Some (Success t) \<Longrightarrow> version_text t"
  by (auto simp: proxied_result_def version_text_sanitize split: if_splits option.splits)

lemma on_answer_text:
  "on_answer p a r = Some (Settled (Some (Success t))) \<Longrightarrow> version_text t"
  by (auto simp: answer_defs direct_result_text proxied_result_text
      split: answer.splits if_splits list.splits option.splits)

section \<open>Invariants of the widget\<close>

definition requests_ok :: "config \<Rightarrow> machine \<Rightarrow> bool" where
  "requests_ok c m \<longleftrightarrow>
     distinct (map r_id (m_requests m))
     \<and> (\<forall>r\<in>set (m_requests m). 0 < r_id r \<and> r_id r \<le> m_request_id m
          \<and> (c_abort c \<longrightarrow> r_id r < m_request_id m \<longrightarrow> r_aborted r)
          \<and> (\<not> c_abort c \<longrightarrow> \<not> r_aborted r))
     \<and> m_active m = (if c_abort c \<and> 0 < m_request_id m then Some (m_request_id m) else None)"

definition entry_ok :: "config \<Rightarrow> machine \<Rightarrow> cached \<Rightarrow> bool" where
  "entry_ok c m e \<longleftrightarrow> e_time e \<le> m_now m
     \<and> (e_state e = ''success'' \<and> version_text (e_message e)
        \<or> e_state e = ''unrecognized'' \<and> e_message e = label (c_labels c) ''unrecognized'')"

definition cache_ok :: "config \<Rightarrow> machine \<Rightarrow> bool" where
  "cache_ok c m \<longleftrightarrow> (\<forall>k e. obj_get (m_cache m) k = Some e \<longrightarrow> entry_ok c m e)"

definition shown :: "status_line \<Rightarrow> jsstr" where
  "shown w = (case w_text w of Some t \<Rightarrow> t | None \<Rightarrow> w_content w)"

definition view_ok :: "machine \<Rightarrow> bool" where
  "view_ok m \<longleftrightarrow> (w_hidden (m_view m) \<longleftrightarrow> w_state (m_view m) = ''idle'')
     \<and> (w_state (m_view m) = ''success'' \<longrightarrow> version_text (shown (m_view m)))"

lemma render_view [simp]:
  "w_hidden (renderStatus st t ls w) = False"
  "w_state (renderStatus st t ls w) = st"
  "shown (renderStatus st t ls w) = t"
  by (simp_all add: renderStatus_def shown_def Let_def split: option.splits)

lemma hide_view [simp]:
  "w_hidden (hideStatus w)" "w_state (hideStatus w) = ''idle''" "shown (hideStatus w) = shown w"
  by (simp_all add: hideStatus_def shown_def split: option.splits)

lemma render_rest [simp]:
  "m_requests (render c s t m) = m_requests m" "m_request_id (render c s t m) = m_request_id m"
  "m_active (render c s t m) = m_active m" "m_cache (render c s t m) = m_cache m"
  "m_now (render c s t m) = m_now m" "m_timer (render c s t m) = m_timer m"
  "m_view (render c s t m) = renderStatus s t (c_labels c) (m_view m)"
  "m_select (render c s t m) = m_select m" "m_custom (render c s t m) = m_custom m"
  "m_enabled (render c s t m) = m_enabled m"
  by (simp_all add: render_def)

lemma abort_rest [simp]:
  "m_request_id (abort_active m) = m_request_id m" "m_active (abort_active m) = m_active m"
  "m_cache (abort_active m) = m_cache m" "m_now (abort_active m) = m_now m"
  "m_view (abort_active m) = m_view m" "m_timer (abort_active m) = m_timer m"
  "m_select (abort_active m) = m_select m" "m_custom (abort_active m) = m_custom m"
  "m_enabled (abort_active m) = m_enabled m"
  "map r_id (m_requests (abort_active m)) = map r_id (m_requests m)"
  by (auto simp: abort_active_def)

lemma abort_requests:
  "r \<in> set (m_requests (abort_active m)) \<longleftrightarrow>
     (\<exists>q\<in>set (m_requests m). r = (if m_active m = Some (r_id q) then q\<lparr>r_aborted := True\<rparr> else q))"
  by (auto simp: abort_active_def)

lemma abort_all:
  assumes "requests_ok c m" and "c_abort c" and "r \<in> set (m_requests (abort_active m))"
  shows "r_aborted r"
proof -
  obtain q where q: "q \<in> set (m_requests m)"
      "r = (if m_active m = Some (r_id q) then q\<lparr>r_aborted := True\<rparr> else q)"
    using assms(3) by (auto simp: abort_requests)
  then have "r_id q = m_request_id m \<or> r_aborted q" and "0 < r_id q" "r_id q \<le> m_request_id m"
    using assms(1,2) by (auto simp: requests_ok_def)
  then show ?thesis using q assms(1,2) by (auto simp: requests_ok_def)
qed

lemma requests_ok_abort: "requests_ok c m \<Longrightarrow> requests_ok c (abort_active m)"
  unfolding requests_ok_def abort_rest
  by (auto simp: abort_requests split: if_splits)

lemma requests_ok_start:
  assumes "requests_ok c m" shows "requests_ok c (start_request c us m)"
proof -
  have a: "requests_ok c (abort_active m)" using assms by (rule requests_ok_abort)
  have le: "r_id r \<le> m_request_id m" "0 < r_id r"
    if "r \<in> set (m_requests (abort_active m))" for r
    using a that by (auto simp: requests_ok_def)
  have no: "\<not> c_abort c \<Longrightarrow> r \<in> set (m_requests (abort_active m)) \<Longrightarrow> \<not> r_aborted r" for r
    using a by (auto simp: requests_ok_def)
  have "distinct (map r_id (m_requests m) @ [Suc (m_request_id m)])"
    using assms by (auto simp: requests_ok_def)
  then show ?thesis
    using le no abort_all [OF assms]
    by (auto simp: requests_ok_def start_request_def Let_def le_SucI)
qed

lemma requests_ok_frame:
  "requests_ok c m \<Longrightarrow> m_requests m' = m_requests m \<Longrightarrow> m_request_id m' = m_request_id m \<Longrightarrow>
   m_active m' = m_active m \<Longrightarrow> requests_ok c m'"
  by (simp add: requests_ok_def)

lemma fresh_timer [simp]: "fresh c (m\<lparr>m_timer := t\<rparr>) k = fresh c m k"
  by (simp add: fresh_def cong: option.case_cong)

lemma run_cases:
  obtains (off) "\<not> enabled m" "run c m = m\<lparr>m_timer := None, m_view := hideStatus (m_view m)\<rparr>"
  | (told) s t where "run c m = render c s t (m\<lparr>m_timer := None\<rparr>)" "s = ''empty'' \<or> s = ''error''"
  | (known) k e where "obj_get (m_cache m) k = Some e"
      "run c m = render c (e_state e) (e_message e) (m\<lparr>m_timer := None\<rparr>)"
  | (asks) base us where "run c m = start_request c us (m\<lparr>m_timer := None\<rparr>)"
      "normalizeBackendURL (c_new_url c) (getSelectedBackend (m_select m) (m_custom m)) = Backend base us"
proof (cases "normalizeBackendURL (c_new_url c) (getSelectedBackend (m_select m) (m_custom m))")
  case Empty_url
  then show thesis using off told by (cases "enabled m") (auto simp: run_def Let_def enabled_def)
next
  case Invalid_url
  then show thesis using off told by (cases "enabled m") (auto simp: run_def Let_def enabled_def)
next
  case (Backend base us)
  show thesis
  proof (cases "enabled m")
    case True
    show thesis
    proof (cases "fresh c m (join (js ''|'') us)")
      case None
      then show thesis using asks [of us base] Backend True by (simp add: run_def Let_def enabled_def)
    next
      case (Some e)
      then have "obj_get (m_cache m) (join (js ''|'') us) = Some e"
        by (auto simp: fresh_def split: option.splits if_splits)
      moreover have "run c m = render c (e_state e) (e_message e) (m\<lparr>m_timer := None\<rparr>)"
        using Some Backend True by (simp add: run_def Let_def enabled_def)
      ultimately show thesis by (rule known)
    qed
  qed (use off in \<open>simp add: run_def Let_def enabled_def\<close>)
qed

lemma start_rest [simp]:
  "m_cache (start_request c us m) = m_cache m" "m_now (start_request c us m) = m_now m"
  "m_request_id (start_request c us m) = Suc (m_request_id m)"
  "m_view (start_request c us m) =
     renderStatus ''checking'' (label (c_labels c) ''checking'') (c_labels c) (m_view m)"
  "m_timer (start_request c us m) = m_timer m" "m_select (start_request c us m) = m_select m"
  "m_custom (start_request c us m) = m_custom m" "m_enabled (start_request c us m) = m_enabled m"
  by (simp_all add: start_request_def Let_def render_def)

lemma run_now [simp]: "m_now (run c m) = m_now m" and run_cache [simp]: "m_cache (run c m) = m_cache m"
  by (rule run_cases [of m c]; simp)+

lemma requests_ok_run: "requests_ok c m \<Longrightarrow> requests_ok c (run c m)"
  by (rule run_cases [of m c]) (auto intro: requests_ok_frame intro!: requests_ok_start)

lemma requests_ok_hide: "requests_ok c m \<Longrightarrow> requests_ok c (hide m)"
  using requests_ok_abort [of c m] by (auto simp: hide_def Let_def intro: requests_ok_frame)

section \<open>Replies\<close>

lemma settle_rest [simp]:
  "m_requests (settle c r res m) = m_requests m" "m_request_id (settle c r res m) = m_request_id m"
  "m_active (settle c r res m) = m_active m" "m_now (settle c r res m) = m_now m"
  "m_select (settle c r res m) = m_select m" "m_custom (settle c r res m) = m_custom m"
  "m_enabled (settle c r res m) = m_enabled m"
  by (auto simp: settle_def Let_def split: option.splits result.splits)

lemma settle_stale: "r_id r \<noteq> m_request_id m \<Longrightarrow> settle c r res m = m"
  by (simp add: settle_def)

lemma drop_rest [simp]:
  "m_request_id (drop_request i m) = m_request_id m" "m_active (drop_request i m) = m_active m"
  "m_cache (drop_request i m) = m_cache m" "m_view (drop_request i m) = m_view m"
  "m_now (drop_request i m) = m_now m" "m_select (drop_request i m) = m_select m"
  "m_custom (drop_request i m) = m_custom m" "m_enabled (drop_request i m) = m_enabled m"
  "m_requests (drop_request i m) = filter (\<lambda>r. r_id r \<noteq> i) (m_requests m)"
  by (simp_all add: drop_request_def)

lemma find_request_mem: "find_request i m = Some r \<Longrightarrow> r \<in> set (m_requests m) \<and> r_id r = i"
  unfolding find_request_def by (metis (mono_tags, lifting) find_Some_iff nth_mem)

lemma find_request_none: "find_request i m = None \<longleftrightarrow> i \<notin> r_id ` set (m_requests m)"
  by (auto simp: find_request_def find_None_iff)

lemma reply_cases:
  assumes "reply c i a m = Some m'"
  obtains (more) r r' where "find_request i m = Some r" "on_answer (c_proxy c) a r = Some (Fetching r')"
      "m' = m\<lparr>m_requests := map (\<lambda>q. if r_id q = i then r' else q) (m_requests m)\<rparr>"
  | (ended) r res where "find_request i m = Some r" "on_answer (c_proxy c) a r = Some (Settled res)"
      "m' = settle c r res (drop_request i m)"
  using assms by (auto simp: reply_def split: option.splits progress.splits)

lemma requests_ok_reply:
  assumes ok: "requests_ok c m" and step: "reply c i a m = Some m'"
  shows "requests_ok c m'"
  using step
proof (cases rule: reply_cases)
  case (more r r')
  then have r: "r \<in> set (m_requests m)" "r_id r = i"
      and same: "r_id r' = r_id r" "r_aborted r' = r_aborted r"
    using find_request_mem on_answer_same by blast+
  have "map r_id (m_requests m') = map r_id (m_requests m)"
    using more r same by auto
  moreover have "q = r' \<or> q \<in> set (m_requests m)" if "q \<in> set (m_requests m')" for q
    using that more by auto
  moreover have "m_request_id m' = m_request_id m" "m_active m' = m_active m" using more by simp_all
  ultimately show ?thesis using ok r same unfolding requests_ok_def by metis
next
  case (ended r res)
  then show ?thesis using ok by (auto simp: requests_ok_def distinct_map_filter)
qed

lemma requests_ok_handle:
  assumes "requests_ok c m" and "handle c ev m = Some m'"
  shows "requests_ok c m'"
  using assms by (cases ev)
    (auto simp: handle_def schedule_run_def requests_ok_run requests_ok_hide requests_ok_reply
      intro: requests_ok_frame split: option.splits if_splits)

lemma init_requests: "requests_ok c (init c s k b now view)"
  unfolding init_def by (rule requests_ok_run) (simp add: requests_ok_def)

lemma reachable_requests: "reachable c m \<Longrightarrow> requests_ok c m"
  by (induction rule: reachable.induct) (auto intro: init_requests requests_ok_handle)

lemma entry_ok_later: "entry_ok c m e \<Longrightarrow> m_now m \<le> m_now m' \<Longrightarrow> entry_ok c m' e"
  by (auto simp: entry_ok_def)

lemma cache_ok_frame:
  "cache_ok c m \<Longrightarrow> m_cache m' = m_cache m \<Longrightarrow> m_now m \<le> m_now m' \<Longrightarrow> cache_ok c m'"
  by (auto simp: cache_ok_def intro: entry_ok_later)

lemma settle_cache:
  assumes "cache_ok c m" and "\<And>t. res = Some (Success t) \<Longrightarrow> version_text t"
  shows "cache_ok c (settle c r res m)"
  using assms
  by (auto simp: settle_def Let_def cache_ok_def entry_ok_def obj_get_assign
      split: option.splits result.splits if_splits)

lemma settle_view:
  assumes "view_ok m" and "\<And>t. res = Some (Success t) \<Longrightarrow> version_text t"
  shows "view_ok (settle c r res m)"
  using assms by (auto simp: settle_def Let_def view_ok_def split: option.splits result.splits)

lemma view_ok_frame: "view_ok m \<Longrightarrow> m_view m' = m_view m \<Longrightarrow> view_ok m'"
  by (simp add: view_ok_def)

lemma cache_ok_reply:
  assumes "cache_ok c m" and "reply c i a m = Some m'"
  shows "cache_ok c m'"
  using assms(2)
proof (cases rule: reply_cases)
  case (ended r res)
  have "cache_ok c (drop_request i m)" by (rule cache_ok_frame [OF assms(1)]) simp_all
  then show ?thesis using ended on_answer_text by (auto intro: settle_cache)
qed (use assms(1) in \<open>auto intro: cache_ok_frame\<close>)

lemma view_ok_reply:
  assumes "view_ok m" and "reply c i a m = Some m'"
  shows "view_ok m'"
  using assms(2)
proof (cases rule: reply_cases)
  case (ended r res)
  have "view_ok (drop_request i m)" by (rule view_ok_frame [OF assms(1)]) simp
  then show ?thesis using ended on_answer_text by (auto intro: settle_view)
qed (use assms(1) in \<open>auto intro: view_ok_frame\<close>)

lemma view_ok_run:
  assumes "cache_ok c m" shows "view_ok (run c m)"
proof (rule run_cases [of m c])
  fix k e assume "obj_get (m_cache m) k = Some e"
    and step: "run c m = render c (e_state e) (e_message e) (m\<lparr>m_timer := None\<rparr>)"
  then have "entry_ok c m e" using assms by (simp add: cache_ok_def)
  then show ?thesis unfolding step by (auto simp: entry_ok_def view_ok_def)
qed (auto simp: view_ok_def)

lemma hide_rest [simp]: "m_cache (hide m) = m_cache m" "m_now (hide m) = m_now m" "view_ok (hide m)"
  by (simp_all add: hide_def Let_def view_ok_def)

lemma shown_ok_handle:
  assumes "cache_ok c m" and "view_ok m" and "handle c ev m = Some m'"
  shows "cache_ok c m' \<and> view_ok m'"
  using assms
  by (cases ev)
    (auto simp: handle_def schedule_run_def view_ok_run cache_ok_reply view_ok_reply
      intro: cache_ok_frame view_ok_frame split: option.splits if_splits)

lemma init_shown: "cache_ok c (init c s k b now view) \<and> view_ok (init c s k b now view)"
proof -
  let ?m = "\<lparr>m_now = now, m_select = s, m_custom = k, m_enabled = b, m_timer = None, m_active = None,
            m_request_id = 0, m_requests = [], m_cache = [], m_view = view\<rparr>"
  have "cache_ok c ?m" by (simp add: cache_ok_def)
  then show ?thesis unfolding init_def by (auto intro: view_ok_run cache_ok_frame)
qed

lemma reachable_shown: "reachable c m \<Longrightarrow> cache_ok c m \<and> view_ok m"
  by (induction rule: reachable.induct) (auto simp: init_shown dest: shown_ok_handle)

section \<open>A network that answers every fetch\<close>

text \<open>\<open>net\<close> gives the answer to the fetch a lookup is waiting for; \<open>drive\<close> follows the lookup for at
  most \<open>n\<close> answers, \<open>serve\<close> does the same inside the widget.\<close>

type_synonym network = "request \<Rightarrow> answer"

definition fits :: "network \<Rightarrow> bool" where
  "fits net \<longleftrightarrow> (\<forall>r. case net r of Body _ \<Rightarrow> \<not> r_proxied r | Json _ \<Rightarrow> r_proxied r | Failure \<Rightarrow> True)"

fun drive :: "jsstr \<Rightarrow> network \<Rightarrow> nat \<Rightarrow> request \<Rightarrow> result option option" where
  "drive p net 0 r = None"
| "drive p net (Suc n) r =
     (case on_answer p (net r) r of
        None \<Rightarrow> None
      | Some (Fetching r') \<Rightarrow> drive p net n r'
      | Some (Settled res) \<Rightarrow> Some res)"

fun serve :: "config \<Rightarrow> network \<Rightarrow> nat \<Rightarrow> nat \<Rightarrow> machine \<Rightarrow> machine" where
  "serve c net i 0 m = m"
| "serve c net i (Suc n) m =
     (case find_request i m of
        None \<Rightarrow> m
      | Some r \<Rightarrow>
          (case handle c (Answer i (net r)) m of None \<Rightarrow> m | Some m' \<Rightarrow> serve c net i n m'))"

lemma fits_answer: "fits net \<Longrightarrow> on_answer p (net r) r \<noteq> None"
  by (auto simp: fits_def on_answer_def split: answer.splits dest: spec [of _ r])

lemma fetches_left_pos: "0 < fetches_left r"
  by (simp add: fetches_left_def)

lemma drive_total:
  "fits net \<Longrightarrow> fetches_left r \<le> n \<Longrightarrow> drive p net n r \<noteq> None"
proof (induction n arbitrary: r)
  case 0
  then show ?case using fetches_left_pos [of r] by simp
next
  case (Suc n)
  obtain pr where pr: "on_answer p (net r) r = Some pr" using fits_answer [OF Suc.prems(1)] by blast
  show ?case
  proof (cases pr)
    case (Fetching r')
    then have "fetches_left r' \<le> n" using on_answer_less [of p "net r" r r'] pr Suc.prems(2) by simp
    then show ?thesis using Suc.IH [OF Suc.prems(1)] pr Fetching by simp
  qed (simp add: pr)
qed

text \<open>The lookup as a specification: what one address gives, and the best of all of them.\<close>

record world =
  direct_body :: "jsstr \<Rightarrow> jsstr option"
  proxied_body :: "jsstr \<Rightarrow> jval option"

definition net_of :: "world \<Rightarrow> network" where
  "net_of w r =
     (if r_proxied r then (case proxied_body w (r_url r) of None \<Rightarrow> Failure | Some d \<Rightarrow> Json d)
      else (case direct_body w (r_url r) of None \<Rightarrow> Failure | Some b \<Rightarrow> Body b))"

definition version_at :: "jsstr \<Rightarrow> world \<Rightarrow> jsstr \<Rightarrow> result option" where
  "version_at p w u =
     (case direct_body w u of
        Some b \<Rightarrow> Some (direct_result b)
      | None \<Rightarrow> if p = [] \<or> proxied_address p u = None then None
                else Option.bind (proxied_body w u) proxied_result)"

definition best_version :: "result option list \<Rightarrow> result option" where
  "best_version rs =
     (case filter (\<lambda>x. x \<noteq> None \<and> x \<noteq> Some Unrecognized) rs of
        x # _ \<Rightarrow> x
      | [] \<Rightarrow> if Some Unrecognized \<in> set rs then Some Unrecognized else None)"

lemma fits_net_of: "fits (net_of w)"
  by (auto simp: fits_def net_of_def split: option.splits answer.splits)

lemma no_aborted [simp]: "direct_result b \<noteq> Aborted" "proxied_result d \<noteq> Some Aborted"
  by (auto simp: direct_result_def proxied_result_def Let_def split: option.splits)

lemma best_version_simps [simp]:
  "best_version [] = None"
  "best_version (None # rs) = best_version rs"
  "best_version (Some (Success t) # rs) = Some (Success t)"
  "best_version [Some Unrecognized] = Some Unrecognized"
  "best_version (Some Unrecognized # None # rs) = best_version (Some Unrecognized # rs)"
  "best_version (Some Unrecognized # Some Unrecognized # rs) = best_version (Some Unrecognized # rs)"
  "best_version (Some Unrecognized # Some (Success t) # rs) = Some (Success t)"
  by (simp_all add: best_version_def)

lemma next_candidate_simps [simp]:
  "r_rest r = [] \<Longrightarrow> next_candidate r x = Settled x"
  "r_rest r = u # us \<Longrightarrow> \<not> r_aborted r \<Longrightarrow>
     next_candidate r x = Fetching (r\<lparr>r_url := u, r_rest := us, r_proxied := False\<rparr>)"
  by (simp_all add: next_candidate_def)

definition seen :: "request \<Rightarrow> result option list" where
  "seen r = (if r_saw r then [Some Unrecognized] else [])"

text \<open>One address costs the lookup at most two answers; the result is the address's \<open>version_at\<close>.\<close>

definition proceed :: "request \<Rightarrow> result option \<Rightarrow> progress" where
  "proceed r x = (case x of Some res \<Rightarrow> candidate_result res r | None \<Rightarrow> candidate_error r)"

fun follow :: "jsstr \<Rightarrow> network \<Rightarrow> nat \<Rightarrow> progress \<Rightarrow> result option option" where
  "follow p net n (Settled res) = Some res"
| "follow p net n (Fetching r) = drive p net n r"

lemma follow_later: "n \<le> k \<Longrightarrow> follow p net n pr = Some x \<Longrightarrow> follow p net k pr = Some x"
proof (induction n arbitrary: k pr)
  case 0
  then show ?case by (cases pr) auto
next
  case (Suc n)
  then show ?case
  proof (cases pr)
    case (Fetching r)
    obtain k' where k: "k = Suc k'" "n \<le> k'" using Suc.prems(1) by (cases k) auto
    obtain pr' where pr': "on_answer p (net r) r = Some pr'"
      using Suc.prems(2) Fetching by (auto split: option.splits)
    have "follow p net n pr' = Some x" using Suc.prems(2) Fetching pr' by (cases pr') auto
    from Suc.IH [OF k(2) this] show ?thesis using Fetching pr' k by (cases pr') auto
  qed simp
qed

lemma drive_candidate:
  assumes r: "\<not> r_aborted r" "\<not> r_proxied r"
    and x: "\<And>b. follow p (net_of w) n (proceed (r\<lparr>r_proxied := b\<rparr>) (version_at p w (r_url r))) = Some x"
  shows "drive p (net_of w) (Suc (Suc n)) r = Some x"
proof -
  let ?f = "follow p (net_of w)"
  have step: "drive p (net_of w) (Suc k) q = ?f k pr" if "on_answer p (net_of w q) q = Some pr" for k q pr
    using that by (cases pr) auto
  have late: "?f (Suc n) pr = Some x" if "?f n pr = Some x" for pr
    using that by (rule follow_later [rotated]) simp
  have same: "r\<lparr>r_proxied := False\<rparr> = r" using r(2) by simp
  show ?thesis
  proof (cases "direct_body w (r_url r)")
    case (Some b)
    have "on_answer p (net_of w r) r = Some (proceed r (version_at p w (r_url r)))"
      using r Some by (simp add: on_answer_def net_of_def version_at_def proceed_def)
    then show ?thesis using step late x [of False] unfolding same by simp
  next
    case None
    note direct = None
    show ?thesis
    proof (cases "p = [] \<or> proxied_address p (r_url r) = None")
      case True
      then have "on_answer p (net_of w r) r = Some (proceed r (version_at p w (r_url r)))"
        using r None by (simp add: on_answer_def on_error_def net_of_def version_at_def proceed_def)
      then show ?thesis using step late x [of False] unfolding same by simp
    next
      case False
      let ?r = "r\<lparr>r_proxied := True\<rparr>"
      from False obtain a where a: "p \<noteq> []" "proxied_address p (r_url r) = Some a" by auto
      then have one: "on_answer p (net_of w r) r = Some (Fetching ?r)"
        using r direct by (simp add: on_answer_def on_error_def net_of_def)
      have two: "on_answer p (net_of w ?r) ?r = Some (proceed ?r (version_at p w (r_url r)))"
        using r direct a
        by (auto simp: on_answer_def on_error_def net_of_def version_at_def proceed_def split: option.splits)
      show ?thesis using step [OF one, of "Suc n"] step [OF two, of n] x [of True] by simp
    qed
  qed
qed

lemma version_at_cases:
  obtains (miss) "version_at p w u = None"
  | (odd) "version_at p w u = Some Unrecognized"
  | (hit) t where "version_at p w u = Some (Success t)"
proof (cases "version_at p w u")
  case (Some res)
  then have "res \<noteq> Aborted"
    by (auto simp: version_at_def bind_eq_Some_conv split: option.splits if_splits)
  with Some odd hit show thesis by (cases res) auto
qed (rule miss)

lemmas proceed_defs = proceed_def candidate_result_def candidate_error_def seen_def

lemma best_not_aborted: "best_version (map (version_at p w) us) \<noteq> Some Aborted"
proof -
  have no: "version_at p w u \<noteq> Some Aborted" for u
    by (cases rule: version_at_cases [of p w u]) simp_all
  have "x \<noteq> Some Aborted" if "filter P (map (version_at p w) us) = x # xs" for x xs P
  proof -
    have "x \<in> set (filter P (map (version_at p w) us))" by (simp add: that)
    then show ?thesis using no by auto
  qed
  then show ?thesis by (auto simp: best_version_def split: list.split)
qed

lemma drive_best:
  assumes "\<not> r_aborted r" and "\<not> r_proxied r"
  shows "drive p (net_of w) (2 + 2 * length (r_rest r)) r
       = Some (best_version (seen r @ map (version_at p w) (r_url r # r_rest r)))"
  using assms
proof (induction "r_rest r" arbitrary: r)
  case Nil
  have "follow p (net_of w) 0 (proceed (r\<lparr>r_proxied := b\<rparr>) (version_at p w (r_url r)))
      = Some (best_version (seen r @ [version_at p w (r_url r)]))" for b
    using Nil by (cases rule: version_at_cases [of p w "r_url r"]) (simp_all add: proceed_defs)
  from drive_candidate [OF Nil(2,3) this] Nil(1) [symmetric] show ?case by (simp add: numeral_2_eq_2)
next
  case (Cons u us)
  let ?next = "r\<lparr>r_url := u, r_rest := us, r_proxied := False\<rparr>"
  have rest: "r_rest r = u # us" using Cons.hyps(2) by simp
  have tail: "drive p (net_of w) (2 + 2 * length us) ?next
      = Some (best_version (seen r @ map (version_at p w) (u # us)))"
    using Cons.hyps(1) [of ?next] Cons.prems by (simp add: seen_def)
  have tail_saw: "drive p (net_of w) (2 + 2 * length us) (r\<lparr>r_saw := True, r_url := u, r_rest := us, r_proxied := False\<rparr>)
      = Some (best_version (Some Unrecognized # map (version_at p w) (u # us)))"
    using Cons.hyps(1) [of "r\<lparr>r_saw := True, r_url := u, r_rest := us, r_proxied := False\<rparr>"] Cons.prems by (simp add: seen_def)
  have "follow p (net_of w) (2 + 2 * length us) (proceed (r\<lparr>r_proxied := b\<rparr>) (version_at p w (r_url r)))
      = Some (best_version (seen r @ map (version_at p w) (r_url r # u # us)))" for b
  proof (cases rule: version_at_cases [of p w "r_url r"])
    case miss
    then show ?thesis using Cons.prems rest tail
      by (simp add: proceed_def candidate_error_def) (simp add: seen_def)
  next
    case odd
    then show ?thesis using Cons.prems rest tail_saw
      by (simp add: proceed_def candidate_result_def) (simp add: seen_def)
  qed (simp add: proceed_defs)
  from drive_candidate [OF Cons.prems this] show ?case by (simp add: rest)
qed

section \<open>The widget and its network\<close>

lemma find_map_same:
  "List.find P xs = Some r \<Longrightarrow> P r' \<Longrightarrow> List.find P (map (\<lambda>q. if P q then r' else q) xs) = Some r'"
  by (induction xs) (auto split: if_splits)

lemma serve_none: "find_request i m = None \<Longrightarrow> serve c net i n m = m"
  by (cases n) simp_all

lemma settle_same: "r_id r' = r_id r \<Longrightarrow> r_key r' = r_key r \<Longrightarrow> settle c r' = settle c r"
  by (intro ext) (simp add: settle_def cong: option.case_cong result.case_cong)

lemma find_dropped: "find_request i (settle c r res (drop_request i m)) = None"
  by (simp add: find_request_def find_None_iff)

lemma serve_drive:
  "find_request i m = Some r \<Longrightarrow> drive (c_proxy c) net n r = Some res \<Longrightarrow>
   serve c net i n m = settle c r res (drop_request i m)"
proof (induction n arbitrary: m r)
  case (Suc n)
  show ?case
  proof (cases "on_answer (c_proxy c) (net r) r")
    case None
    with Suc.prems(2) show ?thesis by simp
  next
    case (Some pr)
    show ?thesis
    proof (cases pr)
      case (Settled x)
      have "handle c (Answer i (net r)) m = Some (settle c r res (drop_request i m))"
        using Suc.prems Some Settled by (simp add: handle_def reply_def)
      then show ?thesis using Suc.prems(1) by (simp add: serve_none find_dropped)
    next
      case (Fetching r')
      let ?m = "m\<lparr>m_requests := map (\<lambda>q. if r_id q = i then r' else q) (m_requests m)\<rparr>"
      have same: "r_id r' = r_id r" "r_key r' = r_key r"
        using on_answer_same Some Fetching by blast+
      have id: "r_id r = i" using find_request_mem [OF Suc.prems(1)] by simp
      have "find_request i ?m = Some r'"
        using Suc.prems(1) same id by (auto simp: find_request_def intro: find_map_same)
      moreover have "drive (c_proxy c) net n r' = Some res"
        using Suc.prems(2) Some Fetching by simp
      ultimately have "serve c net i n ?m = settle c r' res (drop_request i ?m)" by (rule Suc.IH)
      moreover have "filter (\<lambda>q. r_id q \<noteq> i) (map (\<lambda>q. if r_id q = i then r' else q) rs)
          = filter (\<lambda>q. r_id q \<noteq> i) rs" for rs
        using same id by (induction rs) auto
      ultimately have "serve c net i n ?m = settle c r res (drop_request i m)"
        using settle_same [OF same] by (simp add: drop_request_def)
      then show ?thesis
        using Suc.prems(1) Some Fetching by (simp add: handle_def reply_def)
    qed
  qed
qed simp

lemma find_started:
  assumes "requests_ok c m"
  shows "find_request (Suc (m_request_id m)) (start_request c us m) = Some
     \<lparr>r_id = Suc (m_request_id m), r_key = join (js ''|'') us, r_url = hd us, r_rest = tl us,
      r_proxied = False, r_saw = False, r_aborted = False\<rparr>"
proof -
  have old: "r_id r \<noteq> Suc (m_request_id m)" if "r \<in> set (m_requests (abort_active m))" for r
    using requests_ok_abort [OF assms] that by (auto simp: requests_ok_def)
  have "List.find P (xs @ [x]) = Some x" if "\<forall>y\<in>set xs. \<not> P y" "P x" for P xs and x :: request
    using that by (induction xs) auto
  then show ?thesis using old by (simp add: find_request_def start_request_def Let_def)
qed

definition verdict :: "config \<Rightarrow> result option \<Rightarrow> string \<times> jsstr" where
  "verdict c v =
     (case v of
        None \<Rightarrow> (''error'', label (c_labels c) ''failed'')
      | Some (Success t) \<Rightarrow> (''success'', t)
      | Some _ \<Rightarrow> (''unrecognized'', label (c_labels c) ''unrecognized''))"

lemma settle_newest:
  assumes "r_id r = m_request_id m" and "v \<noteq> Some Aborted" and "r_key r \<noteq> js ''__proto__''"
  shows "m_view (settle c r v m) = renderStatus (fst (verdict c v)) (snd (verdict c v)) (c_labels c) (m_view m)"
    and "v \<noteq> None \<Longrightarrow> obj_get (m_cache (settle c r v m)) (r_key r)
           = Some \<lparr>e_time = m_now m, e_state = fst (verdict c v), e_message = snd (verdict c v)\<rparr>"
    and "v = None \<Longrightarrow> m_cache (settle c r v m) = m_cache m"
  using assms by (auto simp: settle_def verdict_def Let_def obj_get_assign split: option.splits result.splits)

lemma join_last: "us \<noteq> [] \<Longrightarrow> \<exists>p. join s us = p @ last us"
  by (induction s us rule: join.induct) auto

lemma version_key:
  assumes "us = buildVersionURLs u" shows "join (js ''|'') us \<noteq> js ''__proto__''"
proof -
  have "us \<noteq> []" "last us = u_origin u @ js ''/version''" using version_urls_shape [of u] assms by auto
  then obtain p where "join (js ''|'') us = p @ js ''/version''"
    using join_last [of us "js ''|''"] by auto
  then have "last (join (js ''|'') us) = cu (CHR ''n'')" by (simp add: js_Cons)
  moreover have "last (js ''__proto__'') = cu (CHR ''_'')" by (simp add: js_Cons)
  ultimately show ?thesis by (auto simp: cu_eq_iff)
qed

lemma run_served:
  assumes "requests_ok c m" and "enabled m"
    and "normalizeBackendURL (c_new_url c) (getSelectedBackend (m_select m) (m_custom m)) = Backend base us"
    and "fresh c m (join (js ''|'') us) = None"
    and "v = best_version (map (version_at (c_proxy c) w) us)"
  obtains r where "serve c (net_of w) (Suc (m_request_id m)) 4 (run c m)
        = settle c r v (drop_request (Suc (m_request_id m)) (start_request c us (m\<lparr>m_timer := None\<rparr>)))"
    and "r_id r = Suc (m_request_id m)" and "r_key r = join (js ''|'') us"
    and "r_key r \<noteq> js ''__proto__''" and "v \<noteq> Some Aborted"
proof -
  let ?m = "m\<lparr>m_timer := None\<rparr>" and ?i = "Suc (m_request_id m)"
  let ?r = "\<lparr>r_id = ?i, r_key = join (js ''|'') us, r_url = hd us, r_rest = tl us,
      r_proxied = False, r_saw = False, r_aborted = False\<rparr>"
  obtain u where u: "us = buildVersionURLs u"
    using assms(3) by (auto simp: normalizeBackendURL_def Let_def split: if_splits option.splits)
  have us: "us \<noteq> []" "length us \<le> 2" using version_urls_shape [of u] u by auto
  have run: "run c m = start_request c us ?m"
    using assms(2,3,4) by (simp add: run_def Let_def enabled_def)
  have ok: "requests_ok c ?m" using assms(1) by (simp add: requests_ok_def)
  have found: "find_request ?i (run c m) = Some ?r"
    using find_started [OF ok, of us] unfolding run by simp
  have "drive (c_proxy c) (net_of w) (2 + 2 * length (tl us)) ?r = Some v"
    using drive_best [of ?r "c_proxy c" w] us assms(5) by (simp add: seen_def)
  then have "drive (c_proxy c) (net_of w) 4 ?r = Some v"
    using follow_later [of "2 + 2 * length (tl us)" 4 "c_proxy c" "net_of w" "Fetching ?r"] us by simp
  then have "serve c (net_of w) ?i 4 (run c m) = settle c ?r v (drop_request ?i (run c m))"
    using serve_drive [OF found] by simp
  moreover have "v \<noteq> Some Aborted" unfolding assms(5) by (rule best_not_aborted)
  ultimately show thesis using that [of ?r] version_key [OF u] unfolding run by simp
qed

section \<open>Where the widget connects\<close>

definition version_urls_of :: "config \<Rightarrow> jsstr list \<Rightarrow> bool" where
  "version_urls_of c us \<longleftrightarrow>
     (\<exists>v u. c_new_url c v = Some u \<and> (u_protocol u = js ''http:'' \<or> u_protocol u = js ''https:'')
        \<and> set us \<subseteq> set (buildVersionURLs u))"

definition urls_ok :: "config \<Rightarrow> machine \<Rightarrow> bool" where
  "urls_ok c m \<longleftrightarrow>
     (\<forall>r\<in>set (m_requests m). version_urls_of c (r_url r # r_rest r)
        \<and> (r_proxied r \<longrightarrow> c_proxy c \<noteq> []))"

lemma version_urls_subset: "version_urls_of c us \<Longrightarrow> set vs \<subseteq> set us \<Longrightarrow> version_urls_of c vs"
  unfolding version_urls_of_def by blast

lemma on_answer_urls:
  "on_answer p a r = Some (Fetching r') \<Longrightarrow>
     set (r_url r' # r_rest r') \<subseteq> set (r_url r # r_rest r) \<and> (r_proxied r' \<longrightarrow> p \<noteq> [])"
  by (auto simp: answer_defs split: answer.splits if_splits list.splits option.splits)

lemma urls_ok_frame: "urls_ok c m \<Longrightarrow> m_requests m' = m_requests m \<Longrightarrow> urls_ok c m'"
  by (simp add: urls_ok_def)

lemma urls_ok_abort: "urls_ok c m \<Longrightarrow> urls_ok c (abort_active m)"
  by (auto simp: urls_ok_def abort_requests split: if_splits)

lemma urls_ok_run:
  assumes "urls_ok c m" shows "urls_ok c (run c m)"
proof (rule run_cases [of m c])
  fix base us
  assume run: "run c m = start_request c us (m\<lparr>m_timer := None\<rparr>)"
    and n: "normalizeBackendURL (c_new_url c) (getSelectedBackend (m_select m) (m_custom m)) = Backend base us"
  obtain v u where u: "c_new_url c v = Some u" "u_protocol u = js ''http:'' \<or> u_protocol u = js ''https:''"
      "us = buildVersionURLs u"
    using n by (auto simp: normalizeBackendURL_def Let_def split: if_splits option.splits)
  have "us \<noteq> []" using version_urls_shape [of u] u(3) by auto
  then have "version_urls_of c (hd us # tl us)"
    using u unfolding version_urls_of_def by (metis list.collapse order_refl)
  moreover have "urls_ok c (abort_active (m\<lparr>m_timer := None\<rparr>))"
    using urls_ok_frame [OF assms] by (intro urls_ok_abort) simp
  ultimately show ?thesis
    unfolding run start_request_def by (auto simp: urls_ok_def Let_def)
qed (auto intro: urls_ok_frame [OF assms])

lemma urls_ok_reply:
  assumes ok: "urls_ok c m" and step: "reply c i a m = Some m'"
  shows "urls_ok c m'"
  using step
proof (cases rule: reply_cases)
  case (more r r')
  then have "r \<in> set (m_requests m)" using find_request_mem by blast
  then have "version_urls_of c (r_url r # r_rest r)" using ok by (simp add: urls_ok_def)
  then have "version_urls_of c (r_url r' # r_rest r')" "r_proxied r' \<longrightarrow> c_proxy c \<noteq> []"
    using on_answer_urls [OF more(2)] version_urls_subset by blast+
  then show ?thesis using ok more by (auto simp: urls_ok_def)
next
  case (ended r res)
  then show ?thesis using ok by (auto simp: urls_ok_def)
qed

lemma urls_ok_hide: "urls_ok c m \<Longrightarrow> urls_ok c (hide m)"
  using urls_ok_abort [of c m] by (auto simp: hide_def Let_def intro: urls_ok_frame)

lemma reachable_urls: "reachable c m \<Longrightarrow> urls_ok c m"
proof (induction rule: reachable.induct)
  case (Init s k b now view)
  show ?case unfolding init_def by (rule urls_ok_run) (simp add: urls_ok_def)
next
  case (Step m ev m')
  then show ?case
    by (cases ev)
      (auto simp: handle_def schedule_run_def urls_ok_run urls_ok_hide urls_ok_reply
        intro: urls_ok_frame split: option.splits if_splits)
qed

section \<open>Properties\<close>

text \<open>C4: in every reachable state of the widget lookups have distinct ids up to \<open>requestId\<close>; where
  the browser has AbortController, all but the newest are aborted and the newest owns the active
  controller; the cache holds only recognised verdicts not younger than the clock; and the status
  line is hidden exactly in state \<open>idle\<close> and shows as a success only a cleaned version text.\<close>

theorem widget_invariant:
  assumes "reachable c m"
  shows "requests_ok c m \<and> cache_ok c m \<and> view_ok m"
  using reachable_requests [OF assms] reachable_shown [OF assms] by simp

text \<open>C16: an answer to a lookup that is not the newest one changes neither the status line nor the
  cache, and with AbortController it makes the lookup end at once, without another fetch.\<close>

theorem stale_answer:
  assumes "reachable c m" and "i \<noteq> m_request_id m" and "handle c (Answer i a) m = Some m'"
  shows "m_view m' = m_view m \<and> m_cache m' = m_cache m
    \<and> (c_abort c \<longrightarrow> m_requests m' = filter (\<lambda>r. r_id r \<noteq> i) (m_requests m))"
proof -
  have "reply c i a m = Some m'" using assms(3) by (simp add: handle_def)
  then show ?thesis
  proof (cases rule: reply_cases)
    case (more r r')
    then have "r \<in> set (m_requests m)" "r_id r = i" using find_request_mem by blast+
    moreover have "\<not> r_aborted r" using more(2) by (rule on_answer_aborted)
    ultimately have "\<not> c_abort c"
      using reachable_requests [OF assms(1)] assms(2) by (fastforce simp: requests_ok_def)
    then show ?thesis using more by simp
  next
    case (ended r res)
    have "r_id r = i" using find_request_mem [OF ended(1)] by simp
    then have "settle c r res (drop_request i m) = drop_request i m"
      using assms(2) by (intro settle_stale) simp
    then show ?thesis using ended by simp
  qed
qed

text \<open>C20: a lookup always ends: whatever the network answers to its fetches, it settles after at most
  two answers for each of its addresses.\<close>

theorem lookup_ends:
  assumes "fits net" and "\<not> r_proxied r"
  shows "drive p net (2 * (1 + length (r_rest r))) r \<noteq> None"
  using drive_total [OF assms(1), of r "2 * (1 + length (r_rest r))" p] assms(2)
  by (simp add: fetches_left_def)

text \<open>C3: \<open>run\<close> on an enabled widget with a valid backend that has no fresh cache entry shows, once
  the network has answered at most four fetches, the best of what the version addresses give: the
  first recognised version, else that no version was recognised, else that the detection failed. A
  recognised verdict is cached under the addresses with the time, and the lookup is over.\<close>

theorem run_shows_best_version:
  assumes "reachable c m" and "enabled m"
    and "normalizeBackendURL (c_new_url c) (getSelectedBackend (m_select m) (m_custom m)) = Backend base us"
    and "fresh c m (join (js ''|'') us) = None"
    and "v = best_version (map (version_at (c_proxy c) w) us)"
    and "m' = serve c (net_of w) (Suc (m_request_id m)) 4 (run c m)"
  shows "w_state (m_view m') = fst (verdict c v) \<and> shown (m_view m') = snd (verdict c v)
    \<and> \<not> w_hidden (m_view m') \<and> find_request (Suc (m_request_id m)) m' = None
    \<and> (v \<noteq> None \<longrightarrow> obj_get (m_cache m') (join (js ''|'') us)
          = Some \<lparr>e_time = m_now m, e_state = fst (verdict c v), e_message = snd (verdict c v)\<rparr>)
    \<and> (v = None \<longrightarrow> m_cache m' = m_cache m)"
proof -
  obtain r where r: "m' = settle c r v (drop_request (Suc (m_request_id m)) (start_request c us (m\<lparr>m_timer := None\<rparr>)))"
      "r_id r = Suc (m_request_id m)" "r_key r = join (js ''|'') us" "r_key r \<noteq> js ''__proto__''" "v \<noteq> Some Aborted"
    using run_served [OF reachable_requests [OF assms(1)] assms(2-5)] unfolding assms(6) by metis
  then show ?thesis
    using settle_newest [of r "drop_request (Suc (m_request_id m)) (start_request c us (m\<lparr>m_timer := None\<rparr>))" v c]
      find_dropped by simp
qed

text \<open>While the cached verdict of a lookup is younger than \<open>cacheMs\<close>, running the widget again
  on the same selection shows that verdict and starts no request.\<close>

lemma cache_answers_run:
  assumes "reachable c m" and "enabled m"
    and "normalizeBackendURL (c_new_url c) (getSelectedBackend (m_select m) (m_custom m)) = Backend base us"
    and "fresh c m (join (js ''|'') us) = None"
    and "v = best_version (map (version_at (c_proxy c) w) us)" and "v \<noteq> None"
    and "m1 = serve c (net_of w) (Suc (m_request_id m)) 4 (run c m)"
    and "handle c (Tick n) m1 = Some m2" and "n < c_cache c"
  shows "m_requests (run c m2) = m_requests m2 \<and> m_request_id (run c m2) = m_request_id m2
    \<and> w_state (m_view (run c m2)) = fst (verdict c v) \<and> shown (m_view (run c m2)) = snd (verdict c v)"
proof -
  obtain r where r: "m1 = settle c r v (drop_request (Suc (m_request_id m)) (start_request c us (m\<lparr>m_timer := None\<rparr>)))"
      "r_id r = Suc (m_request_id m)" "r_key r = join (js ''|'') us" "r_key r \<noteq> js ''__proto__''" "v \<noteq> Some Aborted"
    using run_served [OF reachable_requests [OF assms(1)] assms(2-5)] unfolding assms(7) by metis
  have "obj_get (m_cache m1) (join (js ''|'') us)
      = Some \<lparr>e_time = m_now m, e_state = fst (verdict c v), e_message = snd (verdict c v)\<rparr>"
    using settle_newest(2) [of r "drop_request (Suc (m_request_id m)) (start_request c us (m\<lparr>m_timer := None\<rparr>))" v c]
      r assms(6) by simp
  moreover have m2: "m2 = m1\<lparr>m_now := m_now m1 + n\<rparr>" using assms(8) by (simp add: handle_def)
  moreover have "m_now m1 = m_now m" using r(1) by simp
  ultimately have "fresh c m2 (join (js ''|'') us)
      = Some \<lparr>e_time = m_now m, e_state = fst (verdict c v), e_message = snd (verdict c v)\<rparr>"
    using assms(9) by (simp add: fresh_def)
  moreover have "m_select m2 = m_select m" "m_custom m2 = m_custom m" "m_enabled m2 = m_enabled m"
    using m2 r(1) by simp_all
  ultimately have "run c m2 = render c (fst (verdict c v)) (snd (verdict c v)) (m2\<lparr>m_timer := None\<rparr>)"
    using assms(2,3) by (simp add: run_def Let_def enabled_def)
  then show ?thesis by simp
qed

text \<open>Switching the widget off hides its status line but leaves a pending lookup the newest one,
  so that its answer shows the status line again although the widget is disabled.\<close>

theorem disabled_status_returns:
  assumes "find_request (m_request_id m) m = Some r" and "\<not> r_proxied r"
    and "sanitizeVersionText body \<noteq> []"
    and "handle c (Edit s k (Some False)) m = Some m0" and "handle c Changed m0 = Some m1"
    and "handle c (Answer (m_request_id m) (Body body)) m1 = Some m2"
  shows "w_hidden (m_view m1) \<and> m_enabled m2 = Some False \<and> \<not> w_hidden (m_view m2)
    \<and> w_state (m_view m2) = ''success''"
proof -
  have m0: "m0 = m\<lparr>m_select := s, m_custom := k, m_enabled := Some False\<rparr>"
    using assms(4) by (simp add: handle_def)
  have m1: "m1 = m0\<lparr>m_timer := None, m_view := hideStatus (m_view m0)\<rparr>"
    using assms(5) m0 by (simp add: handle_def run_def enabled_def)
  have "find_request (m_request_id m) m1 = Some r" "m_request_id m1 = m_request_id m"
    using assms(1) m0 m1 by (simp_all add: find_request_def)
  moreover have "on_answer (c_proxy c) (Body body) r = Some (Settled (Some (Success (sanitizeVersionText body))))"
    using assms(2,3) by (simp add: on_answer_def candidate_result_def direct_result_def)
  ultimately have "m2 = settle c r (Some (Success (sanitizeVersionText body))) (drop_request (m_request_id m) m1)"
    using assms(6) by (simp add: handle_def reply_def)
  moreover have "r_id r = m_request_id m" using find_request_mem [OF assms(1)] by simp
  ultimately show ?thesis
    using m0 m1 by (simp add: settle_def Let_def)
qed

text \<open>C24: the widget only ever contacts the version addresses of an address the browser accepted as
  http or https, either directly or through the configured proxy.\<close>

theorem contacted_addresses:
  assumes "reachable c m" and "find_request i m = Some r" and "address (c_proxy c) r = Some a"
  shows "\<exists>v u. c_new_url c v = Some u \<and> (u_protocol u = js ''http:'' \<or> u_protocol u = js ''https:'')
    \<and> (a \<in> set (buildVersionURLs u)
       \<or> c_proxy c \<noteq> [] \<and> Some a \<in> proxied_address (c_proxy c) ` set (buildVersionURLs u))"
proof -
  have "version_urls_of c (r_url r # r_rest r)" "r_proxied r \<Longrightarrow> c_proxy c \<noteq> []"
    using reachable_urls [OF assms(1)] find_request_mem [OF assms(2)] by (auto simp: urls_ok_def)
  then obtain v u where u: "c_new_url c v = Some u" "u_protocol u = js ''http:'' \<or> u_protocol u = js ''https:''"
      "r_url r \<in> set (buildVersionURLs u)" "r_proxied r \<Longrightarrow> c_proxy c \<noteq> []"
    by (auto simp: version_urls_of_def)
  then have "a \<in> set (buildVersionURLs u)
       \<or> c_proxy c \<noteq> [] \<and> Some a \<in> proxied_address (c_proxy c) ` set (buildVersionURLs u)"
    using assms(3) by (auto simp: address_def split: if_splits intro: rev_image_eqI)
  with u show ?thesis by blast
qed

section \<open>A widget to apply them to\<close>

definition demo_url :: url_parts where
  "demo_url = \<lparr>u_hash = [], u_host = js ''a.b'', u_hostname = js ''a.b'', u_href = js ''https://a.b/'',
     u_origin = js ''https://a.b'', u_pathname = js ''/'', u_port = [], u_protocol = js ''https:'',
     u_search = [], u_username = [], u_password = []\<rparr>"

definition demo :: config where
  "demo = \<lparr>c_new_url = (\<lambda>_. Some demo_url), c_labels = defaultLabels, c_debounce = 500, c_cache = 60000,
     c_proxy = [], c_abort = True\<rparr>"

definition demo_control :: control where
  "demo_control = \<lparr>k_dropdown = False, k_value = Some (js ''a.b''), k_selected = None, k_hidden = None\<rparr>"

definition demo_view :: status_line where
  "demo_view = \<lparr>w_hidden = True, w_state = ''idle'', w_label = None, w_label_shown = False,
     w_text = Some [], w_content = []\<rparr>"

definition demo_start :: machine where
  "demo_start = init demo (Some demo_control) None (Some False) 0 demo_view"

definition demo_ready :: machine where
  "demo_ready = demo_start\<lparr>m_enabled := Some True\<rparr>"

definition demo_world :: world where
  "demo_world = \<lparr>direct_body = (\<lambda>_. Some (js ''v1.0'')), proxied_body = (\<lambda>_. None)\<rparr>"

abbreviation demo_urls :: "jsstr list" where
  "demo_urls \<equiv> [js ''https://a.b'' @ js ''/version'']"

lemma demo_start_fields [simp]:
  "m_select demo_start = Some demo_control" "m_custom demo_start = None" "m_requests demo_start = []"
  "m_cache demo_start = []" "m_request_id demo_start = 0" "m_now demo_start = 0" "m_active demo_start = None"
  by (simp_all add: demo_start_def init_def run_def Let_def enabled_def)

lemma reachable_demo: "reachable demo demo_ready"
proof -
  have "reachable demo demo_start" unfolding demo_start_def by (rule Init) simp
  moreover have "handle demo (Edit (Some demo_control) None (Some True)) demo_start = Some demo_ready"
    by (simp add: handle_def demo_ready_def demo_start_def init_def run_def Let_def enabled_def)
  ultimately show ?thesis by (rule Step)
qed

lemma demo_selected: "getSelectedBackend (Some demo_control) None = js ''a.b''"
  by (simp add: getSelectedBackend_def readElementValue_def demo_control_def js_def cu_eq_iff)

lemma demo_normalize: "normalizeBackendURL (c_new_url demo) (js ''a.b'') = Backend (js ''https://a.b'') demo_urls"
proof -
  have "trim (js ''a.b'') \<noteq> []" by code_simp
  moreover have "buildVersionURLs demo_url = demo_urls"
    by (simp add: buildVersionURLs_def demo_url_def strip_slashes_def js_def addUniqueURL_def)
  ultimately show ?thesis by (simp add: normalizeBackendURL_def demo_def) (simp add: demo_url_def)
qed

lemma demo_run: "run demo demo_ready = start_request demo demo_urls (demo_ready\<lparr>m_timer := None\<rparr>)"
  using demo_normalize demo_selected
  by (simp add: run_def Let_def enabled_def demo_ready_def fresh_def)

lemma demo_version: "best_version (map (version_at (c_proxy demo) demo_world) demo_urls) = Some (Success (js ''v1.0''))"
proof -
  have "sanitizeVersionText (js ''v1.0'') = js ''v1.0''" by code_simp
  then show ?thesis by (simp add: version_at_def demo_world_def direct_result_def js_def)
qed

lemma demo_pending:
  "find_request 1 (run demo demo_ready) = Some \<lparr>r_id = 1, r_key = hd demo_urls, r_url = hd demo_urls,
     r_rest = [], r_proxied = False, r_saw = False, r_aborted = False\<rparr>"
  "m_request_id (run demo demo_ready) = 1"
  unfolding demo_run
  by (simp_all add: find_request_def start_request_def abort_active_def demo_ready_def demo_def Let_def)

lemma reachable_demo_run: "reachable demo (run demo demo_ready)"
  by (rule Step [OF reachable_demo, of Changed]) (simp add: handle_def)

theorem widget_invariant_witness:
  "requests_ok demo (run demo demo_ready) \<and> cache_ok demo (run demo demo_ready) \<and> view_ok (run demo demo_ready)
   \<and> length (m_requests (run demo demo_ready)) = 1"
  using widget_invariant [OF reachable_demo_run] unfolding demo_run
  by (simp add: start_request_def abort_active_def demo_ready_def Let_def)

definition demo_twice :: machine where
  "demo_twice = run demo (run demo demo_ready)"

lemma demo_twice: "find_request 1 demo_twice = Some \<lparr>r_id = 1, r_key = hd demo_urls, r_url = hd demo_urls,
     r_rest = [], r_proxied = False, r_saw = False, r_aborted = True\<rparr>" "m_request_id demo_twice = 2"
proof -
  have twice: "demo_twice = start_request demo demo_urls (run demo demo_ready\<lparr>m_timer := None\<rparr>)"
    using demo_normalize demo_selected unfolding demo_twice_def demo_run
    by (simp add: run_def Let_def enabled_def demo_ready_def fresh_def)
  show "find_request 1 demo_twice = Some \<lparr>r_id = 1, r_key = hd demo_urls, r_url = hd demo_urls,
     r_rest = [], r_proxied = False, r_saw = False, r_aborted = True\<rparr>" "m_request_id demo_twice = 2"
    unfolding twice demo_run
    by (simp_all add: find_request_def start_request_def abort_active_def demo_ready_def demo_def Let_def)
qed

theorem stale_answer_witness:
  "\<exists>m'. handle demo (Answer 1 Failure) demo_twice = Some m' \<and> m_view m' = m_view demo_twice
     \<and> m_requests m' = filter (\<lambda>r. r_id r \<noteq> 1) (m_requests demo_twice)"
proof -
  have reach: "reachable demo demo_twice" unfolding demo_twice_def
    by (rule Step [OF reachable_demo_run, of Changed]) (simp add: handle_def)
  have "\<exists>m'. handle demo (Answer 1 Failure) demo_twice = Some m'"
    using demo_twice by (simp add: handle_def reply_def on_answer_def on_error_def candidate_result_def)
  then obtain m' where m': "handle demo (Answer 1 Failure) demo_twice = Some m'" ..
  then show ?thesis using stale_answer [OF reach _ m'] demo_twice by (simp add: demo_def)
qed

theorem lookup_ends_witness:
  "drive [] (\<lambda>_. Failure) 4 \<lparr>r_id = 1, r_key = [], r_url = js ''a'', r_rest = [js ''b''],
     r_proxied = False, r_saw = False, r_aborted = False\<rparr> \<noteq> None"
  using lookup_ends [of "\<lambda>_. Failure" "\<lparr>r_id = 1, r_key = [], r_url = js ''a'', r_rest = [js ''b''],
     r_proxied = False, r_saw = False, r_aborted = False\<rparr>" "[]"]
  by (simp add: fits_def)

theorem run_shows_best_version_witness:
  "w_state (m_view (serve demo (net_of demo_world) 1 4 (run demo demo_ready))) = ''success''
   \<and> shown (m_view (serve demo (net_of demo_world) 1 4 (run demo demo_ready))) = js ''v1.0''"
proof -
  have "enabled demo_ready" "m_request_id demo_ready = 0" by (simp_all add: enabled_def demo_ready_def)
  moreover have "normalizeBackendURL (c_new_url demo) (getSelectedBackend (m_select demo_ready) (m_custom demo_ready))
      = Backend (js ''https://a.b'') demo_urls"
    using demo_normalize demo_selected by (simp add: demo_ready_def)
  moreover have "fresh demo demo_ready (join (js ''|'') demo_urls) = None"
    by (simp add: fresh_def demo_ready_def)
  ultimately show ?thesis
    using run_shows_best_version [OF reachable_demo _ _ _ demo_version [symmetric] refl]
    by (simp add: verdict_def)
qed

lemma cache_answers_run_witness:
  "m_request_id (run demo ((serve demo (net_of demo_world) 1 4 (run demo demo_ready))\<lparr>m_now := 5\<rparr>)) = 1
   \<and> shown (m_view (run demo ((serve demo (net_of demo_world) 1 4 (run demo demo_ready))\<lparr>m_now := 5\<rparr>)))
       = js ''v1.0''"
proof -
  let ?m1 = "serve demo (net_of demo_world) (Suc (m_request_id demo_ready)) 4 (run demo demo_ready)"
  have en: "enabled demo_ready" by (simp add: enabled_def demo_ready_def)
  have id: "m_request_id demo_ready = 0" "m_now demo_ready = 0" by (simp_all add: demo_ready_def)
  have n: "normalizeBackendURL (c_new_url demo) (getSelectedBackend (m_select demo_ready) (m_custom demo_ready))
      = Backend (js ''https://a.b'') demo_urls"
    using demo_normalize demo_selected by (simp add: demo_ready_def)
  have f: "fresh demo demo_ready (join (js ''|'') demo_urls) = None"
    by (simp add: fresh_def demo_ready_def)
  obtain r where r: "?m1 = settle demo r (Some (Success (js ''v1.0'')))
      (drop_request (Suc (m_request_id demo_ready)) (start_request demo demo_urls (demo_ready\<lparr>m_timer := None\<rparr>)))"
    using run_served [OF reachable_requests [OF reachable_demo] en n f demo_version [symmetric]] by metis
  have now: "m_now ?m1 = 0" "m_request_id ?m1 = 1" unfolding r by (simp_all add: id)
  have "handle demo (Tick 5) ?m1 = Some (?m1\<lparr>m_now := 5\<rparr>)" by (simp add: handle_def now)
  then have "m_request_id (run demo (?m1\<lparr>m_now := 5\<rparr>)) = m_request_id (?m1\<lparr>m_now := 5\<rparr>)
      \<and> shown (m_view (run demo (?m1\<lparr>m_now := 5\<rparr>))) = snd (verdict demo (Some (Success (js ''v1.0''))))"
    using cache_answers_run [OF reachable_demo en n f demo_version [symmetric] _ refl, of 5] by (simp add: demo_def)
  then show ?thesis using now id by (simp add: verdict_def)
qed

theorem disabled_status_returns_witness:
  "\<exists>m0 m1 m2. handle demo (Edit None None (Some False)) (run demo demo_ready) = Some m0
     \<and> handle demo Changed m0 = Some m1 \<and> w_hidden (m_view m1)
     \<and> handle demo (Answer 1 (Body (js ''v1.0''))) m1 = Some m2
     \<and> m_enabled m2 = Some False \<and> \<not> w_hidden (m_view m2)"
proof -
  let ?m0 = "(run demo demo_ready)\<lparr>m_select := None, m_custom := None, m_enabled := Some False\<rparr>"
  let ?m1 = "?m0\<lparr>m_timer := None, m_view := hideStatus (m_view ?m0)\<rparr>"
  have v: "sanitizeVersionText (js ''v1.0'') \<noteq> []" by code_simp
  have 0: "handle demo (Edit None None (Some False)) (run demo demo_ready) = Some ?m0"
    by (simp add: handle_def)
  have 1: "handle demo Changed ?m0 = Some ?m1"
    by (simp add: handle_def run_def enabled_def)
  have "find_request 1 ?m1 = find_request 1 (run demo demo_ready)" by (simp add: find_request_def)
  then have "\<exists>m2. handle demo (Answer 1 (Body (js ''v1.0''))) ?m1 = Some m2"
    using demo_pending v by (simp add: handle_def reply_def on_answer_def candidate_result_def direct_result_def)
  then obtain m2 where 2: "handle demo (Answer 1 (Body (js ''v1.0''))) ?m1 = Some m2" ..
  have "w_hidden (m_view ?m1) \<and> m_enabled m2 = Some False \<and> \<not> w_hidden (m_view m2)"
    using disabled_status_returns [OF _ _ v 0 1, of _ m2] demo_pending 2 by simp
  with 0 1 2 show ?thesis by blast
qed

theorem contacted_addresses_witness:
  "\<exists>v u. c_new_url demo v = Some u \<and> hd demo_urls \<in> set (buildVersionURLs u)"
proof -
  have "address (c_proxy demo) \<lparr>r_id = 1, r_key = hd demo_urls, r_url = hd demo_urls,
     r_rest = [], r_proxied = False, r_saw = False, r_aborted = False\<rparr> = Some (hd demo_urls)"
    by (simp add: address_def)
  from contacted_addresses [OF reachable_demo_run demo_pending(1) this] show ?thesis
    by (auto simp: demo_def)
qed

end
