(* ===== verification/DeviceDeletion.thy ===== *)
theory DeviceDeletion
  imports JsJson "HOL-Library.Multiset"
begin

text \<open>
  The device selection of Bandix, \<open>resources/bandix/devices.js\<close>: the set of selected devices, the
  confirmation that captures it, and the deletion in batches whose replies are validated device by
  device. A set of the source is a list without duplicates in insertion order. \<open>low\<close> is
  \<open>String.prototype.toLowerCase\<close>. The service that answers a batch is an adversary: any JSON value or
  a failed call.
\<close>

section \<open>Keys and sets\<close>

definition device_key :: "(jsstr \<Rightarrow> jsstr) \<Rightarrow> jsstr option \<Rightarrow> jsstr" where
  \<comment> \<open>\<open>String(mac || '').toLowerCase()\<close>\<close>
  "device_key low mac = low (case mac of None \<Rightarrow> [] | Some m \<Rightarrow> m)"

definition set_add :: "jsstr \<Rightarrow> jsstr list \<Rightarrow> jsstr list" where
  "set_add k ks = (if k \<in> set ks then ks else ks @ [k])"

definition set_delete :: "jsstr \<Rightarrow> jsstr list \<Rightarrow> jsstr list" where
  "set_delete k ks = filter (\<lambda>l. l \<noteq> k) ks"

section \<open>The reply to a batch\<close>

datatype del_error =
    Refused "jval option"
  | Invalid_response
  | Call_failed

record del_data =
  d_deleted :: "jsstr list"
  d_not_found :: "jsstr list"
  d_failed :: "(jsstr \<times> jval option) list"

fun account :: "(jsstr \<Rightarrow> jsstr) \<Rightarrow> (jval \<Rightarrow> jval option) \<Rightarrow> jval list \<Rightarrow> jsstr list \<Rightarrow>
    ((jsstr \<times> jval) list \<times> jsstr list) option" where
  \<comment> \<open>the entries of one field: each names a string, and that device is still to be accounted for\<close>
  "account low name [] remaining = Some ([], remaining)"
| "account low name (e # es) remaining =
     (case name e of
        Some (JStr mac) \<Rightarrow>
          if low mac \<notin> set remaining then None
          else map_option (\<lambda>(xs, rem). ((mac, e) # xs, rem)) (account low name es (set_delete (low mac) remaining))
      | _ \<Rightarrow> None)"

definition entry_mac :: "jval \<Rightarrow> jval option" where
  \<comment> \<open>\<open>entry && entry.mac\<close>\<close>
  "entry_mac e = (if truthy (Some e) then js_get e ''mac'' else Some e)"

definition field_of :: "(jsstr \<Rightarrow> jsstr) \<Rightarrow> jval \<Rightarrow> string \<Rightarrow> (jval \<Rightarrow> jval option) \<Rightarrow> jsstr list \<Rightarrow>
    ((jsstr \<times> jval) list \<times> jsstr list) option" where
  "field_of low data field name remaining =
     (case js_get data field of Some (JArr es) \<Rightarrow> account low name es remaining | _ \<Rightarrow> None)"

definition accounted :: "(jsstr \<Rightarrow> jsstr) \<Rightarrow> jval \<Rightarrow> jsstr list \<Rightarrow> del_data option" where
  "accounted low data requested =
     (case field_of low data ''deleted'' Some requested of
        None \<Rightarrow> None
      | Some (ds, r1) \<Rightarrow>
          (case field_of low data ''not_found'' Some r1 of
             None \<Rightarrow> None
           | Some (ns, r2) \<Rightarrow>
               (case field_of low data ''failed'' entry_mac r2 of
                  None \<Rightarrow> None
                | Some (fs, r3) \<Rightarrow>
                    if r3 \<noteq> [] then None
                    else Some \<lparr>d_deleted = map fst ds, d_not_found = map fst ns,
                               d_failed = map (\<lambda>(m, e). (m, js_get e ''message'')) fs\<rparr>)))"

definition result_of :: "(jsstr \<Rightarrow> jsstr) \<Rightarrow> jval \<Rightarrow> jsstr list \<Rightarrow> del_error + del_data" where
  "result_of low reply requested =
     (if \<not> truthy (Some reply) \<or> js_get reply ''status'' \<noteq> Some (JStr (js ''success''))
         \<or> \<not> truthy (js_get reply ''data'') then
        Inl (Refused (if \<not> truthy (Some reply) then None
                      else if truthy (js_get reply ''message'') then js_get reply ''message''
                      else js_get reply ''error''))
      else case accounted low (the (js_get reply ''data'')) requested of
             None \<Rightarrow> Inl Invalid_response
           | Some d \<Rightarrow> Inr d)"

section \<open>The selection and its jobs\<close>

definition batches :: "jsstr list \<Rightarrow> jsstr list list" where
  "batches macs = map (\<lambda>i. take 50 (drop (50 * i) macs)) [0..<(length macs + 49) div 50]"

record job =
  j_macs :: "jsstr list"
  j_pending :: "jsstr list list"
  j_deleted :: nat
  j_not_found :: nat
  j_failed :: nat
  j_failures :: "(jsstr \<times> jval option) list"

text \<open>\<open>p_dialog\<close> is what the open confirmation captured; a report is the notification at the end of
  a job, with its error and counts.\<close>

record picker =
  p_selected :: "jsstr list"
  p_visible :: "jsstr list"
  p_writable :: bool
  p_dialog :: "jsstr list option"
  p_job :: "job option"
  p_sent :: "jsstr list list"
  p_reports :: "(del_error option \<times> job) list"

definition busy :: "picker \<Rightarrow> bool" where
  "busy p \<longleftrightarrow> p_job p \<noteq> None"

definition set_devices :: "(jsstr \<Rightarrow> jsstr) \<Rightarrow> jsstr option list \<Rightarrow> picker \<Rightarrow> picker" where
  "set_devices low macs p =
     (let vis = foldl (\<lambda>v m. if m = None \<or> m = Some [] then v else set_add (device_key low m) v) [] macs
      in p\<lparr>p_visible := vis, p_selected := filter (\<lambda>k. k \<in> set vis) (p_selected p)\<rparr>)"

definition check_device :: "(jsstr \<Rightarrow> jsstr) \<Rightarrow> jsstr option \<Rightarrow> bool \<Rightarrow> picker \<Rightarrow> picker" where
  "check_device low mac checked p =
     (if busy p \<or> \<not> p_writable p then p
      else p\<lparr>p_selected := (if checked then set_add else set_delete) (device_key low mac) (p_selected p)\<rparr>)"

definition select_all :: "bool \<Rightarrow> picker \<Rightarrow> picker" where
  "select_all checked p =
     (if busy p \<or> \<not> p_writable p then p
      else p\<lparr>p_selected := (if checked then p_visible p else [])\<rparr>)"

definition remove_clicked :: "picker \<Rightarrow> picker" where
  "remove_clicked p =
     (if busy p \<or> \<not> p_writable p \<or> p_selected p = [] then p else p\<lparr>p_dialog := Some (p_selected p)\<rparr>)"

definition send_next :: "job \<Rightarrow> picker \<Rightarrow> picker" where
  \<comment> \<open>the next link of the promise chain: a call, or the report and the \<open>finally\<close> at its end\<close>
  "send_next j p =
     (case j_pending j of
        [] \<Rightarrow> p\<lparr>p_job := None,
                p_reports := p_reports p @ (if j_failed j = 0 then [] else [(None, j)])\<rparr>
      | b # _ \<Rightarrow> p\<lparr>p_job := Some j, p_sent := p_sent p @ [b]\<rparr>)"

definition confirmed :: "picker \<Rightarrow> picker" where
  "confirmed p =
     (case p_dialog p of
        None \<Rightarrow> p
      | Some macs \<Rightarrow>
          if busy p then p\<lparr>p_dialog := None\<rparr>
          else send_next \<lparr>j_macs = macs, j_pending = batches macs, j_deleted = 0, j_not_found = 0,
                          j_failed = 0, j_failures = []\<rparr> (p\<lparr>p_dialog := None\<rparr>))"

definition apply_data :: "(jsstr \<Rightarrow> jsstr) \<Rightarrow> del_data \<Rightarrow> job \<Rightarrow> picker \<Rightarrow> job \<times> picker" where
  "apply_data low d j p =
     (j\<lparr>j_deleted := j_deleted j + length (d_deleted d),
        j_not_found := j_not_found j + length (d_not_found d),
        j_failed := j_failed j + length (d_failed d),
        j_failures := j_failures j @ d_failed d,
        j_pending := tl (j_pending j)\<rparr>,
      p\<lparr>p_selected := foldl (\<lambda>s m. set_delete (low m) s) (p_selected p) (d_deleted d @ d_not_found d)\<rparr>)"

definition batch_reply :: "(jsstr \<Rightarrow> jsstr) \<Rightarrow> jval option \<Rightarrow> picker \<Rightarrow> picker option" where
  \<comment> \<open>\<open>None\<close> as the reply is a failed call\<close>
  "batch_reply low reply p =
     (case p_job p of
        None \<Rightarrow> None
      | Some j \<Rightarrow>
          (case (case reply of None \<Rightarrow> Inl Call_failed | Some r \<Rightarrow> result_of low r (hd (j_pending j))) of
             Inl e \<Rightarrow> Some (p\<lparr>p_job := None, p_reports := p_reports p @ [(Some e, j)]\<rparr>)
           | Inr d \<Rightarrow> (case apply_data low d j p of (j', p') \<Rightarrow> Some (send_next j' p'))))"

datatype picker_event =
    Set_devices "jsstr option list"
  | Check_device "jsstr option" bool
  | Check_all bool
  | Remove_clicked
  | Confirmed
  | Cancelled
  | Batch_reply "jval option"

definition picker_step :: "(jsstr \<Rightarrow> jsstr) \<Rightarrow> picker_event \<Rightarrow> picker \<Rightarrow> picker option" where
  "picker_step low ev p =
     (case ev of
        Set_devices ms \<Rightarrow> Some (set_devices low ms p)
      | Check_device m b \<Rightarrow> Some (check_device low m b p)
      | Check_all b \<Rightarrow> Some (select_all b p)
      | Remove_clicked \<Rightarrow> Some (remove_clicked p)
      | Confirmed \<Rightarrow> Some (confirmed p)
      | Cancelled \<Rightarrow> Some (p\<lparr>p_dialog := None\<rparr>)
      | Batch_reply r \<Rightarrow> batch_reply low r p)"

definition new_picker :: "bool \<Rightarrow> picker" where
  "new_picker w = \<lparr>p_selected = [], p_visible = [], p_writable = w, p_dialog = None, p_job = None,
     p_sent = [], p_reports = []\<rparr>"

inductive picker_reach :: "(jsstr \<Rightarrow> jsstr) \<Rightarrow> picker \<Rightarrow> bool" for low where
  New: "picker_reach low (new_picker w)"
| Event: "picker_reach low p \<Longrightarrow> picker_step low ev p = Some p' \<Longrightarrow> picker_reach low p'"

section \<open>Batches\<close>

lemma concat_slices: "concat (map (\<lambda>i. take n (drop (n * i) xs)) [0..<k]) = take (n * k) xs"
proof (induction k)
  case (Suc k)
  have "n * Suc k = n * k + n" by simp
  then show ?case using Suc by (simp add: take_add del: mult_Suc_right)
qed simp

lemma div_up: "n \<le> 50 * ((n + 49) div 50)" "i < (n + 49) div 50 \<Longrightarrow> 50 * i < n" for n :: nat
proof -
  have "50 * ((n + 49) div 50) + (n + 49) mod 50 = n + 49" "(n + 49) mod 50 < 50"
    by simp_all
  then show "n \<le> 50 * ((n + 49) div 50)" "i < (n + 49) div 50 \<Longrightarrow> 50 * i < n" by linarith+
qed

lemma concat_batches: "concat (batches macs) = macs"
proof -
  have "length macs \<le> 50 * ((length macs + 49) div 50)" by (rule div_up)
  then show ?thesis by (simp add: batches_def concat_slices)
qed

lemma batch_size: "b \<in> set (batches macs) \<Longrightarrow> b \<noteq> [] \<and> length b \<le> 50"
proof -
  assume "b \<in> set (batches macs)"
  then obtain i where i: "i < (length macs + 49) div 50" "b = take 50 (drop (50 * i) macs)"
    by (auto simp: batches_def)
  have "50 * i < length macs" using i(1) by (rule div_up)
  with i(2) show ?thesis by auto
qed

lemma length_batches: "length (batches macs) = (length macs + 49) div 50"
  by (simp add: batches_def)

section \<open>Accounting\<close>

lemma mset_set_delete: "distinct ks \<Longrightarrow> k \<in> set ks \<Longrightarrow> mset (set_delete k ks) = mset ks - {#k#}"
  unfolding set_delete_def
proof (induction ks)
  case (Cons l ks)
  have "filter (\<lambda>l. l \<noteq> k) ks = ks" if "k \<notin> set ks"
    using that by (induction ks) auto
  with Cons show ?case by (auto simp flip: mset_filter)
qed simp

lemma distinct_set_delete [simp]: "distinct ks \<Longrightarrow> distinct (set_delete k ks)"
  by (simp add: set_delete_def)

lemma distinct_set_add [simp]: "distinct ks \<Longrightarrow> distinct (set_add k ks)"
  by (simp add: set_add_def)

lemma account_mset:
  "account low name es rem = Some (xs, r) \<Longrightarrow> distinct rem \<Longrightarrow>
     distinct r \<and> mset (map (\<lambda>x. low (fst x)) xs) + mset r = mset rem \<and> map snd xs = es"
proof (induction es arbitrary: rem xs r)
  case (Cons e es)
  then obtain mac ys where mac: "name e = Some (JStr mac)" "low mac \<in> set rem"
      "account low name es (set_delete (low mac) rem) = Some (ys, r)" "xs = (mac, e) # ys"
    by (auto split: option.splits jval.splits if_splits)
  then have "distinct r \<and> mset (map (\<lambda>x. low (fst x)) ys) + mset r = mset rem - {#low mac#} \<and> map snd ys = es"
    using Cons.IH [OF mac(3)] Cons.prems(2) by (simp add: mset_set_delete)
  with mac show ?case by (simp add: insert_DiffM o_def)
qed simp

lemma account_strings:
  assumes "\<And>e. e \<in> set es \<Longrightarrow> name e = Some (JStr (mac_of e))"
  shows "distinct rem \<Longrightarrow> mset (map (\<lambda>e. low (mac_of e)) es) \<subseteq># mset rem \<Longrightarrow>
     \<exists>r. account low name es rem = Some (map (\<lambda>e. (mac_of e, e)) es, r)"
  using assms
proof (induction es arbitrary: rem)
  case (Cons e es)
  have name: "name e = Some (JStr (mac_of e))" using Cons.prems(3) by simp
  have mem: "low (mac_of e) \<in> set rem" using Cons.prems(2) by (metis list.set_intros(1) list.simps(9) mset_subset_eqD set_mset_mset)
  have "mset (map (\<lambda>e. low (mac_of e)) es) \<subseteq># mset (set_delete (low (mac_of e)) rem)"
    using Cons.prems(1,2) mem by (simp add: mset_set_delete insert_subset_eq_iff o_def)
  with Cons.IH [of "set_delete (low (mac_of e)) rem"] Cons.prems(1,3)
  obtain r where "account low name es (set_delete (low (mac_of e)) rem) = Some (map (\<lambda>e. (mac_of e, e)) es, r)"
    by auto
  with name mem show ?case by simp
qed simp

lemma field_of_mset:
  assumes "field_of low data f name rem = Some (xs, r)" and "distinct rem"
  shows "distinct r" "mset (map (\<lambda>x. low (fst x)) xs) + mset r = mset rem"
  using assms account_mset [of low name _ rem xs r]
  by (auto simp: field_of_def split: option.splits jval.splits)

lemma accounted_mset:
  assumes "accounted low data requested = Some d" and "distinct requested"
  shows "mset (map low (d_deleted d @ d_not_found d @ map fst (d_failed d))) = mset requested"
proof -
  obtain ds r1 ns r2 fs where f: "field_of low data ''deleted'' Some requested = Some (ds, r1)"
      "field_of low data ''not_found'' Some r1 = Some (ns, r2)"
      "field_of low data ''failed'' entry_mac r2 = Some (fs, [])"
      "d = \<lparr>d_deleted = map fst ds, d_not_found = map fst ns,
            d_failed = map (\<lambda>(m, e). (m, js_get e ''message'')) fs\<rparr>"
    using assms(1) by (auto simp: accounted_def split: option.splits if_splits)
  have "map fst (map (\<lambda>(m, e). (m, js_get e ''message'')) fs) = map fst fs" by auto
  then show ?thesis
    using field_of_mset [OF f(1) assms(2)] field_of_mset [OF f(2)] field_of_mset [OF f(3)] f(4)
    by (simp add: multiset.map_comp comp_def case_prod_beta')
qed

lemma result_accounted:
  "result_of low reply requested = Inr d \<Longrightarrow> \<exists>data. accounted low data requested = Some d"
  by (auto simp: result_of_def split: if_splits option.splits)

text \<open>A reply as the service writes it.\<close>

definition reply_json :: "jsstr list \<Rightarrow> jsstr list \<Rightarrow> (jsstr \<times> jval) list \<Rightarrow> jval" where
  "reply_json ds ns fs =
     JObj [(js ''status'', JStr (js ''success'')),
           (js ''data'', JObj [(js ''deleted'', JArr (map JStr ds)),
                              (js ''not_found'', JArr (map JStr ns)),
                              (js ''failed'', JArr (map (\<lambda>(m, v). JObj [(js ''mac'', JStr m), (js ''message'', v)]) fs))])]"

definition reply_data :: "jsstr list \<Rightarrow> jsstr list \<Rightarrow> (jsstr \<times> jval) list \<Rightarrow> del_data" where
  "reply_data ds ns fs = \<lparr>d_deleted = ds, d_not_found = ns, d_failed = map (\<lambda>(m, v). (m, Some v)) fs\<rparr>"

fun str_of :: "jval \<Rightarrow> jsstr" where
  "str_of (JStr s) = s"
| "str_of _ = []"

lemma account_JStr:
  assumes "distinct rem" and "mset (map low ms) \<subseteq># mset rem"
  shows "\<exists>r. account low Some (map JStr ms) rem = Some (map (\<lambda>m. (m, JStr m)) ms, r)"
proof -
  have "\<And>e. e \<in> set (map JStr ms) \<Longrightarrow> Some e = Some (JStr (str_of e))" by auto
  from account_strings [of "map JStr ms" Some str_of rem low, OF this] show ?thesis
    using assms by (simp add: o_def)
qed

lemma account_failed:
  assumes "distinct rem" and "mset (map low (map fst fs)) \<subseteq># mset rem"
  shows "\<exists>r. account low entry_mac (map (\<lambda>(m, v). JObj [(js ''mac'', JStr m), (js ''message'', v)]) fs) rem
    = Some (map (\<lambda>(m, v). (m, JObj [(js ''mac'', JStr m), (js ''message'', v)])) fs, r)"
proof -
  let ?e = "\<lambda>(m, v). JObj [(js ''mac'', JStr m), (js ''message'', v)]"
  let ?mac = "\<lambda>e. str_of (the (js_get e ''mac''))"
  have mac: "?mac (?e x) = fst x" "entry_mac (?e x) = Some (JStr (fst x))" for x
    by (cases x; simp add: entry_mac_def truthy_def js_get_def)+
  have names: "\<And>e. e \<in> set (map ?e fs) \<Longrightarrow> entry_mac e = Some (JStr (?mac e))"
    using mac by auto
  have keys: "map (\<lambda>e. low (?mac e)) (map ?e fs) = map low (map fst fs)"
    using mac(1) by simp
  have pairs: "map (\<lambda>e. (?mac e, e)) (map ?e fs) = map (\<lambda>(m, v). (m, ?e (m, v))) fs"
    using mac by (auto simp: case_prod_beta')
  show ?thesis
    using account_strings [of "map ?e fs" entry_mac ?mac rem low, OF names assms(1)] assms(2)
    unfolding keys pairs by simp
qed

lemma account_names:
  "account low name es rem = Some (xs, r) \<Longrightarrow>
     map fst xs = map (\<lambda>e. str_of (the (name e))) es \<and> map snd xs = es"
  by (induction es arbitrary: rem xs r) (auto split: option.splits jval.splits if_splits)

lemma pair_zip: "map (\<lambda>(m, e). (m, f e)) xs = zip (map fst xs) (map (\<lambda>x. f (snd x)) xs)"
  by (induction xs) auto

lemma reply_fields [simp]:
  "truthy (Some (reply_json ds ns fs))" "js_get (reply_json ds ns fs) ''status'' = Some (JStr (js ''success''))"
  "truthy (js_get (reply_json ds ns fs) ''data'')"
  "js_get (the (js_get (reply_json ds ns fs) ''data'')) ''deleted'' = Some (JArr (map JStr ds))"
  "js_get (the (js_get (reply_json ds ns fs) ''data'')) ''not_found'' = Some (JArr (map JStr ns))"
  "js_get (the (js_get (reply_json ds ns fs) ''data'')) ''failed''
     = Some (JArr (map (\<lambda>(m, v). JObj [(js ''mac'', JStr m), (js ''message'', v)]) fs))"
  by (simp_all add: reply_json_def js_get_def truthy_def)

lemma accounted_reply:
  assumes "distinct requested"
  shows "accounted low (the (js_get (reply_json ds ns fs) ''data'')) requested =
    (if mset (map low (ds @ ns @ map fst fs)) = mset requested then Some (reply_data ds ns fs) else None)"
    (is "accounted low ?data requested = _")
proof (cases "accounted low ?data requested")
  case None
  have "mset (map low (ds @ ns @ map fst fs)) \<noteq> mset requested"
  proof
    assume eq: "mset (map low (ds @ ns @ map fst fs)) = mset requested"
    then have "mset (map low ds) \<subseteq># mset requested" by (metis map_append mset_append mset_subset_eq_add_left)
    from account_JStr [OF assms this] obtain r1 where
      1: "account low Some (map JStr ds) requested = Some (map (\<lambda>m. (m, JStr m)) ds, r1)" ..
    note m1 = account_mset [OF 1 assms]
    then have "mset (map low ds) + mset r1 = mset (map low ds) + mset (map low (ns @ map fst fs))"
      using eq by (simp add: comp_def)
    then have eq1: "mset r1 = mset (map low (ns @ map fst fs))" by (simp only: add_left_cancel)
    then have "mset (map low ns) \<subseteq># mset r1" by (simp del: mset_map)
    from account_JStr [OF _ this] m1 obtain r2 where
      2: "account low Some (map JStr ns) r1 = Some (map (\<lambda>m. (m, JStr m)) ns, r2)" by blast
    note m2 = account_mset [OF 2]
    then have "mset (map low ns) + mset r2 = mset (map low ns) + mset (map low (map fst fs))"
      using eq1 m1 by (simp add: comp_def)
    then have eq2: "mset r2 = mset (map low (map fst fs))" by (simp only: add_left_cancel)
    from account_failed [of r2 low fs] eq2 m1 m2 obtain r3 where
      3: "account low entry_mac (map (\<lambda>(m, v). JObj [(js ''mac'', JStr m), (js ''message'', v)]) fs) r2
         = Some (map (\<lambda>(m, v). (m, JObj [(js ''mac'', JStr m), (js ''message'', v)])) fs, r3)" by auto
    have "mset r3 = {#}" using account_mset [OF 3] m2 m1 eq2 by (simp add: case_prod_beta' comp_def)
    with 1 2 3 None show False by (simp add: accounted_def field_of_def)
  qed
  with None show ?thesis by simp
next
  case (Some d)
  obtain ds' r1 ns' r2 fs' where f: "account low Some (map JStr ds) requested = Some (ds', r1)"
      "account low Some (map JStr ns) r1 = Some (ns', r2)"
      "account low entry_mac (map (\<lambda>(m, v). JObj [(js ''mac'', JStr m), (js ''message'', v)]) fs) r2 = Some (fs', [])"
      "d = \<lparr>d_deleted = map fst ds', d_not_found = map fst ns',
            d_failed = map (\<lambda>(m, e). (m, js_get e ''message'')) fs'\<rparr>"
    using Some by (auto simp: accounted_def field_of_def split: option.splits if_splits)
  have "map fst ds' = ds" "map fst ns' = ns"
    using account_names [OF f(1)] account_names [OF f(2)] by (simp_all add: comp_def)
  moreover have fst: "map fst fs' = map fst fs"
    using account_names [OF f(3)]
    by (simp add: comp_def case_prod_beta' entry_mac_def truthy_def js_get_def)
  moreover have "map (\<lambda>(m, e). (m, js_get e ''message'')) fs' = map (\<lambda>(m, v). (m, Some v)) fs"
  proof -
    have "map (\<lambda>x. js_get (snd x) ''message'') fs' = map (\<lambda>x. Some (snd x)) fs"
      using arg_cong [OF conjunct2 [OF account_names [OF f(3)]], of "map (\<lambda>e. js_get e ''message'')"]
      by (simp add: comp_def case_prod_beta' js_get_def)
    with fst show ?thesis by (simp add: pair_zip)
  qed
  ultimately have "d = reply_data ds ns fs" using f(4) by (simp add: reply_data_def)
  moreover from this have "mset (map low (ds @ ns @ map fst fs)) = mset requested"
    using accounted_mset [OF Some assms] by (simp add: reply_data_def comp_def case_prod_beta')
  ultimately show ?thesis using Some by simp
qed

section \<open>Jobs\<close>

definition handled :: "job \<Rightarrow> nat" where
  "handled j = j_deleted j + j_not_found j + j_failed j"

definition job_ok :: "job \<Rightarrow> bool" where
  "job_ok j \<longleftrightarrow> distinct (j_macs j) \<and> length (j_failures j) = j_failed j
     \<and> (\<exists>ok. batches (j_macs j) = ok @ j_pending j \<and> length (concat ok) = handled j)"

definition picker_ok :: "picker \<Rightarrow> bool" where
  "picker_ok p \<longleftrightarrow> distinct (p_selected p) \<and> distinct (p_visible p)
     \<and> (case p_dialog p of None \<Rightarrow> True | Some ms \<Rightarrow> distinct ms \<and> ms \<noteq> [])
     \<and> (case p_job p of None \<Rightarrow> True | Some j \<Rightarrow> job_ok j \<and> j_pending j \<noteq> [])
     \<and> (\<forall>b\<in>set (p_sent p). distinct b \<and> b \<noteq> [] \<and> length b \<le> 50)
     \<and> (\<forall>(e, j)\<in>set (p_reports p).
          if e = None then handled j = length (j_macs j) else handled j < length (j_macs j))
     \<and> (\<not> p_writable p \<longrightarrow> p_selected p = [] \<and> p_dialog p = None \<and> p_job p = None \<and> p_sent p = [])"

lemma distinct_batch: "distinct macs \<Longrightarrow> b \<in> set (batches macs) \<Longrightarrow> distinct b"
  by (auto simp: batches_def)

lemma job_total: "job_ok j \<Longrightarrow> length (j_macs j) = handled j + length (concat (j_pending j))"
  using concat_batches [of "j_macs j"]
  by (auto simp: job_ok_def) (metis concat_append length_append)

lemma pending_batch:
  "job_ok j \<Longrightarrow> b \<in> set (j_pending j) \<Longrightarrow> distinct b \<and> b \<noteq> [] \<and> length b \<le> 50"
  using batch_size [of b "j_macs j"] distinct_batch [of "j_macs j" b]
  by (auto simp: job_ok_def)

lemma pending_left: "job_ok j \<Longrightarrow> j_pending j \<noteq> [] \<Longrightarrow> handled j < length (j_macs j)"
  using job_total [of j] pending_batch [of j "hd (j_pending j)"]
  by (cases "j_pending j") (auto simp: neq_Nil_conv)

lemma accepted_size:
  assumes "result_of low reply b = Inr d" and "distinct b"
  shows "length (d_deleted d) + length (d_not_found d) + length (d_failed d) = length b"
proof -
  obtain data where "accounted low data b = Some d" using result_accounted [OF assms(1)] ..
  from accounted_mset [OF this assms(2)]
  have "size (mset (map low (d_deleted d @ d_not_found d @ map fst (d_failed d)))) = size (mset b)" by simp
  then show ?thesis by simp
qed

lemma job_ok_apply:
  assumes "job_ok j" and "j_pending j \<noteq> []" and "result_of low reply (hd (j_pending j)) = Inr d"
    and "apply_data low d j p = (j', p')"
  shows "job_ok j'"
proof -
  obtain b bs where b: "j_pending j = b # bs" using assms(2) by (cases "j_pending j") auto
  have size: "length (d_deleted d) + length (d_not_found d) + length (d_failed d) = length b"
    using accepted_size [OF assms(3)] pending_batch [OF assms(1), of b] b by simp
  obtain ok where ok: "batches (j_macs j) = ok @ b # bs" "length (concat ok) = handled j"
    using assms(1) b by (auto simp: job_ok_def)
  have "batches (j_macs j) = (ok @ [b]) @ bs" "length (concat (ok @ [b])) = handled j + length b"
    using ok by simp_all
  then show ?thesis
    using assms(1,4) b size unfolding job_ok_def apply_data_def handled_def by fastforce
qed

lemma send_next_ok:
  assumes "picker_ok (p\<lparr>p_job := None\<rparr>)" and "job_ok j" and "p_writable p"
  shows "picker_ok (send_next j p)"
proof (cases "j_pending j")
  case Nil
  then have "handled j = length (j_macs j)" using job_total [OF assms(2)] by simp
  then show ?thesis using assms Nil by (auto simp: picker_ok_def send_next_def)
next
  case (Cons b bs)
  then show ?thesis
    using assms pending_batch [OF assms(2), of b] by (auto simp: picker_ok_def send_next_def)
qed

lemma distinct_foldl_delete: "distinct s \<Longrightarrow> distinct (foldl (\<lambda>s m. set_delete (low m) s) s ms)"
  by (induction ms arbitrary: s) auto

lemma distinct_foldl_add:
  "distinct v \<Longrightarrow> distinct (foldl (\<lambda>v m. if P m then v else set_add (f m) v) v ms)"
  by (induction ms arbitrary: v) auto

lemma batch_reply_ok:
  assumes "picker_ok p" and "batch_reply low r p = Some p'"
  shows "picker_ok p'"
proof -
  obtain j where j: "p_job p = Some j" using assms(2) by (auto simp: batch_reply_def split: option.splits)
  have ok: "job_ok j" "j_pending j \<noteq> []" "p_writable p" using assms(1) j by (auto simp: picker_ok_def)
  have idle: "picker_ok (p\<lparr>p_selected := s, p_job := None\<rparr>)" if "distinct s" for s
    using assms(1) ok(3) that by (auto simp: picker_ok_def)
  show ?thesis
  proof (cases "case r of None \<Rightarrow> Inl Call_failed | Some r \<Rightarrow> result_of low r (hd (j_pending j))")
    case (Inl e)
    then have "p' = p\<lparr>p_job := None, p_reports := p_reports p @ [(Some e, j)]\<rparr>"
      using assms(2) j by (simp add: batch_reply_def)
    then show ?thesis using assms(1) pending_left [OF ok(1,2)] by (auto simp: picker_ok_def)
  next
    case (Inr d)
    obtain j1 p1 where a: "apply_data low d j p = (j1, p1)" by fastforce
    then have p': "p' = send_next j1 p1" using assms(2) j Inr by (simp add: batch_reply_def)
    obtain reply where "result_of low reply (hd (j_pending j)) = Inr d" using Inr by (auto split: option.splits)
    from job_ok_apply [OF ok(1,2) this a] have "job_ok j1" .
    moreover define s where "s = foldl (\<lambda>s m. set_delete (low m) s) (p_selected p) (d_deleted d @ d_not_found d)"
    moreover have p1: "p1 = p\<lparr>p_selected := s\<rparr>" using a by (simp add: apply_data_def s_def)
    moreover have "distinct s"
      unfolding s_def using assms(1) by (intro distinct_foldl_delete) (simp add: picker_ok_def)
    moreover have "p_writable p1" using p1 ok(3) by simp
    moreover have "picker_ok (p1\<lparr>p_job := None\<rparr>)" unfolding p1 by (rule idle) fact
    ultimately show ?thesis unfolding p' by (intro send_next_ok)
  qed
qed

lemma new_job_ok: "distinct macs \<Longrightarrow> job_ok \<lparr>j_macs = macs, j_pending = batches macs, j_deleted = 0,
    j_not_found = 0, j_failed = 0, j_failures = []\<rparr>"
  by (simp add: job_ok_def handled_def)

lemma picker_ok_selected:
  "picker_ok p \<Longrightarrow> distinct s \<Longrightarrow> (\<not> p_writable p \<Longrightarrow> s = []) \<Longrightarrow> picker_ok (p\<lparr>p_selected := s\<rparr>)"
  by (simp add: picker_ok_def)

lemma picker_ok_visible: "picker_ok p \<Longrightarrow> distinct v \<Longrightarrow> picker_ok (p\<lparr>p_visible := v\<rparr>)"
  by (simp add: picker_ok_def)

lemma picker_ok_dialog:
  "picker_ok p \<Longrightarrow> p_writable p \<Longrightarrow> distinct ms \<Longrightarrow> ms \<noteq> [] \<Longrightarrow> picker_ok (p\<lparr>p_dialog := Some ms\<rparr>)"
  "picker_ok p \<Longrightarrow> picker_ok (p\<lparr>p_dialog := None\<rparr>)"
  by (simp_all add: picker_ok_def)

lemma picker_okD:
  "picker_ok p \<Longrightarrow> distinct (p_selected p)" "picker_ok p \<Longrightarrow> distinct (p_visible p)"
  "picker_ok p \<Longrightarrow> \<not> p_writable p \<Longrightarrow> p_selected p = []"
  by (simp_all add: picker_ok_def)

lemma confirmed_ok:
  assumes "picker_ok p" shows "picker_ok (confirmed p)"
proof (cases "p_dialog p = None \<or> busy p")
  case True
  then show ?thesis using picker_ok_dialog(2) [OF assms] assms
    by (auto simp: confirmed_def split: option.splits)
next
  case False
  then obtain macs where m: "p_dialog p = Some macs" "p_job p = None" by (auto simp: busy_def)
  have "picker_ok ((p\<lparr>p_dialog := None\<rparr>)\<lparr>p_job := None\<rparr>)" "p_writable (p\<lparr>p_dialog := None\<rparr>)" "distinct macs"
    using assms m by (auto simp: picker_ok_def)
  then show ?thesis
    using m send_next_ok new_job_ok by (simp add: confirmed_def busy_def)
qed

lemma set_devices_ok:
  assumes "picker_ok p" shows "picker_ok (set_devices low ms p)"
proof -
  define vis where "vis = foldl (\<lambda>v m. if m = None \<or> m = Some [] then v else set_add (device_key low m) v) [] ms"
  have "set_devices low ms p = (p\<lparr>p_visible := vis\<rparr>)\<lparr>p_selected := filter (\<lambda>k. k \<in> set vis) (p_selected p)\<rparr>"
    by (simp add: set_devices_def vis_def Let_def)
  moreover have "distinct vis" unfolding vis_def by (rule distinct_foldl_add) simp
  ultimately show ?thesis
    using picker_okD [OF assms] assms by (auto intro!: picker_ok_selected picker_ok_visible)
qed

lemma selection_ok:
  assumes "picker_ok p"
  shows "picker_ok (check_device low m b p)" "picker_ok (select_all b p)" "picker_ok (remove_clicked p)"
  using assms picker_okD [OF assms]
  by (auto simp: check_device_def select_all_def remove_clicked_def intro: picker_ok_selected picker_ok_dialog)

lemma picker_step_ok:
  assumes "picker_ok p" and "picker_step low ev p = Some p'"
  shows "picker_ok p'"
  using assms
  by (cases ev)
    (auto simp: picker_step_def set_devices_ok selection_ok confirmed_ok picker_ok_dialog
      intro: batch_reply_ok)

lemma picker_reach_ok: "picker_reach low p \<Longrightarrow> picker_ok p"
proof (induction rule: picker_reach.induct)
  case (New w)
  show ?case by (simp add: new_picker_def picker_ok_def)
qed (rule picker_step_ok)

section \<open>Properties\<close>



text \<open>C7: whatever the page and the service do, every call names between one and fifty different
  devices, a read-only session never selects, asks or calls, and a report without an error accounts
  for all devices of its job while one with an error leaves some unaccounted.\<close>

theorem deletion_safe:
  assumes "picker_reach low p"
  shows "(\<forall>b\<in>set (p_sent p). distinct b \<and> b \<noteq> [] \<and> length b \<le> 50)
    \<and> (\<not> p_writable p \<longrightarrow> p_selected p = [] \<and> p_dialog p = None \<and> p_sent p = [])
    \<and> (\<forall>(e, j)\<in>set (p_reports p).
         j_deleted j + j_not_found j + j_failed j \<le> length (j_macs j)
         \<and> (e = None \<longleftrightarrow> j_deleted j + j_not_found j + j_failed j = length (j_macs j)))"
proof -
  have ok: "picker_ok p" using assms by (rule picker_reach_ok)
  then have "\<forall>(e, j)\<in>set (p_reports p).
      if e = None then handled j = length (j_macs j) else handled j < length (j_macs j)"
    by (simp add: picker_ok_def)
  then have "\<forall>(e, j)\<in>set (p_reports p).
      handled j \<le> length (j_macs j) \<and> (e = None \<longleftrightarrow> handled j = length (j_macs j))"
    by (auto split: if_splits)
  with ok show ?thesis by (simp add: picker_ok_def handled_def)
qed

fun answer_all :: "(jsstr \<Rightarrow> jsstr) \<Rightarrow> jval list \<Rightarrow> picker \<Rightarrow> picker option" where
  "answer_all low [] p = Some p"
| "answer_all low (r # rs) p = Option.bind (picker_step low (Batch_reply (Some r)) p) (answer_all low rs)"

lemma foldl_delete_subset: "set (foldl (\<lambda>s m. set_delete (low m) s) x ms) \<subseteq> set x"
proof (induction ms arbitrary: x)
  case (Cons m ms)
  show ?case using Cons [of "set_delete (low m) x"] by (auto simp: set_delete_def)
qed simp

lemma answer_job:
  assumes "list_all2 (\<lambda>r b. \<exists>d. result_of low r b = Inr d) (r # rs) bs"
    and "p_job p = Some j" and "j_pending j = bs" and "p_sent p = s @ [hd bs]"
  shows "\<exists>p'. answer_all low (r # rs) p = Some p' \<and> p_job p' = None \<and> p_sent p' = s @ bs
    \<and> set (p_selected p') \<subseteq> set (p_selected p)"
  using assms
proof (induction rs arbitrary: r bs p j s)
  case Nil
  then obtain b d where b: "bs = [b]" "result_of low r b = Inr d"
    by (auto simp: list_all2_Cons1)
  obtain j' p' where a: "apply_data low d j p = (j', p')" by fastforce
  have "set (p_selected p') \<subseteq> set (p_selected p)" "j_pending j' = []" "p_sent p' = p_sent p"
    using a Nil.prems(3) b(1) foldl_delete_subset [of low "p_selected p" "d_deleted d @ d_not_found d"]
    by (auto simp: apply_data_def simp del: foldl_append)
  then show ?case using Nil.prems b a by (simp add: picker_step_def batch_reply_def send_next_def)
next
  case (Cons r2 rs)
  obtain b bs' d where b: "bs = b # bs'" "result_of low r b = Inr d"
      "list_all2 (\<lambda>r b. \<exists>d. result_of low r b = Inr d) (r2 # rs) bs'"
    using Cons.prems(1) by (auto simp: list_all2_Cons1)
  then obtain b2 bs2 where bs': "bs' = b2 # bs2" by (auto simp: list_all2_Cons1)
  obtain j' p' where a: "apply_data low d j p = (j', p')" by fastforce
  have sel: "set (p_selected p') \<subseteq> set (p_selected p)" and j': "j_pending j' = bs'" and sent: "p_sent p' = p_sent p"
    using a Cons.prems(3) b(1) foldl_delete_subset [of low "p_selected p" "d_deleted d @ d_not_found d"]
    by (auto simp: apply_data_def simp del: foldl_append)
  let ?p = "p'\<lparr>p_job := Some j', p_sent := p_sent p' @ [b2]\<rparr>"
  have step: "picker_step low (Batch_reply (Some r)) p = Some ?p"
    using Cons.prems b a j' bs' by (simp add: picker_step_def batch_reply_def send_next_def)
  have "\<exists>q. answer_all low (r2 # rs) ?p = Some q \<and> p_job q = None \<and> p_sent q = (s @ [b]) @ bs'
      \<and> set (p_selected q) \<subseteq> set (p_selected ?p)"
    using b(3) by (rule Cons.IH [of r2 bs' ?p j' "s @ [b]"]) (use j' bs' sent Cons.prems(4) b(1) in simp_all)
  then show ?case using step sel b(1) by auto
qed

text \<open>C34: confirming a captured selection and having every batch accepted sends the captured devices
  in order, in ceiling of n/50 calls, ends the job, and only shrinks the selection.\<close>

theorem deletion_completes:
  assumes "picker_reach low p" and "p_dialog p = Some macs" and "p_job p = None"
    and "list_all2 (\<lambda>r b. \<exists>d. result_of low r b = Inr d) rs (batches macs)"
  shows "\<exists>p1 p'. picker_step low Confirmed p = Some p1 \<and> answer_all low rs p1 = Some p'
    \<and> p_job p' = None \<and> (\<exists>calls. p_sent p' = p_sent p @ calls \<and> concat calls = macs
          \<and> length calls = (length macs + 49) div 50)
    \<and> set (p_selected p') \<subseteq> set (p_selected p)"
proof -
  have "macs \<noteq> []" using picker_reach_ok [OF assms(1)] assms(2) by (simp add: picker_ok_def)
  then obtain b bs where b: "batches macs = b # bs" using concat_batches [of macs] by (cases "batches macs") auto
  then obtain r rs' where rs: "rs = r # rs'" using assms(4) by (auto simp: list_all2_Cons2)
  let ?j = "\<lparr>j_macs = macs, j_pending = batches macs, j_deleted = 0, j_not_found = 0, j_failed = 0, j_failures = []\<rparr>"
  let ?p = "p\<lparr>p_dialog := None, p_job := Some ?j, p_sent := p_sent p @ [b]\<rparr>"
  have step: "picker_step low Confirmed p = Some ?p"
    using assms(2,3) b by (simp add: picker_step_def confirmed_def busy_def send_next_def)
  have "\<exists>p'. answer_all low (r # rs') ?p = Some p' \<and> p_job p' = None \<and> p_sent p' = p_sent p @ batches macs
      \<and> set (p_selected p') \<subseteq> set (p_selected ?p)"
    using assms(4) unfolding rs by (rule answer_job [where j = ?j]) (simp_all add: b)
  then show ?thesis using step concat_batches [of macs] length_batches [of macs] rs by auto
qed

text \<open>A refused, malformed or failed reply ends the job at once: no further batch is sent, the
  selection stays as it is, and the error is reported with the counts so far.\<close>

lemma bad_reply_stops:
  assumes "p_job p = Some j"
    and "reply = None \<or> (\<exists>r. reply = Some r \<and> result_of low r (hd (j_pending j)) = Inl e)"
  shows "\<exists>p' err. picker_step low (Batch_reply reply) p = Some p' \<and> p_job p' = None
    \<and> p_sent p' = p_sent p \<and> p_selected p' = p_selected p \<and> p_reports p' = p_reports p @ [(Some err, j)]"
  using assms by (auto simp: picker_step_def batch_reply_def)

section \<open>A selection to apply them to\<close>

definition demo_picker :: picker where
  "demo_picker = \<lparr>p_selected = [js ''a''], p_visible = [js ''a''], p_writable = True,
     p_dialog = Some [js ''a''], p_job = None, p_sent = [], p_reports = []\<rparr>"

lemma demo_picker_reach: "picker_reach (\<lambda>s. s) demo_picker"
proof -
  have "picker_reach (\<lambda>s. s) (set_devices (\<lambda>s. s) [Some (js ''a'')] (new_picker True))"
    by (rule Event [OF New, of _ "Set_devices [Some (js ''a'')]"]) (simp add: picker_step_def)
  then have "picker_reach (\<lambda>s. s) (select_all True (set_devices (\<lambda>s. s) [Some (js ''a'')] (new_picker True)))"
    by (rule Event [where ev = "Check_all True"]) (simp add: picker_step_def)
  then have "picker_reach (\<lambda>s. s) (remove_clicked (select_all True (set_devices (\<lambda>s. s) [Some (js ''a'')] (new_picker True))))"
    by (rule Event [where ev = Remove_clicked]) (simp add: picker_step_def)
  then show ?thesis
    by (simp add: remove_clicked_def select_all_def set_devices_def new_picker_def busy_def demo_picker_def
        device_key_def set_add_def)
qed

lemma demo_batches: "batches [js ''a''] = [[js ''a'']]"
  by (simp add: batches_def)

lemma demo_accepted: "result_of (\<lambda>s. s) (reply_json [js ''a''] [] []) [js ''a''] = Inr (reply_data [js ''a''] [] [])"
  using accounted_reply [of "[js ''a'']" "\<lambda>s. s" "[js ''a'']" "[]" "[]"] by (simp add: result_of_def)

theorem deletion_safe_witness:
  "p_sent (confirmed demo_picker) = [[js ''a'']] \<and> length (hd (p_sent (confirmed demo_picker))) \<le> 50"
proof -
  have "picker_reach (\<lambda>s. s) (confirmed demo_picker)"
    by (rule Event [OF demo_picker_reach, of Confirmed]) (simp add: picker_step_def)
  moreover have "p_sent (confirmed demo_picker) = [[js ''a'']]"
    by (simp add: confirmed_def busy_def send_next_def demo_batches demo_picker_def)
  ultimately show ?thesis using deletion_safe [of "\<lambda>s. s" "confirmed demo_picker"] by simp
qed

theorem deletion_completes_witness:
  "\<exists>p1 p'. picker_step (\<lambda>s. s) Confirmed demo_picker = Some p1
     \<and> answer_all (\<lambda>s. s) [reply_json [js ''a''] [] []] p1 = Some p' \<and> p_job p' = None"
proof -
  have "list_all2 (\<lambda>r b. \<exists>d. result_of (\<lambda>s. s) r b = Inr d) [reply_json [js ''a''] [] []] (batches [js ''a''])"
    using demo_accepted by (simp add: demo_batches)
  from deletion_completes [OF demo_picker_reach _ _ this] show ?thesis
    by (auto simp: demo_picker_def)
qed

lemma bad_reply_stops_witness:
  "\<exists>p'. picker_step (\<lambda>s. s) (Batch_reply None)
      (demo_picker\<lparr>p_job := Some \<lparr>j_macs = [js ''a''], j_pending = [[js ''a'']], j_deleted = 0,
         j_not_found = 0, j_failed = 0, j_failures = []\<rparr>\<rparr>) = Some p' \<and> p_selected p' = [js ''a'']"
  using bad_reply_stops [of "demo_picker\<lparr>p_job := Some \<lparr>j_macs = [js ''a''], j_pending = [[js ''a'']], j_deleted = 0,
         j_not_found = 0, j_failed = 0, j_failures = []\<rparr>\<rparr>" _ None "\<lambda>s. s" Call_failed]
  by (auto simp: demo_picker_def)

end
