(* ===== verification/JsNumber.thy ===== *)
theory JsNumber
  imports JsString
begin

text \<open>
  Numbers as the source reads and writes them: \<open>parseInt\<close> without a radix, the decimal text of an
  integer, \<open>Math.round\<close> of a quotient of integers, and the order of strings. Numbers are unbounded
  integers here; the values that occur are below 2 to the 53rd, where a double is exact and the
  rounded quotient of two of them rounds to the same integer as the exact quotient.
\<close>

section \<open>Reading\<close>

definition digit_value :: "cu \<Rightarrow> nat option" where
  "digit_value u =
     (if 48 \<le> unat u \<and> unat u \<le> 57 then Some (unat u - 48)
      else if 65 \<le> unat u \<and> unat u \<le> 70 then Some (unat u - 55)
      else if 97 \<le> unat u \<and> unat u \<le> 102 then Some (unat u - 87)
      else None)"

fun digits_value :: "nat \<Rightarrow> nat \<Rightarrow> jsstr \<Rightarrow> nat" where
  \<comment> \<open>the longest prefix of digits of the base\<close>
  "digits_value b n [] = n"
| "digits_value b n (u # s) =
     (case digit_value u of
        Some d \<Rightarrow> if d < b then digits_value b (b * n + d) s else n
      | None \<Rightarrow> n)"

definition starts_digit :: "nat \<Rightarrow> jsstr \<Rightarrow> bool" where
  "starts_digit b s \<longleftrightarrow>
     (case s of [] \<Rightarrow> False | u # _ \<Rightarrow> (case digit_value u of Some d \<Rightarrow> d < b | None \<Rightarrow> False))"

definition parseInt :: "jsstr \<Rightarrow> int option" where
  \<comment> \<open>\<open>None\<close> is NaN\<close>
  "parseInt s =
     (let t = trim_start s;
          neg = (t \<noteq> [] \<and> hd t = cu (CHR ''-''));
          t1 = (if t \<noteq> [] \<and> (hd t = cu (CHR ''-'') \<or> hd t = cu (CHR ''+'')) then tl t else t);
          hex = (take 2 t1 = js ''0x'' \<or> take 2 t1 = js ''0X'');
          t2 = (if hex then drop 2 t1 else t1);
          b = (if hex then 16 else 10)
      in if starts_digit b t2 then Some ((if neg then - 1 else 1) * int (digits_value b 0 t2)) else None)"

definition or_zero :: "int option \<Rightarrow> int" where
  \<comment> \<open>\<open>x || 0\<close>\<close>
  "or_zero x = (case x of None \<Rightarrow> 0 | Some n \<Rightarrow> n)"

section \<open>Writing\<close>

definition digit_unit :: "nat \<Rightarrow> cu" where
  "digit_unit d = word_of_nat (48 + d)"

fun nat_text :: "nat \<Rightarrow> jsstr" where
  "nat_text n = (if n < 10 then [digit_unit n] else nat_text (n div 10) @ [digit_unit (n mod 10)])"

declare nat_text.simps [simp del]

definition int_text :: "int \<Rightarrow> jsstr" where
  "int_text n = (if n < 0 then cu (CHR ''-'') # nat_text (nat (- n)) else nat_text (nat n))"

section \<open>Rounding\<close>

definition round_div :: "int \<Rightarrow> int \<Rightarrow> int" where
  \<comment> \<open>\<open>Math.round(a / b)\<close>: the nearest integer, halves up\<close>
  "round_div a b = (2 * a + b) div (2 * b)"

section \<open>The order of strings\<close>

fun str_le :: "jsstr \<Rightarrow> jsstr \<Rightarrow> bool" where
  "str_le [] t \<longleftrightarrow> True"
| "str_le (u # s) [] \<longleftrightarrow> False"
| "str_le (u # s) (v # t) \<longleftrightarrow> unat u < unat v \<or> u = v \<and> str_le s t"

section \<open>Lemmas\<close>

lemma unat_digit_unit: "d < 10 \<Longrightarrow> unat (digit_unit d) = 48 + d"
  unfolding digit_unit_def unat_of_nat by simp

lemma digit_value_unit: "d < 10 \<Longrightarrow> digit_value (digit_unit d) = Some d"
  by (simp add: digit_value_def unat_digit_unit)

lemma digits_value_snoc:
  "list_all (\<lambda>u. \<exists>d. digit_value u = Some d \<and> d < b) s \<Longrightarrow>
     digits_value b n (s @ [u]) = (case digit_value u of
       Some d \<Rightarrow> if d < b then b * digits_value b n s + d else digits_value b n s
     | None \<Rightarrow> digits_value b n s)"
  by (induction s arbitrary: n) (auto split: option.splits)

lemma nat_text_digits: "list_all (\<lambda>u. \<exists>d. digit_value u = Some d \<and> d < 10) (nat_text n)"
  by (induction n rule: nat_text.induct) (simp add: nat_text.simps digit_value_unit)

lemma digits_value_nat_text: "digits_value 10 0 (nat_text n) = n"
proof (induction n rule: nat_text.induct)
  case (1 n)
  show ?case
  proof (cases "n < 10")
    case True
    then show ?thesis by (simp add: nat_text.simps [of n] digit_value_unit)
  next
    case False
    then show ?thesis
      using 1 digits_value_snoc [OF nat_text_digits [of "n div 10"], of 0 "digit_unit (n mod 10)"]
      by (simp add: nat_text.simps [of n] digit_value_unit)
  qed
qed

lemma nat_text_nonempty [simp]: "nat_text n \<noteq> []"
  by (simp add: nat_text.simps [of n])

lemma nat_text_hd: "\<exists>d<10. hd (nat_text n) = digit_unit d \<and> (d = 0 \<longrightarrow> n = 0)"
proof (induction n rule: nat_text.induct)
  case (1 n)
  then show ?case
    by (cases "n < 10") (auto simp: nat_text.simps [of n] hd_append)
qed

lemma digit_unit_plain:
  assumes "d < 10"
  shows "\<not> is_ws (digit_unit d)" "digit_unit d \<noteq> cu (CHR ''-'')" "digit_unit d \<noteq> cu (CHR ''+'')"
    "digit_unit d = cu (CHR ''0'') \<longleftrightarrow> d = 0"
  using assms unat_digit_unit [OF assms]
  by (auto simp: is_ws_def word_unat_eq_iff char_code_simps)

lemma parseInt_nat_text: "parseInt (nat_text n) = Some (int n)"
proof -
  obtain d where d: "d < 10" "hd (nat_text n) = digit_unit d" "d = 0 \<longrightarrow> n = 0" using nat_text_hd by blast
  obtain s where s: "nat_text n = digit_unit d # s" using d(2) by (cases "nat_text n") auto
  have "take 2 (nat_text n) \<noteq> js ''0x'' \<and> take 2 (nat_text n) \<noteq> js ''0X''"
  proof (cases "d = 0")
    case True
    then have "n = 0" using d(3) by simp
    then show ?thesis by (simp add: nat_text.simps js_Cons)
  next
    case False
    then show ?thesis using s digit_unit_plain [OF d(1)] by (simp add: js_Cons numeral_2_eq_2)
  qed
  moreover have "trim_start (nat_text n) = nat_text n"
    using s digit_unit_plain [OF d(1)] by (simp add: trim_start_def)
  ultimately show ?thesis
    using s digit_unit_plain [OF d(1)] digit_value_unit [OF d(1)] d(1) digits_value_nat_text [of n]
    by (simp add: parseInt_def Let_def starts_digit_def)
qed

lemma parseInt_int_text: "0 \<le> n \<Longrightarrow> parseInt (int_text n) = Some n"
  by (simp add: int_text_def parseInt_nat_text)

lemma str_le_append: "length a = length b \<Longrightarrow> str_le (a @ s) (b @ t) \<longleftrightarrow> (if a = b then str_le s t else str_le a b)"
  by (induction a b rule: list_induct2) auto

lemma str_le_refl [simp]: "str_le s s"
  by (induction s) auto

lemma round_div_exact: "0 < b \<Longrightarrow> round_div (k * b) b = k"
proof -
  assume "0 < b"
  then have "(2 * (k * b) + b) div (2 * b) = k + b div (2 * b)"
    by (metis add.commute div_mult_self2 mult.assoc mult.commute mult_eq_0_iff order_less_irrefl zero_neq_numeral)
  with \<open>0 < b\<close> show ?thesis by (simp add: round_div_def div_pos_pos_trivial)
qed

lemma round_div_near: "0 < b \<Longrightarrow> \<bar>2 * (b * round_div a b - a)\<bar> \<le> b"
proof -
  assume b: "0 < b"
  have "2 * b * round_div a b + (2 * a + b) mod (2 * b) = 2 * a + b"
    unfolding round_div_def by simp
  moreover have "0 \<le> (2 * a + b) mod (2 * b)" "(2 * a + b) mod (2 * b) < 2 * b" using b by simp_all
  ultimately show ?thesis by (simp add: algebra_simps abs_if)
qed

section \<open>Two digits\<close>

definition digit_pair :: "nat \<Rightarrow> jsstr" where
  "digit_pair n = [digit_unit (n div 10), digit_unit (n mod 10)]"

lemma digit_unit_eq: "a < 10 \<Longrightarrow> b < 10 \<Longrightarrow> digit_unit a = digit_unit b \<longleftrightarrow> a = b"
  by (metis add_left_cancel unat_digit_unit)

lemma digit_pair_value: "n < 100 \<Longrightarrow> digits_value 10 0 (digit_pair n) = n"
  using less_mult_imp_div_less [of n 10 10] by (simp add: digit_pair_def digit_value_unit)

lemma digit_pair_le:
  assumes "a < 100" and "b < 100"
  shows "str_le (digit_pair a @ s) (digit_pair b @ t) \<longleftrightarrow> a < b \<or> a = b \<and> str_le s t"
proof -
  have d: "a div 10 < 10" "b div 10 < 10" "a mod 10 < 10" "b mod 10 < 10" using assms by auto
  have eqs: "a = 10 * (a div 10) + a mod 10" "b = 10 * (b div 10) + b mod 10" by simp_all
  then have eq: "a = b \<longleftrightarrow> a div 10 = b div 10 \<and> a mod 10 = b mod 10" by metis
  have less: "a < b \<longleftrightarrow> a div 10 < b div 10 \<or> a div 10 = b div 10 \<and> a mod 10 < b mod 10"
    using eqs d by linarith
  have "str_le (digit_pair a @ s) (digit_pair b @ t) \<longleftrightarrow>
      a div 10 < b div 10 \<or> a div 10 = b div 10 \<and> (a mod 10 < b mod 10 \<or> a mod 10 = b mod 10 \<and> str_le s t)"
    unfolding digit_pair_def
    by (simp only: append_Cons append_Nil str_le.simps unat_digit_unit [OF d(1)] unat_digit_unit [OF d(2)]
        unat_digit_unit [OF d(3)] unat_digit_unit [OF d(4)] digit_unit_eq [OF d(1,2)] digit_unit_eq [OF d(3,4)]
        add_less_cancel_left)
  then show ?thesis unfolding less eq by blast
qed

end
