(* ===== verification/ScheduleRules.thy ===== *)
theory ScheduleRules
  imports JsNumber JsBase64
begin

text \<open>
  The scheduled rate limits of Bandix, in \<open>view/bandix/index.js\<close>: when a rule is in force, the limits
  that several rules in force add up to, the text of their time slots, the cached rule list, and the
  dialog that edits a rule. Rates are integers of bytes per second, an absent one is 0; an absent
  time of a slot is the empty string.
\<close>

section \<open>Rules\<close>

record time_slot =
  ts_start :: jsstr
  ts_end :: jsstr
  ts_days :: "int list"

record rule =
  ru_id :: jsstr
  ru_mac :: jsstr
  ru_slot :: "time_slot option"
  ru_tx :: int
  ru_rx :: int

text \<open>\<open>getDay\<close>, \<open>getHours\<close> and \<open>getMinutes\<close> of the current local time.\<close>

record clock =
  k_day :: nat
  k_hours :: nat
  k_minutes :: nat

definition clock_ok :: "clock \<Rightarrow> bool" where
  "clock_ok k \<longleftrightarrow> k_day k < 7 \<and> k_hours k < 24 \<and> k_minutes k < 60"

definition two_digits :: "nat \<Rightarrow> jsstr" where
  "two_digits n = slice_last 2 (js ''0'' @ nat_text n)"

definition time_text :: "nat \<Rightarrow> nat \<Rightarrow> jsstr" where
  "time_text h m = two_digits h @ js '':'' @ two_digits m"

definition day_of_week :: "nat \<Rightarrow> int" where
  \<comment> \<open>1 is Monday, 7 Sunday\<close>
  "day_of_week d = (if d = 0 then 7 else int d)"

definition isRuleActive :: "clock \<Rightarrow> rule \<Rightarrow> bool" where
  "isRuleActive k rule =
     (case ru_slot rule of
        None \<Rightarrow> False
      | Some ts \<Rightarrow>
          if ts_days ts = [] then False
          else if day_of_week (k_day k) \<notin> set (ts_days ts) then False
          else
            let now = time_text (k_hours k) (k_minutes k); start = ts_start ts; end_time = ts_end ts
            in if start = [] \<or> end_time = [] then False
               else if str_le start end_time then str_le start now \<and> str_le now end_time
               else str_le start now \<or> str_le now end_time)"

definition getActiveRulesForDevice :: "clock \<Rightarrow> rule list \<Rightarrow> jsstr \<Rightarrow> rule list" where
  "getActiveRulesForDevice k rules mac = filter (\<lambda>r. ru_mac r = mac \<and> isRuleActive k r) rules"

definition strictest :: "int list \<Rightarrow> int" where
  \<comment> \<open>\<open>xs.length > 0 ? Math.min.apply(Math, xs) : 0\<close>\<close>
  "strictest xs = (case xs of [] \<Rightarrow> 0 | x # ys \<Rightarrow> foldl min x ys)"

definition mergeActiveRulesLimits :: "rule list \<Rightarrow> int \<times> int" where
  "mergeActiveRulesLimits rules =
     (strictest (filter (\<lambda>l. 0 < l) (map ru_tx rules)), strictest (filter (\<lambda>l. 0 < l) (map ru_rx rules)))"

definition slot_times :: "rule \<Rightarrow> jsstr \<times> jsstr" where
  "slot_times r = (case ru_slot r of None \<Rightarrow> ([], []) | Some ts \<Rightarrow> (ts_start ts, ts_end ts))"

definition getTimeSlotDisplayText :: "(string \<Rightarrow> jsstr) \<Rightarrow> rule list \<Rightarrow> jsstr" where
  \<comment> \<open>\<open>tr\<close> is the translation function \<open>_\<close>\<close>
  "getTimeSlotDisplayText tr rules =
     (let count = js '' ('' @ nat_text (length rules) @ js '' '' @ tr ''rules'' @ js '')'' in
      case rules of
        [] \<Rightarrow> []
      | [r] \<Rightarrow> fst (slot_times r) @ js ''-'' @ snd (slot_times r)
      | r # rs \<Rightarrow>
          if list_all (\<lambda>q. slot_times q = slot_times r) rs
          then fst (slot_times r) @ js ''-'' @ snd (slot_times r) @ count
          else tr ''Multiple time slots'' @ count)"

section \<open>The cached rule list\<close>

text \<open>The reply of the service: absent, or an object with its error marks and the three places that
  may hold the array of rules.\<close>

record limits_reply =
  lr_error :: bool
  lr_data_limits :: "rule list option"
  lr_limits :: "rule list option"
  lr_array :: "rule list option"

record rule_cache =
  rc_loading :: bool
  rc_rules :: "rule list"

definition limits_of :: "limits_reply option \<Rightarrow> rule list" where
  "limits_of reply =
     (case reply of
        None \<Rightarrow> []
      | Some r \<Rightarrow>
          if lr_error r then []
          else (case lr_data_limits r of Some ls \<Rightarrow> ls
                | None \<Rightarrow> (case lr_limits r of Some ls \<Rightarrow> ls
                           | None \<Rightarrow> (case lr_array r of Some ls \<Rightarrow> ls | None \<Rightarrow> []))))"

definition fetchAllScheduleRules :: "rule_cache \<Rightarrow> rule_cache \<times> bool" where
  \<comment> \<open>whether the service is called\<close>
  "fetchAllScheduleRules c = (if rc_loading c then (c, False) else (c\<lparr>rc_loading := True\<rparr>, True))"

definition rules_arrived :: "limits_reply option option \<Rightarrow> rule_cache \<Rightarrow> rule_cache" where
  \<comment> \<open>\<open>None\<close> is a failed call\<close>
  "rules_arrived reply c =
     \<lparr>rc_loading = False, rc_rules = (case reply of None \<Rightarrow> [] | Some r \<Rightarrow> limits_of r)\<rparr>"

section \<open>The rule dialog\<close>

record rule_form =
  f_start :: jsstr
  f_end :: jsstr
  f_days :: "int list"
  f_up_value :: jsstr
  f_up_unit :: jsstr
  f_down_value :: jsstr
  f_down_unit :: jsstr

text \<open>\<open>f_days\<close> are the day buttons that are active, in the order of the buttons. A call of the service
  is \<open>Add_rule\<close> or \<open>Update_rule\<close> with the arguments named.\<close>

datatype rule_call =
    Add_rule jsstr jsstr jsstr jsstr "int option" "int option"
  | Update_rule jsstr jsstr jsstr jsstr jsstr "int option" "int option"

record rule_dialog =
  g_bits :: bool
  g_device :: "jsstr option"
  g_shown :: bool
  g_editing :: "rule option"
  g_form :: rule_form
  g_saving :: bool
  g_calls :: "rule_call list"
  g_errors :: "string list"

definition all_days :: "int list" where
  "all_days = [1, 2, 3, 4, 5, 6, 7]"

definition rate_units :: "bool \<Rightarrow> int \<times> int \<times> int" where
  "rate_units bits = (if bits then (125000000, 125000, 125) else (1073741824, 1048576, 1024))"

definition show_limit :: "bool \<Rightarrow> int \<Rightarrow> int \<times> int" where
  \<comment> \<open>the value and the unit that the dialog shows for a limit\<close>
  "show_limit bits limit =
     (case rate_units bits of
        (big, mid, small) \<Rightarrow>
          if big \<le> limit \<and> limit mod big = 0 then (limit div big, big)
          else if mid \<le> limit \<and> limit mod mid = 0 then (limit div mid, mid)
          else (round_div limit small, small))"

definition resetAddRuleForm :: "bool \<Rightarrow> rule_form" where
  "resetAddRuleForm bits =
     \<lparr>f_start = js ''00:00'', f_end = js ''23:59'', f_days = all_days,
      f_up_value = js ''0'', f_up_unit = (if bits then js ''125'' else js ''1024''),
      f_down_value = js ''0'', f_down_unit = (if bits then js ''125'' else js ''1024'')\<rparr>"

definition edit_form :: "bool \<Rightarrow> rule \<Rightarrow> rule_form" where
  "edit_form bits r =
     (let times = slot_times r;
          days = (case ru_slot r of None \<Rightarrow> [] | Some ts \<Rightarrow> ts_days ts);
          up = show_limit bits (ru_tx r); down = show_limit bits (ru_rx r)
      in \<lparr>f_start = (if fst times = [] then js ''00:00'' else fst times),
          f_end = (if snd times = [] then js ''23:59'' else snd times),
          f_days = filter (\<lambda>d. d \<in> set days) all_days,
          f_up_value = int_text (fst up), f_up_unit = int_text (snd up),
          f_down_value = int_text (fst down), f_down_unit = int_text (snd down)\<rparr>)"

definition showAddRuleModal :: "rule option \<Rightarrow> rule_dialog \<Rightarrow> rule_dialog" where
  "showAddRuleModal r g =
     (if g_device g = None then g
      else g\<lparr>g_editing := r, g_shown := True,
             g_form := (case r of None \<Rightarrow> resetAddRuleForm (g_bits g) | Some q \<Rightarrow> edit_form (g_bits g) q)\<rparr>)"

definition hideAddRuleModal :: "rule_dialog \<Rightarrow> rule_dialog" where
  "hideAddRuleModal g = g\<lparr>g_shown := False, g_editing := None\<rparr>"

definition form_limit :: "jsstr \<Rightarrow> jsstr \<Rightarrow> int option" where
  \<comment> \<open>\<open>None\<close> is NaN, of a unit that is no number\<close>
  "form_limit val unit =
     (let v = or_zero (parseInt val) in
      if 0 < v then map_option (\<lambda>u. v * u) (parseInt unit) else Some 0)"

definition days_json :: "int list \<Rightarrow> jsstr" where
  \<comment> \<open>\<open>JSON.stringify\<close> of the selected days\<close>
  "days_json ds = js ''['' @ join (js '','') (map int_text ds) @ js '']''"

definition save_rule :: "rule_dialog \<Rightarrow> rule_dialog" where
  "save_rule g =
     (case g_device g of
        None \<Rightarrow> g
      | Some mac \<Rightarrow>
          let f = g_form g in
          if f_start f = [] \<or> f_end f = [] then g\<lparr>g_errors := g_errors g @ [''Please set time slot'']\<rparr>
          else if f_days f = [] then g\<lparr>g_errors := g_errors g @ [''Please select at least one day'']\<rparr>
          else
            let up = form_limit (f_up_value f) (f_up_unit f); down = form_limit (f_down_value f) (f_down_unit f)
            in g\<lparr>g_saving := True,
                 g_calls := g_calls g @
                   [case g_editing g of
                      Some r \<Rightarrow> Update_rule (ru_id r) mac (f_start f) (f_end f) (days_json (f_days f)) down up
                    | None \<Rightarrow> Add_rule mac (f_start f) (f_end f) (days_json (f_days f)) up down]\<rparr>)"

definition rule_saved :: "bool \<Rightarrow> rule_dialog \<Rightarrow> rule_dialog" where
  \<comment> \<open>the end of the call: \<open>then\<close> or \<open>catch\<close>\<close>
  "rule_saved ok g =
     (if ok then (hideAddRuleModal g)\<lparr>g_saving := False, g_form := resetAddRuleForm (g_bits g)\<rparr>
      else g\<lparr>g_saving := False, g_errors := g_errors g @ [''Failed to save schedule rule: '']\<rparr>)"

section \<open>Times of day\<close>

lemma two_digits_small: "n < 10 \<Longrightarrow> two_digits n = [cu (CHR ''0''), digit_unit n]"
  by (simp add: two_digits_def slice_last_def nat_text.simps [of n] js_Cons)

lemma two_digits_big: "10 \<le> n \<Longrightarrow> n < 100 \<Longrightarrow> two_digits n = [digit_unit (n div 10), digit_unit (n mod 10)]"
  by (simp add: two_digits_def slice_last_def nat_text.simps [of n] nat_text.simps [of "n div 10"] js_Cons)

lemma two_digits: "n < 100 \<Longrightarrow> two_digits n = [digit_unit (n div 10), digit_unit (n mod 10)]"
  using two_digits_small [of n] two_digits_big [of n]
  by (cases "n < 10") (auto simp: digit_unit_def cu_def)

lemma two_digits_le:
  assumes "a < 100" and "b < 100"
  shows "str_le (two_digits a @ s) (two_digits b @ t) \<longleftrightarrow> a < b \<or> a = b \<and> str_le s t"
  using digit_pair_le [OF assms] assms by (simp add: two_digits digit_pair_def)

lemma time_text_le:
  assumes "h < 24" "m < 60" "h' < 24" "m' < 60"
  shows "str_le (time_text h m) (time_text h' m') \<longleftrightarrow> 60 * h + m \<le> 60 * h' + m'"
proof -
  have "str_le (two_digits m) (two_digits m') \<longleftrightarrow> m \<le> m'"
    using two_digits_le [of m m' "[]" "[]"] assms by auto
  moreover have "str_le (time_text h m) (time_text h' m') \<longleftrightarrow> h < h' \<or> h = h' \<and> str_le (two_digits m) (two_digits m')"
    unfolding time_text_def using two_digits_le [of h h' "js '':'' @ two_digits m" "js '':'' @ two_digits m'"] assms
    by (simp add: js_Cons)
  ultimately show ?thesis using assms by auto
qed

lemma time_text_nonempty [simp]: "time_text h m \<noteq> []"
  by (simp add: time_text_def js_Cons)

section \<open>Limits\<close>

lemma strictest_Min: "strictest xs = (if xs = [] then 0 else Min (set xs))"
proof (cases xs)
  case (Cons x ys)
  have "foldl min x ys = fold min ys x" by (simp add: foldl_conv_fold min.commute)
  also have "\<dots> = Min (set (x # ys))" by (simp only: Min.set_eq_fold)
  finally show ?thesis using Cons by (simp add: strictest_def)
qed (simp add: strictest_def)

lemma form_limit_text: "0 \<le> v \<Longrightarrow> 0 \<le> u \<Longrightarrow> form_limit (int_text v) (int_text u) = Some (v * u)"
  by (simp add: form_limit_def parseInt_int_text or_zero_def)

lemma small_unit: "rate_units bits = (b, m, s) \<Longrightarrow> 0 < s \<and> s dvd m \<and> s dvd b \<and> s \<le> m \<and> m \<le> b"
  by (cases bits) (auto simp: rate_units_def)

lemma show_limit_near:
  assumes "rate_units bits = (b, m, s)" and "0 \<le> l" and "show_limit bits l = (v, u)"
  shows "0 \<le> v \<and> 0 < u \<and> \<bar>2 * (v * u - l)\<bar> \<le> s \<and> (s dvd l \<longrightarrow> v * u = l)"
proof -
  have s: "0 < s" "0 < m" "0 < b" using small_unit [OF assms(1)] by linarith+
  have pick: "(if b \<le> l \<and> l mod b = 0 then (l div b, b)
      else if m \<le> l \<and> l mod m = 0 then (l div m, m) else (round_div l s, s)) = (v, u)"
    using assms(3) unfolding show_limit_def assms(1) by (simp only: prod.case)
  have exact: "0 \<le> l div k \<and> 0 < k \<and> l div k * k = l" if "l mod k = 0" "0 < k" for k
    using that assms(2) by (simp add: pos_imp_zdiv_nonneg_iff) (metis add.right_neutral div_mult_mod_eq)
  have exactly: ?thesis if "0 \<le> v \<and> 0 < u \<and> v * u = l" using that s(1) by simp
  show ?thesis
  proof (cases "b \<le> l \<and> l mod b = 0")
    case True
    have "v = l div b" "u = b" using pick unfolding if_P [OF True] by (blast dest: Pair_inject)+
    then show ?thesis using exact [of b] True s by (intro exactly) simp
  next
    case not_big: False
    show ?thesis
    proof (cases "m \<le> l \<and> l mod m = 0")
      case True
      have "v = l div m" "u = m"
        using pick unfolding if_not_P [OF not_big] if_P [OF True] by (blast dest: Pair_inject)+
      then show ?thesis using exact [of m] True s by (intro exactly) simp
    next
      case False
      have vu: "v = round_div l s" "u = s"
        using pick unfolding if_not_P [OF not_big] if_not_P [OF False] by (blast dest: Pair_inject)+
      have near: "\<bar>2 * (s * round_div l s - l)\<bar> \<le> s" using round_div_near [OF s(1)] .
      have pos: "0 \<le> round_div l s" 
        unfolding round_div_def using s assms(2) by (intro pos_imp_zdiv_nonneg_iff [THEN iffD2]) simp_all
      have "round_div l s * s = l" if "s dvd l"
      proof -
        from that obtain k where k: "l = s * k" unfolding dvd_def by blast
        show ?thesis unfolding k using round_div_exact [OF s(1), of k] by (simp add: mult.commute)
      qed
      moreover have "\<bar>2 * (round_div l s * s - l)\<bar> \<le> s" using near by (simp only: mult.commute [of "round_div l s" s])
      ultimately show ?thesis using s(1) pos unfolding vu by blast
    qed
  qed
qed

section \<open>Properties\<close>

text \<open>C33: a rule whose times are written as the browser writes them is in force exactly on its days
  and between its times, both included; a rule that ends before it starts is in force on each of its
  days from its start to midnight and from midnight to its end.\<close>

theorem rule_window:
  assumes "clock_ok k" and "sh < 24" "sm < 60" "eh < 24" "em < 60"
    and "ru_slot rule = Some \<lparr>ts_start = time_text sh sm, ts_end = time_text eh em, ts_days = days\<rparr>"
    and "now = 60 * k_hours k + k_minutes k" "start = 60 * sh + sm" "finish = 60 * eh + em"
  shows "isRuleActive k rule \<longleftrightarrow>
    day_of_week (k_day k) \<in> set days
    \<and> (if start \<le> finish then start \<le> now \<and> now \<le> finish else start \<le> now \<or> now \<le> finish)"
proof -
  have k: "k_hours k < 24" "k_minutes k < 60" using assms(1) by (simp_all add: clock_ok_def)
  note le = time_text_le [OF assms(2,3,4,5)] time_text_le [OF assms(2,3) k] time_text_le [OF k assms(4,5)]
  show ?thesis using assms(6-9) le by (auto simp: isRuleActive_def Let_def)
qed

theorem rule_window_witness:
  "isRuleActive \<lparr>k_day = 1, k_hours = 23, k_minutes = 5\<rparr>
     \<lparr>ru_id = [], ru_mac = [], ru_slot = Some \<lparr>ts_start = time_text 22 0, ts_end = time_text 6 0, ts_days = [1]\<rparr>,
      ru_tx = 0, ru_rx = 0\<rparr>"
  using rule_window [of "\<lparr>k_day = 1, k_hours = 23, k_minutes = 5\<rparr>" 22 0 6 0
     "\<lparr>ru_id = [], ru_mac = [], ru_slot = Some \<lparr>ts_start = time_text 22 0, ts_end = time_text 6 0, ts_days = [1]\<rparr>,
      ru_tx = 0, ru_rx = 0\<rparr>" "[1]"]
  by (simp add: clock_ok_def day_of_week_def)

text \<open>The merged limits of the rules in force are the strictest of their positive limits, and 0,
  which is no limit, exactly when none of them limits that direction.\<close>

lemma merged_limits:
  "mergeActiveRulesLimits rules =
     (if \<exists>r\<in>set rules. 0 < ru_tx r then Min {ru_tx r |r. r \<in> set rules \<and> 0 < ru_tx r} else 0,
      if \<exists>r\<in>set rules. 0 < ru_rx r then Min {ru_rx r |r. r \<in> set rules \<and> 0 < ru_rx r} else 0)"
proof -
  have "filter (\<lambda>l. 0 < l) (map f rules) = [] \<longleftrightarrow> \<not> (\<exists>r\<in>set rules. 0 < f r)" for f :: "rule \<Rightarrow> int"
    by (auto simp: filter_empty_conv)
  moreover have "set (filter (\<lambda>l. 0 < l) (map f rules)) = {f r |r. r \<in> set rules \<and> 0 < f r}" for f :: "rule \<Rightarrow> int"
    by auto
  ultimately show ?thesis by (simp only: mergeActiveRulesLimits_def strictest_Min) simp
qed


text \<open>Saving a rule unchanged never moves a limit by more than half of the smallest unit.\<close>

lemma edit_rounds_limit:
  assumes "rate_units bits = (big, mid, small)" and "0 \<le> l" and "show_limit bits l = (v, u)"
  shows "\<exists>l'. form_limit (int_text v) (int_text u) = Some l' \<and> 0 \<le> l' \<and> \<bar>2 * (l' - l)\<bar> \<le> small"
  using show_limit_near [OF assms] by (intro exI [of _ "v * u"]) (simp add: form_limit_text)

text \<open>A limit below half a KiB/s, as a rule made in bits has it, is saved as 0 when the rule is
  opened in bytes and saved unchanged, which lifts the limit.\<close>

lemma small_limit_lost:
  assumes "0 < l" and "2 * l < 1024" and "show_limit False l = (v, u)"
  shows "form_limit (int_text v) (int_text u) = Some 0"
proof -
  have "(2 * l + 1024) div 2048 = 0" using assms by (intro div_pos_pos_trivial) auto
  then have "v = 0" "u = 1024" using assms by (auto simp: show_limit_def rate_units_def round_div_def split: if_splits)
  then show ?thesis by (simp add: form_limit_text)
qed

lemma small_limit_lost_witness:
  "show_limit False 250 = (0, 1024) \<and> form_limit (int_text 0) (int_text 1024) = Some 0"
  using small_limit_lost [of 250 0 1024] by (simp add: show_limit_def rate_units_def round_div_def)

lemma edit_rounds_limit_witness:
  "\<exists>l'. form_limit (int_text 2) (int_text 1024) = Some l' \<and> \<bar>2 * (l' - 1700)\<bar> \<le> 1024"
  using edit_rounds_limit [of False 1073741824 1048576 1024 1700 2 1024]
  by (auto simp: show_limit_def rate_units_def round_div_def)

definition demo_rule :: rule where
  "demo_rule = \<lparr>ru_id = js ''7'', ru_mac = js ''m'',
     ru_slot = Some \<lparr>ts_start = js ''22:00'', ts_end = js ''06:00'', ts_days = [1, 5]\<rparr>, ru_tx = 2048, ru_rx = 1048576\<rparr>"

definition demo_dialog :: rule_dialog where
  "demo_dialog = \<lparr>g_bits = False, g_device = Some (js ''m''), g_shown = False, g_editing = None,
     g_form = resetAddRuleForm False, g_saving = False, g_calls = [], g_errors = []\<rparr>"


end
