(* ===== verification/JsSort.thy ===== *)
theory JsSort
  imports Main "HOL-Library.Multiset"
begin

text \<open>
  Sorting with a comparison function, as \<open>Array.prototype.sort\<close> does it: the stable sort, the laws of a
  comparison under which its result is a sorted permutation, and comparisons made of others.
\<close>

section \<open>The stable sort\<close>

text \<open>\<open>Array.prototype.sort\<close> with a comparison function: the stable sort. For a comparison that is a
  total preorder its result does not depend on the engine.\<close>

fun insert_cmp :: "('a \<Rightarrow> 'a \<Rightarrow> int) \<Rightarrow> 'a \<Rightarrow> 'a list \<Rightarrow> 'a list" where
  "insert_cmp c x [] = [x]"
| "insert_cmp c x (y # ys) = (if c x y \<le> 0 then x # y # ys else y # insert_cmp c x ys)"

definition sort_cmp :: "('a \<Rightarrow> 'a \<Rightarrow> int) \<Rightarrow> 'a list \<Rightarrow> 'a list" where
  "sort_cmp c xs = foldr (insert_cmp c) xs []"

text \<open>The result is a permutation whatever the comparison; only the answers for pairs in their order in
  the list matter; and sorting commutes with maps that keep the answers.\<close>

lemma mset_insert_cmp: "mset (insert_cmp c x ys) = add_mset x (mset ys)"
  by (induction ys) auto

lemma sort_permutes: "mset (sort_cmp c xs) = mset xs"
  unfolding sort_cmp_def by (induction xs) (simp_all add: mset_insert_cmp)

lemma set_sort_cmp [simp]: "set (sort_cmp c xs) = set xs"
  by (metis sort_permutes set_mset_mset)

lemma length_sort_cmp [simp]: "length (sort_cmp c xs) = length xs"
  by (metis sort_permutes size_mset)

lemma insert_cmp_cong: "(\<And>y. y \<in> set ys \<Longrightarrow> c x y \<le> 0 \<longleftrightarrow> d x y \<le> 0) \<Longrightarrow> insert_cmp c x ys = insert_cmp d x ys"
  by (induction ys) auto

lemma sort_cmp_cong: "sorted_wrt (\<lambda>x y. c x y \<le> 0 \<longleftrightarrow> d x y \<le> 0) xs \<Longrightarrow> sort_cmp c xs = sort_cmp d xs"
proof (induction xs)
  case (Cons x xs)
  then have "sort_cmp c xs = sort_cmp d xs" by simp
  moreover have "insert_cmp c x (sort_cmp d xs) = insert_cmp d x (sort_cmp d xs)"
    using Cons.prems by (intro insert_cmp_cong) simp
  ultimately show ?case by (simp add: sort_cmp_def)
qed (simp add: sort_cmp_def)

lemma insert_cmp_map: "insert_cmp c (f x) (map f ys) = map f (insert_cmp (\<lambda>a b. c (f a) (f b)) x ys)"
  by (induction ys) simp_all

lemma sort_cmp_map: "sort_cmp c (map f xs) = map f (sort_cmp (\<lambda>a b. c (f a) (f b)) xs)"
  unfolding sort_cmp_def by (induction xs) (simp_all add: insert_cmp_map)

section \<open>The interface of a comparison function\<close>

locale comparison =
  fixes c :: "'a \<Rightarrow> 'a \<Rightarrow> int"
  assumes swap: "c a b \<le> 0 \<longleftrightarrow> 0 \<le> c b a"
    and trans: "c a b \<le> 0 \<Longrightarrow> c b d \<le> 0 \<Longrightarrow> c a d \<le> 0"
begin

lemma total: "c a b \<le> 0 \<or> c b a \<le> 0"
  using swap [of a b] linear [of "c b a" 0] by blast

lemma swap_eq: "c a b = 0 \<longleftrightarrow> c b a = 0"
  using swap [of a b] swap [of b a] by linarith

lemma eq_trans: "c a b = 0 \<Longrightarrow> c b d = 0 \<Longrightarrow> c a d = 0"
  using trans [of a b d] trans [of d b a] swap [of d a] swap_eq [of a b] swap_eq [of b d] by linarith

lemma less_trans1: "c a b < 0 \<Longrightarrow> c b d \<le> 0 \<Longrightarrow> c a d < 0"
  using trans [of b d a] swap [of b a] swap [of d a] swap [of a d] by linarith

lemma less_trans2: "c a b \<le> 0 \<Longrightarrow> c b d < 0 \<Longrightarrow> c a d < 0"
  using trans [of d a b] swap [of d a] swap [of d b] swap [of a d] by linarith

lemma insert_sorted: "sorted_wrt (\<lambda>a b. c a b \<le> 0) ys \<Longrightarrow> sorted_wrt (\<lambda>a b. c a b \<le> 0) (insert_cmp c x ys)"
proof (induction ys)
  case (Cons y ys)
  have set: "set (insert_cmp c x ys) = insert x (set ys)"
    using mset_insert_cmp [of c x ys] by (metis set_mset_add_mset_insert set_mset_mset)
  show ?case
  proof (cases "c x y \<le> 0")
    case True
    then show ?thesis using Cons.prems trans by auto
  next
    case False
    then show ?thesis using Cons total [of x y] set by auto
  qed
qed simp

lemma sort_sorted: "sorted_wrt (\<lambda>a b. c a b \<le> 0) (sort_cmp c xs)"
  unfolding sort_cmp_def by (induction xs) (simp_all add: insert_sorted)

lemma insert_stable:
  "(\<And>y. P y \<Longrightarrow> c x y \<le> 0 \<or> \<not> P x) \<Longrightarrow> filter P (insert_cmp c x ys) = filter P (x # ys)"
  by (induction ys) auto

lemma sort_stable:
  assumes "\<And>a b. P a \<Longrightarrow> P b \<Longrightarrow> c a b = 0"
  shows "filter P (sort_cmp c xs) = filter P xs"
  unfolding sort_cmp_def
proof (induction xs)
  case (Cons x xs)
  have "filter P (insert_cmp c x ys) = filter P (x # ys)" for ys
    by (rule insert_stable) (metis assms order_refl)
  with Cons show ?case by (cases "P x") simp_all
qed simp

end

section \<open>Comparisons made of others\<close>

text \<open>A comparison that decides by the first of two comparisons that does not call its arguments equal.\<close>

definition then_cmp :: "('a \<Rightarrow> 'a \<Rightarrow> int) \<Rightarrow> ('a \<Rightarrow> 'a \<Rightarrow> int) \<Rightarrow> 'a \<Rightarrow> 'a \<Rightarrow> int" where
  "then_cmp c d a b = (if c a b \<noteq> 0 then c a b else d a b)"

lemma comparison_then:
  assumes c: "comparison c" and d: "comparison d"
  shows "comparison (then_cmp c d)"
proof
  fix x y z
  show "then_cmp c d x y \<le> 0 \<longleftrightarrow> 0 \<le> then_cmp c d y x"
    using comparison.swap [OF c, of x y] comparison.swap [OF d, of x y] comparison.swap_eq [OF c, of x y]
    by (cases "c x y = 0") (simp_all add: then_cmp_def)
  assume le: "then_cmp c d x y \<le> 0" "then_cmp c d y z \<le> 0"
  then have cle: "c x y \<le> 0" "c y z \<le> 0"
    unfolding then_cmp_def by (metis order_refl)+
  show "then_cmp c d x z \<le> 0"
  proof (cases "c x y = 0 \<and> c y z = 0")
    case True
    then have "c x z = 0" using comparison.eq_trans [OF c, of x y z] by blast
    then show ?thesis using True le comparison.trans [OF d, of x y z] by (simp add: then_cmp_def)
  next
    case False
    then have "c x y < 0 \<or> c y z < 0" using cle by linarith
    then have "c x z < 0"
      using comparison.less_trans1 [OF c, of x y z] comparison.less_trans2 [OF c, of x y z] cle by blast
    then show ?thesis by (simp add: then_cmp_def)
  qed
qed

lemma comparison_key: "comparison (\<lambda>a b. f a - f b)" for f :: "'a \<Rightarrow> int"
  by unfold_locales simp_all

lemma comparison_flip: "comparison c \<Longrightarrow> comparison (\<lambda>a b. c b a)"
  unfolding comparison_def by blast

lemma comparison_neg: "comparison c \<Longrightarrow> comparison (\<lambda>a b. - c a b)"
proof
  fix a b d
  assume c: "comparison c"
  show "- c a b \<le> 0 \<longleftrightarrow> 0 \<le> - c b a" using comparison.swap [OF c, of b a] by simp
  assume "- c a b \<le> 0" "- c b d \<le> 0"
  then have "c d a \<le> 0"
    using comparison.swap [OF c] comparison.trans [OF c, of d b a] by simp
  then show "- c a d \<le> 0" using comparison.swap [OF c, of d a] by simp
qed

text \<open>The elements of a class last, as equals; the others by a comparison.\<close>

lemma comparison_last:
  assumes "comparison c"
  shows "comparison (\<lambda>a b. if P a \<or> P b then (if P a = P b then 0 else if P a then 1 else - 1) else c a b)"
    (is "comparison ?d")
proof
  fix x y z
  show "?d x y \<le> 0 \<longleftrightarrow> 0 \<le> ?d y x"
    using comparison.swap [OF assms, of x y] by (cases "P x"; cases "P y") simp_all
  show "?d x z \<le> 0" if "?d x y \<le> 0" "?d y z \<le> 0"
    using that comparison.trans [OF assms, of x y z] by (cases "P x"; cases "P y"; cases "P z") simp_all
qed

lemma comparison_image: "comparison c \<Longrightarrow> comparison (\<lambda>a b. c (f a) (f b))"
  unfolding comparison_def by blast

lemma sorted_split: "sorted_wrt (\<lambda>a b. Q b \<longrightarrow> Q a) zs \<Longrightarrow> zs = filter Q zs @ filter (\<lambda>z. \<not> Q z) zs"
proof (induction zs)
  case (Cons z zs)
  then show ?case
  proof (cases "Q z")
    case False
    then have "\<forall>y\<in>set zs. \<not> Q y" using Cons.prems by auto
    then show ?thesis using False by (simp add: filter_id_conv filter_empty_conv)
  qed simp
qed simp

end
