(* ===== verification/DeviceTable.thy ===== *)
theory DeviceTable
  imports JsNumber JsSort
begin

text \<open>
  The device list of Bandix, in \<open>view/bandix/index.js\<close>: which devices count as online, the order of
  IPv4 addresses, and the sorting of the list by its columns. Counters and rates are integers, an
  absent one is 0. \<open>locale_cmp\<close> is \<open>String.prototype.localeCompare\<close>, of which only the sign is used.
\<close>

section \<open>Devices\<close>

text \<open>\<open>v_last\<close> is \<open>None\<close> where the field \<open>last\<close> is undefined; \<open>v_online\<close> says that \<open>online\<close> is not \<open>false\<close>.\<close>

record device =
  v_mac :: jsstr
  v_ip4 :: jsstr
  v_last :: "int option"
  v_online :: bool
  v_l_tx_r :: int
  v_l_rx_r :: int
  v_w_tx_r :: int
  v_w_rx_r :: int
  v_l_tx_b :: int
  v_l_rx_b :: int
  v_w_tx_b :: int
  v_w_rx_b :: int

definition last_ms :: "int \<Rightarrow> int" where
  \<comment> \<open>a small time stamp is one of seconds\<close>
  "last_ms ts = (if ts < 1000000000000 then ts * 1000 else ts)"

definition isDeviceOnline :: "int option \<Rightarrow> int \<Rightarrow> device \<Rightarrow> bool" where
  \<comment> \<open>the configured timeout in seconds, \<open>None\<close> if it is no number, and the current time\<close>
  "isDeviceOnline timeout now d =
     (case v_last d of
        None \<Rightarrow> v_online d
      | Some ts \<Rightarrow>
          if ts \<le> 0 then False
          else (case timeout of None \<Rightarrow> False | Some s \<Rightarrow> now - last_ms ts \<le> s * 1000))"

section \<open>Addresses\<close>

definition ip_part :: "int list \<Rightarrow> nat \<Rightarrow> int" where
  \<comment> \<open>\<open>parts[i] || 0\<close>\<close>
  "ip_part ps i = (if i < length ps then ps ! i else 0)"

definition ip_parts :: "jsstr \<Rightarrow> int list" where
  "ip_parts ip = map (\<lambda>p. or_zero (parseInt p)) (split_on (js ''.'') ip)"

fun first_difference :: "int list \<Rightarrow> int list \<Rightarrow> nat list \<Rightarrow> int" where
  "first_difference a b [] = 0"
| "first_difference a b (i # is) =
     (if ip_part a i \<noteq> ip_part b i then ip_part a i - ip_part b i else first_difference a b is)"

definition compareIP :: "jsstr \<Rightarrow> jsstr \<Rightarrow> int" where
  "compareIP a b = first_difference (ip_parts a) (ip_parts b) [0, 1, 2, 3]"

section \<open>Sorting\<close>

definition online_first :: "(device \<Rightarrow> bool) \<Rightarrow> bool \<Rightarrow> device \<Rightarrow> device \<Rightarrow> int" where
  "online_first on flip a b =
     (if on a = on b then 0
      else if flip then (if on a then 1 else - 1) else (if on a then - 1 else 1))"

definition by_online :: "(jsstr \<Rightarrow> jsstr \<Rightarrow> int) \<Rightarrow> (device \<Rightarrow> bool) \<Rightarrow> bool \<Rightarrow> device \<Rightarrow> device \<Rightarrow> int" where
  "by_online locale_cmp on ascending a b =
     (if online_first on ascending a b \<noteq> 0 then online_first on ascending a b
      else if compareIP (v_ip4 a) (v_ip4 b) \<noteq> 0 then compareIP (v_ip4 a) (v_ip4 b)
      else locale_cmp (v_mac a) (v_mac b))"

definition by_amount :: "(device \<Rightarrow> int) \<Rightarrow> (device \<Rightarrow> bool) \<Rightarrow> bool \<Rightarrow> device \<Rightarrow> device \<Rightarrow> int" where
  "by_amount f on ascending a b =
     (if online_first on False a b \<noteq> 0 then online_first on False a b
      else if f a \<noteq> f b then (if ascending then f a - f b else f b - f a)
      else compareIP (v_ip4 a) (v_ip4 b))"

definition lan_speed :: "device \<Rightarrow> int" where "lan_speed d = v_l_tx_r d + v_l_rx_r d"
definition wan_speed :: "device \<Rightarrow> int" where "wan_speed d = v_w_tx_r d + v_w_rx_r d"
definition lan_traffic :: "device \<Rightarrow> int" where "lan_traffic d = v_l_tx_b d + v_l_rx_b d"
definition wan_traffic :: "device \<Rightarrow> int" where "wan_traffic d = v_w_tx_b d + v_w_rx_b d"

definition device_order :: "(jsstr \<Rightarrow> jsstr \<Rightarrow> int) \<Rightarrow> (device \<Rightarrow> bool) \<Rightarrow> string \<Rightarrow> bool \<Rightarrow> device \<Rightarrow> device \<Rightarrow> int" where
  "device_order locale_cmp on sortBy ascending =
     (if sortBy = ''online'' then by_online locale_cmp on ascending
      else if sortBy = ''lan_speed'' then by_amount lan_speed on ascending
      else if sortBy = ''wan_speed'' then by_amount wan_speed on ascending
      else if sortBy = ''lan_traffic'' then by_amount lan_traffic on ascending
      else if sortBy = ''wan_traffic'' then by_amount wan_traffic on ascending
      else by_online locale_cmp on False)"

definition sortDevices :: "(jsstr \<Rightarrow> jsstr \<Rightarrow> int) \<Rightarrow> (device \<Rightarrow> bool) \<Rightarrow> string \<Rightarrow> bool \<Rightarrow> device list \<Rightarrow> device list" where
  "sortDevices locale_cmp on sortBy ascending ds = sort_cmp (device_order locale_cmp on sortBy ascending) ds"

section \<open>The comparisons of the list\<close>

lemma comparison_first: "comparison (\<lambda>a b. first_difference a b is)"
proof (induction "is")
  case Nil
  show ?case by unfold_locales simp_all
next
  case (Cons i "is")
  have "(\<lambda>a b. first_difference a b (i # is))
      = then_cmp (\<lambda>a b. ip_part a i - ip_part b i) (\<lambda>a b. first_difference a b is)"
    by (intro ext) (simp add: then_cmp_def)
  then show ?case using comparison_then [OF comparison_key Cons] by simp
qed

interpretation ip: comparison compareIP
  unfolding compareIP_def by (rule comparison_image [OF comparison_first])

interpretation online: comparison "online_first on flip" for on flip
  by unfold_locales (auto simp: online_first_def split: if_splits)

lemma by_amount_then:
  "by_amount f on ascending = then_cmp (online_first on False)
     (then_cmp (\<lambda>a b. if ascending then f a - f b else f b - f a) (\<lambda>a b. compareIP (v_ip4 a) (v_ip4 b)))"
  by (intro ext) (simp add: by_amount_def then_cmp_def)

lemma by_online_then:
  "by_online lc on ascending = then_cmp (online_first on ascending)
     (then_cmp (\<lambda>a b. compareIP (v_ip4 a) (v_ip4 b)) (\<lambda>a b. lc (v_mac a) (v_mac b)))"
  by (intro ext) (simp add: by_online_def then_cmp_def)

interpretation amount: comparison "by_amount f on ascending" for f on ascending
proof -
  have "comparison (\<lambda>a b. if ascending then f a - f b else f b - f a)"
    using comparison_key [of f] comparison_flip [OF comparison_key [of f]] by (cases ascending) simp_all
  then show "comparison (by_amount f on ascending)"
    unfolding by_amount_then
    by (rule comparison_then [OF online.comparison_axioms comparison_then
          [OF _ comparison_image [OF ip.comparison_axioms, of v_ip4]]])
qed

lemma comparison_online: "comparison lc \<Longrightarrow> comparison (by_online lc on ascending)"
  unfolding by_online_then
  by (rule comparison_then [OF online.comparison_axioms comparison_then
        [OF comparison_image [OF ip.comparison_axioms, of v_ip4] comparison_image [of lc v_mac]]])

lemma comparison_devices: "comparison lc \<Longrightarrow> comparison (device_order lc on sortBy ascending)"
  by (simp add: device_order_def comparison_online amount.comparison_axioms)

lemma online_before: "device_order lc on sortBy ascending a b \<le> 0 \<Longrightarrow> sortBy \<noteq> ''online'' \<or> \<not> ascending \<Longrightarrow> on b \<Longrightarrow> on a"
  by (auto simp: device_order_def by_online_def by_amount_def online_first_def split: if_splits)

section \<open>Properties\<close>

text \<open>Sorting by a column permutes the devices, orders them by the column's comparison, and keeps
  devices that compare equal in the order in which they came.\<close>

lemma sort_devices_correct:
  assumes "comparison lc"
  shows "mset (sortDevices lc on sortBy ascending ds) = mset ds
    \<and> sorted_wrt (\<lambda>a b. device_order lc on sortBy ascending a b \<le> 0) (sortDevices lc on sortBy ascending ds)
    \<and> filter (\<lambda>x. device_order lc on sortBy ascending x y = 0) (sortDevices lc on sortBy ascending ds)
        = filter (\<lambda>x. device_order lc on sortBy ascending x y = 0) ds"
proof -
  have c: "comparison (device_order lc on sortBy ascending)" using assms by (rule comparison_devices)
  have equal: "device_order lc on sortBy ascending a b = 0"
    if "device_order lc on sortBy ascending a y = 0" "device_order lc on sortBy ascending b y = 0" for a b
    using that comparison.eq_trans [OF c, of a y b] comparison.swap_eq [OF c, of b y] by simp
  show ?thesis
    unfolding sortDevices_def
    using sort_permutes [of "device_order lc on sortBy ascending" ds] comparison.sort_sorted [OF c] comparison.sort_stable [OF c equal]
    by simp
qed

text \<open>In every column, and for the online column unless it is ascending, all online devices come
  before all others.\<close>

theorem online_devices_first:
  assumes "comparison lc" and "sortBy \<noteq> ''online'' \<or> \<not> ascending"
  shows "\<exists>xs ys. sortDevices lc on sortBy ascending ds = xs @ ys \<and> (\<forall>d\<in>set xs. on d) \<and> (\<forall>d\<in>set ys. \<not> on d)"
proof -
  let ?zs = "sortDevices lc on sortBy ascending ds"
  have "sorted_wrt (\<lambda>a b. device_order lc on sortBy ascending a b \<le> 0) ?zs"
    unfolding sortDevices_def by (rule comparison.sort_sorted [OF comparison_devices [OF assms(1)]])
  then have "sorted_wrt (\<lambda>a b. on b \<longrightarrow> on a) ?zs"
    by (rule sorted_wrt_mono_rel [rotated]) (use online_before assms(2) in blast)
  from sorted_split [OF this] show ?thesis
    by (intro exI [of _ "filter on ?zs"] exI [of _ "filter (\<lambda>d. \<not> on d) ?zs"]) simp
qed

section \<open>Dotted addresses\<close>

definition dotted :: "nat list \<Rightarrow> jsstr" where
  "dotted ps = join (js ''.'') (map nat_text ps)"

lemma nat_text_no_dot: "cu (CHR ''.'') \<notin> set (nat_text n)"
proof
  assume "cu (CHR ''.'') \<in> set (nat_text n)"
  then obtain d where "digit_value (cu (CHR ''.'')) = Some d"
    using nat_text_digits [of n] by (auto simp: list_all_iff)
  then show False by (simp add: digit_value_def split: if_splits)
qed

lemma ip_parts_dotted: "ps \<noteq> [] \<Longrightarrow> ip_parts (dotted ps) = map int ps"
proof -
  assume "ps \<noteq> []"
  then have "split_on [cu (CHR ''.'')] (join [cu (CHR ''.'')] (map nat_text ps)) = map nat_text ps"
    using nat_text_no_dot by (intro split_on_join) auto
  then show ?thesis
    by (simp add: ip_parts_def dotted_def js_Cons parseInt_nat_text or_zero_def)
qed

definition ip_value :: "nat list \<Rightarrow> nat" where
  "ip_value ps = foldl (\<lambda>v p. 256 * v + p) 0 ps"

lemma base_less:
  "(256 * x + p < 256 * y + q) = (x < y \<or> x = y \<and> p < q)" if "p < 256" "q < 256" for x y p q :: nat
  using that by linarith

lemma base_eq:
  "(256 * x + p = 256 * y + q) = (x = y \<and> p = q)" if "p < 256" "q < 256" for x y p q :: nat
  using base_less [OF that, of x y] base_less [OF that(2,1), of y x] linorder_less_linear [of x y] by auto

text \<open>C36: on dotted addresses the comparison is the order of the 32-bit numbers they stand for.\<close>

theorem compareIP_numeric:
  assumes "a1 < 256" "a2 < 256" "a3 < 256" "a4 < 256" "b1 < 256" "b2 < 256" "b3 < 256" "b4 < 256"
  shows "(compareIP (dotted [a1, a2, a3, a4]) (dotted [b1, b2, b3, b4]) < 0
           \<longleftrightarrow> ip_value [a1, a2, a3, a4] < ip_value [b1, b2, b3, b4])
    \<and> (compareIP (dotted [a1, a2, a3, a4]) (dotted [b1, b2, b3, b4]) = 0
           \<longleftrightarrow> ip_value [a1, a2, a3, a4] = ip_value [b1, b2, b3, b4])"
proof -
  have "ip_value [a1, a2, a3, a4] < ip_value [b1, b2, b3, b4] \<longleftrightarrow>
      a1 < b1 \<or> a1 = b1 \<and> (a2 < b2 \<or> a2 = b2 \<and> (a3 < b3 \<or> a3 = b3 \<and> a4 < b4))"
    unfolding ip_value_def foldl.simps base_less [OF assms(4,8)] base_less [OF assms(3,7)] base_eq [OF assms(3,7)]
      base_less [OF assms(2,6)] base_eq [OF assms(2,6)] by auto
  moreover have "ip_value [a1, a2, a3, a4] = ip_value [b1, b2, b3, b4] \<longleftrightarrow>
      a1 = b1 \<and> a2 = b2 \<and> a3 = b3 \<and> a4 = b4"
    unfolding ip_value_def foldl.simps base_eq [OF assms(4,8)] base_eq [OF assms(3,7)] base_eq [OF assms(2,6)] by auto
  moreover have "compareIP (dotted [a1, a2, a3, a4]) (dotted [b1, b2, b3, b4]) =
      (if a1 \<noteq> b1 then int a1 - int b1 else if a2 \<noteq> b2 then int a2 - int b2
       else if a3 \<noteq> b3 then int a3 - int b3 else if a4 \<noteq> b4 then int a4 - int b4 else 0)"
    by (simp add: compareIP_def ip_parts_dotted ip_part_def)
  ultimately show ?thesis by auto
qed

theorem compareIP_numeric_witness:
  "compareIP (dotted [192, 168, 1, 9]) (dotted [192, 168, 1, 10]) < 0"
  using compareIP_numeric [of 192 168 1 9 192 168 1 10] by (simp add: ip_value_def)

section \<open>A list to apply them to\<close>

definition demo_device :: "jsstr \<Rightarrow> jsstr \<Rightarrow> bool \<Rightarrow> device" where
  "demo_device mac ip up = \<lparr>v_mac = mac, v_ip4 = ip, v_last = None, v_online = up, v_l_tx_r = 0, v_l_rx_r = 0,
     v_w_tx_r = 0, v_w_rx_r = 0, v_l_tx_b = 0, v_l_rx_b = 0, v_w_tx_b = 0, v_w_rx_b = 0\<rparr>"

definition demo_compare :: "jsstr \<Rightarrow> jsstr \<Rightarrow> int" where
  "demo_compare s t = int (length s) - int (length t)"

lemma demo_comparison: "comparison demo_compare"
  using comparison_key [of "\<lambda>s::jsstr. int (length s)"] unfolding demo_compare_def .

lemma sort_devices_correct_witness:
  "mset (sortDevices demo_compare (isDeviceOnline (Some 600) 0) ''online'' False
     [demo_device (js ''a'') (js ''1'') False, demo_device (js ''b'') (js ''2'') True])
   = {#demo_device (js ''a'') (js ''1'') False, demo_device (js ''b'') (js ''2'') True#}"
  using sort_devices_correct [OF demo_comparison, of "isDeviceOnline (Some 600) 0" "''online''" False
     "[demo_device (js ''a'') (js ''1'') False, demo_device (js ''b'') (js ''2'') True]" undefined]
  by simp

theorem online_devices_first_witness:
  "\<exists>xs ys. sortDevices demo_compare (isDeviceOnline (Some 600) 0) ''wan_speed'' True
     [demo_device (js ''a'') (js ''1'') False, demo_device (js ''b'') (js ''2'') True] = xs @ ys
     \<and> list_all (isDeviceOnline (Some 600) 0) xs \<and> list_all (\<lambda>d. \<not> isDeviceOnline (Some 600) 0 d) ys"
  using online_devices_first [OF demo_comparison, of "''wan_speed''" True] by (simp add: list_all_iff)

end
