(* ===== verification/DeviceText.thy ===== *)
theory DeviceText
  imports DeviceTable
begin

text \<open>
  What the Bandix device list says about a device, in \<open>view/bandix/index.js\<close>: how long ago it was
  online, the span of the recorded history, its uplink and Wi-Fi band, its label, and its local IPv6
  addresses. \<open>tr\<close> is the translation function \<open>_\<close>; times are integers of milliseconds, spans of seconds.
\<close>

section \<open>Times\<close>

definition formatLastOnlineTime :: "(string \<Rightarrow> jsstr) \<Rightarrow> int \<Rightarrow> int option \<Rightarrow> jsstr" where
  "formatLastOnlineTime tr now ts =
     (if ts = None \<or> the ts \<le> 0 then tr ''Never Online''
      else
        let timeDiff = now - last_ms (the ts);
            minutesDiff = timeDiff div 60000;
            hoursDiff = timeDiff div 3600000;
            daysDiff = timeDiff div 86400000;
            monthsDiff = daysDiff div 30;
            yearsDiff = daysDiff div 365
        in if minutesDiff < 1 then tr ''Just Now''
           else if minutesDiff \<le> 10 then int_text minutesDiff @ tr ''min ago''
           else if hoursDiff < 1 then int_text minutesDiff @ tr ''min ago''
           else if daysDiff < 1 then int_text hoursDiff @ tr ''h ago''
           else if monthsDiff < 1 then int_text daysDiff @ tr ''days ago''
           else if yearsDiff < 1 then int_text monthsDiff @ tr ''months ago''
           else int_text yearsDiff @ tr ''years ago'')"

definition at_least_one :: "int \<Rightarrow> int" where
  "at_least_one v = (if v < 1 then 1 else v)"

definition formatRetentionSeconds :: "(string \<Rightarrow> jsstr) \<Rightarrow> int \<Rightarrow> jsstr" where
  "formatRetentionSeconds tr seconds =
     (if seconds \<le> 0 then []
      else if seconds = 600 then tr ''Last 10 Minutes''
      else if seconds = 900 then tr ''Last 15 Minutes''
      else if seconds = 1800 then tr ''Last 30 Minutes''
      else if seconds = 3600 then tr ''Last 1 Hour''
      else if seconds = 86400 then tr ''Last 24 Hours''
      else if seconds = 604800 then tr ''Last 7 Days''
      else if seconds = 2592000 then tr ''Last 30 Days''
      else
        let (val, unitKey) =
          (if seconds < 60 then (seconds, ''seconds'')
           else if seconds < 3600 then (at_least_one (round_div seconds 60), ''minutes'')
           else if seconds < 86400 then (at_least_one (round_div seconds 3600), ''hours'')
           else if seconds < 604800 then (at_least_one (round_div seconds 86400), ''days'')
           else (at_least_one (round_div seconds 604800), ''weeks''))
        in tr ''Last'' @ js '' '' @ int_text val @ js '' '' @ tr unitKey)"

section \<open>Links and labels\<close>

text \<open>\<open>u_freq\<close> and \<open>u_channel\<close> are the numbers that the fields \<open>w_freq\<close> and \<open>w_ch\<close> convert to, \<open>None\<close>
  for one that is no integer.\<close>

record uplink_info =
  u_conn :: jsstr
  u_uplink :: jsstr
  u_freq :: "int option"
  u_channel :: "int option"

datatype band = Band string string

definition wifiBand :: "uplink_info \<Rightarrow> band option" where
  "wifiBand d =
     (if u_conn d \<noteq> js ''wifi'' then None
      else case u_freq d of
        None \<Rightarrow> None
      | Some frequency \<Rightarrow>
          if 2400 \<le> frequency \<and> frequency < 2500 then Some (Band ''2.4 GHz'' ''g24'')
          else if 4900 \<le> frequency \<and> frequency < 5925 then Some (Band ''5 GHz'' ''g5'')
          else if 5925 \<le> frequency \<and> frequency \<le> 7125 then Some (Band ''6 GHz'' ''g6'')
          else None)"

definition middle_dot :: jsstr where
  "middle_dot = [cu (CHR '' ''), 0xB7, cu (CHR '' '')]"

definition formatDeviceUplinkCh :: "(string \<Rightarrow> jsstr) \<Rightarrow> uplink_info \<Rightarrow> jsstr" where
  "formatDeviceUplinkCh tr d =
     join middle_dot
       ((if trim (u_uplink d) \<noteq> [] then [trim (u_uplink d)] else [])
        @ (if u_conn d = js ''wifi'' \<and> u_channel d \<noteq> None \<and> 0 < the (u_channel d)
           then [case wifiBand d of
                   Some (Band l c) \<Rightarrow> js l
                 | None \<Rightarrow> tr ''WiFi Channel'' @ js '' '' @ int_text (the (u_channel d))]
           else []))"

definition first_text :: "jsstr list \<Rightarrow> jsstr" where
  \<comment> \<open>\<open>a || b || ... || ''\<close>\<close>
  "first_text xs = (case filter (\<lambda>x. x \<noteq> []) xs of [] \<Rightarrow> [] | x # _ \<Rightarrow> x)"

definition getDeviceLabel :: "jsstr \<Rightarrow> jsstr \<Rightarrow> jsstr \<Rightarrow> jsstr \<Rightarrow> jsstr" where
  "getDeviceLabel host name ip mac =
     (let left = first_text [host, name, ip, mac];
          right = (if mac \<noteq> [] \<and> left \<noteq> mac then js '' '' @ mac else [])
      in trim (left @ right))"

definition filterLanIPv6 :: "jsstr list \<Rightarrow> jsstr list" where
  "filterLanIPv6 addrs =
     take 2 (filter (\<lambda>a. starts_with (js ''fd'') (toLowerCase a) \<or> starts_with (js ''fc'') (toLowerCase a)) addrs)"

section \<open>Properties\<close>

definition span_units :: "(string \<times> int) list" where
  "span_units = [(''min ago'', 60000), (''h ago'', 3600000), (''days ago'', 86400000),
     (''months ago'', 2592000000), (''years ago'', 31536000000)]"

lemma floor_bounds: "0 < k \<Longrightarrow> k * (x div k) \<le> x \<and> x < k * (x div k + 1)" for k x :: int
proof -
  assume k: "0 < k"
  have "k * (x div k) + x mod k = x" by simp
  moreover have "k * (x div k + 1) = k * (x div k) + k" by (simp add: algebra_simps)
  ultimately show ?thesis using pos_mod_sign [OF k, of x] pos_mod_bound [OF k, of x] by linarith
qed

lemma div_div_int: "0 < a \<Longrightarrow> 0 < b \<Longrightarrow> x div a div b = x div (a * b)" for x a b :: int
  by (simp add: zdiv_zmult2_eq)

text \<open>The text for a device seen at least a minute ago is a positive count of a unit, rounded down:
  the time passed is at least that many units and less than one more.\<close>

theorem last_online_span:
  assumes "0 < ts" and "60000 \<le> now - last_ms ts"
  shows "\<exists>n unit ms. (unit, ms) \<in> set span_units \<and> formatLastOnlineTime tr now (Some ts) = int_text n @ tr unit
    \<and> 1 \<le> n \<and> n * ms \<le> now - last_ms ts \<and> now - last_ms ts < (n + 1) * ms"
proof -
  define t where "t = now - last_ms ts"
  have months: "t div 86400000 div 30 = t div 2592000000" and years: "t div 86400000 div 365 = t div 31536000000"
    using div_div_int [of 86400000 30 t] div_div_int [of 86400000 365 t] by simp_all
  have one: "1 \<le> t div 60000" using assms(2) by (simp add: t_def pos_imp_zdiv_pos_iff)
  have found: ?thesis
    if "formatLastOnlineTime tr now (Some ts) = int_text (t div ms) @ tr unit" "(unit, ms) \<in> set span_units"
       "1 \<le> t div ms" for unit ms
  proof -
    have "0 < ms" using that(2) by (auto simp: span_units_def)
    then have "(t div ms) * ms \<le> t \<and> t < (t div ms + 1) * ms"
      using floor_bounds [of ms t] by (simp add: mult.commute)
    with that show ?thesis unfolding t_def by blast
  qed
  have said: "formatLastOnlineTime tr now (Some ts) =
      (if t div 60000 \<le> 10 \<or> t div 3600000 < 1 then int_text (t div 60000) @ tr ''min ago''
       else if t div 86400000 < 1 then int_text (t div 3600000) @ tr ''h ago''
       else if t div 2592000000 < 1 then int_text (t div 86400000) @ tr ''days ago''
       else if t div 31536000000 < 1 then int_text (t div 2592000000) @ tr ''months ago''
       else int_text (t div 31536000000) @ tr ''years ago'')"
    using assms(1) one by (simp add: formatLastOnlineTime_def Let_def months years flip: t_def)
  consider "t div 60000 \<le> 10 \<or> t div 3600000 < 1"
    | "\<not> (t div 60000 \<le> 10 \<or> t div 3600000 < 1)" "t div 86400000 < 1"
    | "\<not> (t div 60000 \<le> 10 \<or> t div 3600000 < 1)" "\<not> t div 86400000 < 1" "t div 2592000000 < 1"
    | "\<not> (t div 60000 \<le> 10 \<or> t div 3600000 < 1)" "\<not> t div 86400000 < 1" "\<not> t div 2592000000 < 1" "t div 31536000000 < 1"
    | "\<not> (t div 60000 \<le> 10 \<or> t div 3600000 < 1)" "\<not> t div 86400000 < 1" "\<not> t div 2592000000 < 1" "\<not> t div 31536000000 < 1"
    by blast
  then show ?thesis
  proof cases
    case 1 then show ?thesis using one by (intro found [of 60000 "''min ago''"]) (simp_all add: said span_units_def)
  next
    case 2 then show ?thesis by (intro found [of 3600000 "''h ago''"]) (simp_all add: said span_units_def)
  next
    case 3 then show ?thesis by (intro found [of 86400000 "''days ago''"]) (simp_all add: said span_units_def)
  next
    case 4 then show ?thesis by (intro found [of 2592000000 "''months ago''"]) (simp_all add: said span_units_def)
  next
    case 5 then show ?thesis by (intro found [of 31536000000 "''years ago''"]) (simp_all add: said span_units_def)
  qed
qed

theorem last_online_span_witness:
  "\<exists>n unit ms. formatLastOnlineTime js 7200000 (Some 1) = int_text n @ js unit \<and> n * ms \<le> 7199000 \<and> 7199000 < (n + 1) * ms"
  using last_online_span [of 1 7200000 js] by (auto simp: last_ms_def)

end
