(* ===== verification/JsDouble.thy ===== *)
theory JsDouble
  imports JsNumber Complex_Main "HOL-Library.Log_Nat"
begin

text \<open>
  The finite numbers of JavaScript as rationals: IEEE 754 doubles with rounding to nearest, ties to
  even. \<open>rnd\<close> is the rounding of an exact result; a result beyond the largest double becomes
  \<open>2 ^ 1024\<close>, which stands for Infinity. The operations of the source on doubles are the exact
  operations followed by \<open>rnd\<close>.
\<close>

section \<open>Rounding\<close>

definition exponent :: "rat \<Rightarrow> int" where
  \<comment> \<open>the binary exponent of a positive number\<close>
  "exponent x =
     (case quotient_of x of
        (p, q) \<Rightarrow> let e = bitlen p - bitlen q in if 2 powi e \<le> x then e else e - 1)"

definition round_even :: "rat \<Rightarrow> int" where
  "round_even x =
     (let f = \<lfloor>x\<rfloor>; r = x - of_int f
      in if r < 1 / 2 then f else if 1 / 2 < r then f + 1 else if even f then f else f + 1)"

definition unit_in_last_place :: "rat \<Rightarrow> rat" where
  "unit_in_last_place x = 2 powi max (exponent x - 52) (- 1074)"

definition infinity :: rat where
  "infinity = 2 ^ 1024"

definition rnd :: "rat \<Rightarrow> rat" where
  "rnd x =
     (if x = 0 then 0
      else let u = unit_in_last_place \<bar>x\<bar>; y = of_int (round_even (\<bar>x\<bar> / u)) * u
           in (if x < 0 then - 1 else 1) * min y infinity)"

definition is_finite :: "rat \<Rightarrow> bool" where
  "is_finite x \<longleftrightarrow> \<bar>x\<bar> < infinity"

definition js_mult :: "rat \<Rightarrow> rat \<Rightarrow> rat" where
  "js_mult x y = rnd (x * y)"

definition js_div :: "rat \<Rightarrow> rat \<Rightarrow> rat" where
  "js_div x y = rnd (x / y)"

definition js_round :: "rat \<Rightarrow> int" where
  \<comment> \<open>\<open>Math.round\<close>: the nearest integer, halves up\<close>
  "js_round x = \<lfloor>x + 1 / 2\<rfloor>"

definition max_safe :: int where
  "max_safe = 9007199254740991"

definition is_safe :: "int \<Rightarrow> bool" where
  \<comment> \<open>\<open>Number.isSafeInteger\<close>\<close>
  "is_safe n \<longleftrightarrow> \<bar>n\<bar> \<le> max_safe"

section \<open>Decimal texts\<close>

text \<open>A decimal literal without sign: digits, an optional fraction and an optional exponent. The value
  of its digits is exact and rounded once.\<close>

definition digits :: "jsstr \<Rightarrow> nat" where
  "digits s = digits_value 10 0 s"

definition decimal :: "jsstr \<Rightarrow> jsstr \<Rightarrow> int \<Rightarrow> rat" where
  \<comment> \<open>the digits before and after the point, and the exponent\<close>
  "decimal whole fraction e = rnd (of_nat (digits (whole @ fraction)) * 10 powi (e - int (length fraction)))"

section \<open>Rounding is to the nearest\<close>

lemma exponent_bounds:
  assumes "0 < x"
  shows "2 powi exponent x \<le> x" and "x < 2 powi (exponent x + 1)"
proof -
  obtain p q where pq: "quotient_of x = (p, q)" by fastforce
  then have q: "0 < q" and x: "x = of_int p / of_int q"
    using quotient_of_denom_pos quotient_of_div by blast+
  have p: "0 < p"
    using assms q unfolding x by (simp add: zero_less_divide_iff)
  have bits: "(2 :: rat) powi (bitlen n - 1) \<le> of_int n \<and> of_int n < (2 :: rat) powi bitlen n" if "0 < n" for n
  proof -
    have b: "2 ^ nat (bitlen n - 1) \<le> n" "n < 2 ^ nat (bitlen n)" "0 < bitlen n"
      using bitlen_bounds [OF that] bitlen_nonneg [of n] that bitlen_eq_zero_iff [of n] by (auto simp: less_le)
    from b(1) have "(of_int (2 ^ nat (bitlen n - 1)) :: rat) \<le> of_int n" by (rule of_int_le_iff [THEN iffD2])
    moreover from b(2) have "(of_int n :: rat) < of_int (2 ^ nat (bitlen n))" by (rule of_int_less_iff [THEN iffD2])
    ultimately show ?thesis using b(3) by (simp add: power_int_def)
  qed
  let ?e = "bitlen p - bitlen q"
  have "x < 2 powi bitlen p / 2 powi (bitlen q - 1)"
    unfolding x using bits [OF p] bits [OF q] p by (intro frac_less) simp_all
  also have "\<dots> = 2 powi (?e + 1)"
    by (simp add: power_int_diff [symmetric] algebra_simps)
  finally have up: "x < 2 powi (?e + 1)" .
  have "2 powi (?e - 1) = 2 powi (bitlen p - 1) / (2 :: rat) powi bitlen q"
    by (simp add: power_int_diff [symmetric] algebra_simps)
  also have "\<dots> \<le> x"
    unfolding x using bits [OF p] bits [OF q] q p by (intro frac_le) simp_all
  finally have low: "2 powi (?e - 1) \<le> x" .
  show "2 powi exponent x \<le> x" "x < 2 powi (exponent x + 1)"
    using up low by (simp_all add: exponent_def pq Let_def)
qed

lemma round_even_near: "\<bar>of_int (round_even x) - x\<bar> \<le> 1 / 2"
proof -
  have "0 \<le> x - of_int \<lfloor>x\<rfloor>" "x - of_int \<lfloor>x\<rfloor> < 1" by linarith+
  then show ?thesis by (simp add: round_even_def Let_def abs_le_iff)
qed

lemma round_even_int [simp]: "round_even (of_int n) = n"
  by (simp add: round_even_def)

lemma unit_pos [simp]: "0 < unit_in_last_place x"
  by (simp add: unit_in_last_place_def)

lemma rnd_0 [simp]: "rnd 0 = 0"
  by (simp add: rnd_def)

text \<open>A number with at most 53 bits is a double.\<close>

lemma rnd_exact:
  assumes "0 < n" and "n < 2 ^ 53" and "- 1074 \<le> k" and "of_int n * 2 powi k < infinity"
  shows "rnd (of_int n * 2 powi k) = of_int n * 2 powi k"
proof -
  let ?x = "of_int n * (2 :: rat) powi k" and ?m = "max (exponent (of_int n * 2 powi k) - 52) (- 1074)"
  have pos: "0 < ?x" using assms(1) by simp
  have "exponent ?x < k + 53"
  proof (rule ccontr)
    assume "\<not> exponent ?x < k + 53"
    then have "(2 :: rat) powi (k + 53) \<le> 2 powi exponent ?x" by (intro power_int_increasing) simp_all
    also have "\<dots> \<le> ?x" using exponent_bounds(1) [OF pos] .
    also have "\<dots> < 2 ^ 53 * 2 powi k"
      using of_int_less_iff [of n "2 ^ 53", where ?'a = rat] assms(2) by (intro mult_strict_right_mono) simp_all
    also have "\<dots> = 2 powi (k + 53)" by (simp add: power_int_add)
    finally show False by simp
  qed
  then have m: "?m \<le> k" using assms(3) by simp
  have "?x / 2 powi ?m = of_int n * 2 powi (k - ?m)"
    by (simp add: power_int_diff)
  also have "\<dots> = of_int (n * 2 ^ nat (k - ?m))"
    using m by (simp add: power_int_def)
  finally have "round_even (?x / 2 powi ?m) = n * 2 ^ nat (k - ?m)" by (simp only: round_even_int)
  then have "of_int (round_even (?x / 2 powi ?m)) * 2 powi ?m = of_int n * (2 powi (k - ?m) * (2 :: rat) powi ?m)"
    using m by (simp add: power_int_def)
  also have "2 powi (k - ?m) * (2 :: rat) powi ?m = 2 powi k" by (simp add: power_int_add [symmetric])
  finally show ?thesis using pos assms(4) by (simp add: rnd_def unit_in_last_place_def Let_def min_def)
qed

lemma rnd_int: "0 \<le> n \<Longrightarrow> n < 2 ^ 53 \<Longrightarrow> rnd (of_int n) = of_int n"
proof (cases "n = 0")
  case False
  assume n: "0 \<le> n" "n < 2 ^ 53"
  have "(of_int n :: rat) < 2 ^ 53" using of_int_less_iff [of n "2 ^ 53", where ?'a = rat] n(2) by simp
  also have "\<dots> \<le> infinity" unfolding infinity_def by (rule power_increasing) simp_all
  finally show ?thesis using rnd_exact [of n 0] n False by simp
qed simp

lemma js_round_int [simp]: "js_round (of_int n) = n"
  by (simp add: js_round_def floor_unique)

lemma js_round_nonneg: "0 \<le> x \<Longrightarrow> 0 \<le> js_round x"
  by (simp add: js_round_def)

lemma round_even_nonneg: "0 \<le> x \<Longrightarrow> 0 \<le> round_even x"
  by (simp add: round_even_def Let_def)

lemma rnd_nonneg: "0 \<le> x \<Longrightarrow> 0 \<le> rnd x"
  using unit_pos [of x] round_even_nonneg [of "x / unit_in_last_place x"]
  by (simp add: rnd_def Let_def infinity_def less_imp_le)

lemma js_round_near: "\<bar>of_int (js_round x) - x\<bar> \<le> 1 / 2"
  unfolding js_round_def by linarith

lemma rnd_near:
  assumes "0 < x" and "rnd x < infinity"
  shows "\<bar>rnd x - x\<bar> \<le> unit_in_last_place x / 2"
proof -
  let ?u = "unit_in_last_place x"
  have "rnd x = of_int (round_even (x / ?u)) * ?u"
    using assms by (simp add: rnd_def Let_def min_def split: if_splits)
  then have "rnd x - x = (of_int (round_even (x / ?u)) - x / ?u) * ?u"
    using unit_pos [of x] by (simp add: left_diff_distrib less_imp_neq [symmetric])
  then have "\<bar>rnd x - x\<bar> = \<bar>of_int (round_even (x / ?u)) - x / ?u\<bar> * ?u"
    by (simp only: abs_mult abs_of_pos [OF unit_pos])
  then show ?thesis
    using mult_right_mono [OF round_even_near [of "x / ?u"], of ?u] unit_pos [of x] by simp
qed

end
