(* ===== verification/TrafficQuota.thy ===== *)
theory TrafficQuota
  imports JsDouble JsRegExp
begin

text \<open>
  The traffic quota form of Bandix, \<open>bandix/quota.js\<close>: the form with its fields for each direction and
  period, what it shows of a quota, when it may be edited and saved, and the quota it reads back.
  Byte counts of the service are natural numbers, an absent one is 0. \<open>tr\<close> is the translation function
  and \<open>fmt\<close> the formatter of sizes that the caller passes.
\<close>

section \<open>Numbers of a text\<close>

definition exponent_part :: "jsstr \<Rightarrow> int option" where
  \<comment> \<open>the rest of a decimal literal: empty, or e with a signed number\<close>
  "exponent_part s =
     (case s of
        [] \<Rightarrow> Some 0
      | e # t \<Rightarrow>
          let neg = (t \<noteq> [] \<and> hd t = cu (CHR ''-''));
              u = (if t \<noteq> [] \<and> (hd t = cu (CHR ''-'') \<or> hd t = cu (CHR ''+'')) then tl t else t)
          in if e \<noteq> cu (CHR ''e'') \<and> e \<noteq> cu (CHR ''E'') \<or> u = [] \<or> \<not> list_all digit u then None
             else Some ((if neg then - 1 else 1) * int (digits u)))"

definition unsigned_number :: "jsstr \<Rightarrow> rat option" where
  "unsigned_number s =
     (if s = js ''Infinity'' then Some infinity
      else
        let (whole, r) = longest_prefix digit s;
            (part, r2) = (if r \<noteq> [] \<and> hd r = cu (CHR ''.'') then longest_prefix digit (tl r) else ([], r))
        in if whole = [] \<and> part = [] then None else map_option (decimal whole part) (exponent_part r2))"

definition based_number :: "nat \<Rightarrow> jsstr \<Rightarrow> rat option" where
  "based_number b s =
     (if s \<noteq> [] \<and> list_all (\<lambda>u. starts_digit b [u]) s then Some (rnd (of_nat (digits_value b 0 s))) else None)"

definition Number :: "jsstr \<Rightarrow> rat option" where
  \<comment> \<open>\<open>Number(text)\<close>; \<open>None\<close> is NaN\<close>
  "Number s =
     (let t = trim s; p = take 2 t in
      if t = [] then Some 0
      else if p = js ''0x'' \<or> p = js ''0X'' then based_number 16 (drop 2 t)
      else if p = js ''0o'' \<or> p = js ''0O'' then based_number 8 (drop 2 t)
      else if p = js ''0b'' \<or> p = js ''0B'' then based_number 2 (drop 2 t)
      else if hd t = cu (CHR ''-'') then map_option uminus (unsigned_number (tl t))
      else if hd t = cu (CHR ''+'') then unsigned_number (tl t)
      else unsigned_number t)"

section \<open>Quotas\<close>

datatype direction = Upload | Download | Combined

datatype period = Minute | Hourly | Daily | Weekly | Monthly | Total

definition directions :: "direction list" where
  \<comment> \<open>\<open>Object.keys(inputs)\<close>, in the order in which the form creates them\<close>
  "directions = [Upload, Download, Combined]"

definition periods :: "period list" where
  "periods = [Minute, Hourly, Daily, Weekly, Monthly, Total]"

definition period_label :: "period \<Rightarrow> string" where
  "period_label p =
     (case p of Minute \<Rightarrow> ''Minute'' | Hourly \<Rightarrow> ''Hourly'' | Daily \<Rightarrow> ''Daily'' | Weekly \<Rightarrow> ''Weekly''
      | Monthly \<Rightarrow> ''Monthly'' | Total \<Rightarrow> ''Lifetime'')"

definition size_units :: "nat list" where
  "size_units = [1, 1024, 1048576, 1073741824, 1099511627776]"

text \<open>The limits, the usage and the state of one direction, or of both together.\<close>

record share =
  h_limit :: "period \<Rightarrow> nat"
  h_used :: "period \<Rightarrow> nat"
  h_blocked :: bool

record quota =
  q_directional :: bool
  q_combined :: share
  q_upload :: "share option"
  q_download :: "share option"

definition share_of :: "direction \<Rightarrow> quota option \<Rightarrow> share option" where
  "share_of d quota =
     (case quota of
        None \<Rightarrow> None
      | Some q \<Rightarrow> (case d of Combined \<Rightarrow> Some (q_combined q) | Upload \<Rightarrow> q_upload q | Download \<Rightarrow> q_download q))"

definition modeOf :: "quota option \<Rightarrow> bool" where
  \<comment> \<open>whether the mode is directional\<close>
  "modeOf quota = (case quota of None \<Rightarrow> False | Some q \<Rightarrow> q_directional q)"

definition blockedText :: "(string \<Rightarrow> jsstr) \<Rightarrow> quota option \<Rightarrow> jsstr" where
  "blockedText tr quota =
     (case quota of
        None \<Rightarrow> []
      | Some q \<Rightarrow>
          if \<not> h_blocked (q_combined q) then []
          else case (q_upload q, q_download q) of
                 (Some up, Some down) \<Rightarrow>
                   if \<not> q_directional q \<or> h_blocked up \<and> h_blocked down then tr ''Upload and download blocked''
                   else if h_blocked up then tr ''Upload blocked''
                   else if h_blocked down then tr ''Download blocked''
                   else tr ''Quota blocked''
               | _ \<Rightarrow> tr ''Upload and download blocked'')"

section \<open>The summary in the device list\<close>

definition empty_share :: share where
  "empty_share = \<lparr>h_limit = (\<lambda>_. 0), h_used = (\<lambda>_. 0), h_blocked = False\<rparr>"

definition mostUsed :: "share \<Rightarrow> period option" where
  \<comment> \<open>the first of the limited periods with the greatest quotient of usage and limit\<close>
  "mostUsed h =
     foldl (\<lambda>best p.
       if h_limit h p = 0 then best
       else case best of
              None \<Rightarrow> Some p
            | Some b \<Rightarrow>
                if js_div (of_nat (h_used h b)) (of_nat (h_limit h b)) < js_div (of_nat (h_used h p)) (of_nat (h_limit h p))
                then Some p else best)
       None periods"

definition summary :: "(string \<Rightarrow> jsstr) \<Rightarrow> (nat \<Rightarrow> jsstr) \<Rightarrow> quota option \<Rightarrow> (jsstr \<times> (bool \<times> jsstr) list) option" where
  \<comment> \<open>the title, and for each line whether it is marked and its text\<close>
  "summary tr fmt quota =
     (case quota of
        None \<Rightarrow> None
      | Some q \<Rightarrow>
          let groups =
                (if q_directional q
                 then [(''Upload'', case q_upload q of Some h \<Rightarrow> h | None \<Rightarrow> empty_share),
                       (''Download'', case q_download q of Some h \<Rightarrow> h | None \<Rightarrow> empty_share)]
                 else [(''Combined'', q_combined q)]);
              title = blockedText tr quota
          in Some (if title = [] then tr ''Traffic Quota'' else title,
               map (\<lambda>(name, h).
                 let body = (case mostUsed h of
                               None \<Rightarrow> tr ''Unlimited''
                             | Some p \<Rightarrow> tr (period_label p) @ js '': '' @ fmt (h_used h p) @ js '' / '' @ fmt (h_limit h p))
                 in (h_blocked h,
                     tr name @ [0x20, 0xB7, 0x20] @ body
                     @ (if h_blocked h then [0x20, 0xB7, 0x20] @ tr ''Blocked'' else []))) groups))"

section \<open>The form\<close>

text \<open>\<open>i_bad\<close> is \<open>validity.badInput\<close>. The mode select has the two options combined and directional.\<close>

record quota_input =
  i_value :: jsstr
  i_bad :: bool
  i_unit :: jsstr
  i_disabled :: bool
  i_usage :: jsstr
  i_exceeded :: bool

record badge =
  b_text :: jsstr
  b_blocked :: bool
  b_unconfigured :: bool

record quota_form =
  qf_writable :: bool
  qf_busy :: bool
  qf_ready :: bool
  qf_supported :: bool
  qf_error :: "jsstr option"
  qf_current :: "quota option"
  qf_directional :: bool
  qf_mode_disabled :: bool
  qf_separate_disabled :: bool
  qf_inputs :: "direction \<Rightarrow> period \<Rightarrow> quota_input"
  qf_badges :: "direction \<Rightarrow> badge"
  qf_help :: jsstr
  qf_message :: jsstr
  qf_message_error :: bool

record quota_state =
  s_ready :: bool
  s_supported :: bool
  s_error :: "jsstr option"
  s_preserve :: bool

definition fill :: "nat \<Rightarrow> period \<Rightarrow> quota_input \<Rightarrow> quota_input" where
  "fill bytes p input =
     (let default = (if 0 < bytes then 1 else if p = Minute then 1048576 else 1073741824);
          unit = (case find (\<lambda>u. 0 < bytes \<and> u \<le> bytes \<and> bytes mod u = 0) (rev size_units) of
                    Some u \<Rightarrow> u | None \<Rightarrow> default)
      in input\<lparr>i_unit := nat_text unit, i_value := nat_text (bytes div unit)\<rparr>)"

definition canEdit :: "quota_form \<Rightarrow> bool" where
  "canEdit f \<longleftrightarrow> qf_writable f \<and> qf_ready f \<and> qf_error f = None \<and> \<not> qf_busy f"

definition canSave :: "quota_form \<Rightarrow> bool" where
  "canSave f \<longleftrightarrow> canEdit f \<and> (\<not> qf_directional f \<or> qf_supported f)"

definition active_direction :: "quota_form \<Rightarrow> direction \<Rightarrow> bool" where
  "active_direction f d \<longleftrightarrow> qf_directional f \<noteq> (d = Combined)"

definition syncDisabled :: "(string \<Rightarrow> jsstr) \<Rightarrow> quota_form \<Rightarrow> quota_form" where
  "syncDisabled tr f =
     f\<lparr>qf_mode_disabled := \<not> canEdit f, qf_separate_disabled := \<not> qf_supported f,
       qf_help :=
         (if qf_directional f
          then tr ''WAN upload and download have separate quotas. Only the exhausted direction is blocked. Enter 0 for unlimited.''
          else tr ''WAN upload and download are counted together. Enter 0 for unlimited.''),
       qf_inputs := (\<lambda>d p. (qf_inputs f d p)\<lparr>i_disabled := \<not> canSave f \<or> \<not> active_direction f d\<rparr>),
       qf_badges :=
         (\<lambda>d. let h = share_of d (qf_current f);
                  pending = qf_current f \<noteq> None \<and> qf_directional f \<noteq> modeOf (qf_current f)
              in \<lparr>b_text = tr (if qf_error f \<noteq> None then ''Unavailable'' else if \<not> qf_ready f then ''Loading...''
                              else if pending then ''Not saved'' else case h of None \<Rightarrow> ''Not configured''
                              | Some x \<Rightarrow> if h_blocked x then ''Blocked'' else ''Active''),
                  b_blocked = (\<not> pending \<and> (case h of None \<Rightarrow> False | Some x \<Rightarrow> h_blocked x)),
                  b_unconfigured = (h = None \<or> qf_error f \<noteq> None \<or> pending)\<rparr>)\<rparr>"

definition show_share :: "(string \<Rightarrow> jsstr) \<Rightarrow> (nat \<Rightarrow> jsstr) \<Rightarrow> bool \<Rightarrow> share option \<Rightarrow> period \<Rightarrow> quota_input \<Rightarrow> quota_input" where
  "show_share tr fmt filled data p input =
     (let limit = (case data of None \<Rightarrow> 0 | Some h \<Rightarrow> h_limit h p);
          used = (case data of None \<Rightarrow> 0 | Some h \<Rightarrow> h_used h p);
          input1 = (if filled then fill limit p input else input)
      in input1\<lparr>i_usage :=
                  (if data = None then [0x2014]
                   else tr ''Used'' @ js '': '' @ fmt used @ js '' / ''
                        @ (if 0 < limit then fmt limit else tr ''Unlimited'')),
                i_exceeded := (0 < limit \<and> limit \<le> used)\<rparr>)"

definition render_quota :: "(string \<Rightarrow> jsstr) \<Rightarrow> (nat \<Rightarrow> jsstr) \<Rightarrow> quota option \<Rightarrow> quota_state \<Rightarrow> quota_form \<Rightarrow> quota_form" where
  "render_quota tr fmt quota st f =
     (let filled = (\<not> s_preserve st \<and> \<not> qf_busy f) in
      syncDisabled tr
        (f\<lparr>qf_ready := s_ready st, qf_supported := s_supported st, qf_error := s_error st, qf_current := quota,
           qf_directional := (if filled then modeOf quota else qf_directional f),
           qf_message :=
             (case s_error st of
                Some e \<Rightarrow> e
              | None \<Rightarrow>
                  if \<not> s_ready st then tr ''Loading...''
                  else if \<not> s_supported st
                  then tr ''This service supports combined quotas only. Update Bandix to use separate quotas.''
                  else if quota = None then tr ''Usage starts when a quota is first saved.'' else []),
           qf_message_error := (s_error st \<noteq> None),
           qf_inputs := (\<lambda>d p. show_share tr fmt filled (share_of d quota) p (qf_inputs f d p))\<rparr>))"

definition setBusy :: "(string \<Rightarrow> jsstr) \<Rightarrow> bool \<Rightarrow> quota_form \<Rightarrow> quota_form" where
  "setBusy tr b f = syncDisabled tr (f\<lparr>qf_busy := b\<rparr>)"

section \<open>Reading the form\<close>

definition read_field :: "quota_input \<Rightarrow> nat option" where
  \<comment> \<open>\<open>None\<close> is the error of a value out of range\<close>
  "read_field input =
     (case (if i_value input = [] then Some 0 else Number (i_value input), Number (i_unit input)) of
        (Some v, Some u) \<Rightarrow>
          (let bytes = js_round (js_mult v u) in
           if i_bad input \<or> \<not> is_finite v \<or> v < 0 \<or> u \<notin> of_nat ` set size_units \<or> \<not> is_safe bytes then None
           else Some (nat bytes))
      | _ \<Rightarrow> None)"

record quota_request =
  rq_mac :: jsstr
  rq_directional :: bool
  rq_limits :: "direction \<Rightarrow> period \<Rightarrow> nat"

definition read_quota :: "jsstr \<Rightarrow> quota_form \<Rightarrow> quota_request option" where
  "read_quota mac f =
     (let value = (\<lambda>(d, p). if active_direction f d then read_field (qf_inputs f d p) else Some 0);
          fields = List.product directions periods
      in if \<not> canSave f \<or> list_ex (\<lambda>x. value x = None) fields then None
         else Some \<lparr>rq_mac = mac, rq_directional = qf_directional f,
                    rq_limits = (\<lambda>d p. the (value (d, p)))\<rparr>)"

text \<open>The error that \<open>save\<close> reports for the reply of the service: its success mark and its error
  text (no name of a member that every object inherits).\<close>

definition save_error :: "(string \<Rightarrow> jsstr) \<Rightarrow> (bool \<times> jsstr option) option \<Rightarrow> jsstr option" where
  "save_error tr reply =
     (case reply of
        Some (True, _) \<Rightarrow> None
      | Some (False, Some e) \<Rightarrow>
          (case find (\<lambda>k. js k = e)
             [''Update the Bandix service to configure separate upload and download quotas.'',
              ''Failed to connect to Bandix service''] of
             Some k \<Rightarrow> Some (tr k) | None \<Rightarrow> Some (tr ''Failed to save traffic quota''))
      | _ \<Rightarrow> Some (tr ''Failed to save traffic quota''))"

section \<open>A written number reads back\<close>

lemma digit_value_digit: "digit_value u = Some d \<Longrightarrow> d < 10 \<Longrightarrow> digit u"
  by (auto simp: digit_value_def digit_def split: if_splits)

lemma nat_text_digit: "u \<in> set (nat_text n) \<Longrightarrow> digit u"
  using nat_text_digits [of n] digit_value_digit by (force simp: list_all_iff)

lemma digit_plain: "digit u \<Longrightarrow> \<not> is_ws u \<and> u \<noteq> cu c" if "c \<in> set ''xXoObB+-''"
  using that by (auto simp: digit_def is_ws_def word_unat_eq_iff)

lemma prefix_digits: "\<forall>u\<in>set s. digit u \<Longrightarrow> longest_prefix digit s = (s, [])"
  by (simp add: longest_prefix_def takeWhile_eq_all_conv [THEN iffD2] dropWhile_eq_Nil_conv [THEN iffD2])

lemma Number_nat_text:
  assumes "n < 2 ^ 53"
  shows "Number (nat_text n) = Some (of_nat n)"
proof -
  let ?t = "nat_text n"
  have all: "\<forall>u\<in>set ?t. digit u" using nat_text_digit by blast
  then have trim: "trim ?t = ?t" using digit_plain [of "CHR ''x''"] by (intro trim_no_ws) auto
  have no: "take 2 ?t \<noteq> js [CHR ''0'', c]" if "c \<in> set ''xXoObB''" for c
  proof
    assume "take 2 ?t = js [CHR ''0'', c]"
    then have "cu c \<in> set (take 2 ?t)" by simp
    then have "cu c \<in> set ?t" by (rule in_set_takeD)
    then show False using all digit_plain [of c "cu c"] that by auto
  qed
  obtain u s where us: "?t = u # s" by (cases ?t) auto
  then have sign: "u \<noteq> cu (CHR ''-'')" "u \<noteq> cu (CHR ''+'')"
    using all digit_plain [of "CHR ''-''" u] digit_plain [of "CHR ''+''" u] by auto
  have "unsigned_number ?t = Some (decimal ?t [] 0)"
    using us all digit_cu [of "CHR ''I''"] by (auto simp: unsigned_number_def prefix_digits exponent_part_def js_Cons)
  moreover have "decimal ?t [] 0 = of_nat n"
    using rnd_int [of "int n"] assms by (simp add: decimal_def digits_def digits_value_nat_text)
  moreover have "?t \<noteq> []" "hd ?t \<noteq> cu (CHR ''-'')" "hd ?t \<noteq> cu (CHR ''+'')" using sign us by simp_all
  ultimately show ?thesis
    using no by (simp add: Number_def Let_def trim)
qed

lemma unit_cases: "u \<in> set size_units \<Longrightarrow> 0 < u \<and> u < 2 ^ 53"
  by (auto simp: size_units_def)

lemma fill_exact:
  obtains u where "u \<in> set size_units" and "u dvd b"
    and "i_unit (fill b p input) = nat_text u" and "i_value (fill b p input) = nat_text (b div u)"
proof (cases "find (\<lambda>u. 0 < b \<and> u \<le> b \<and> b mod u = 0) (rev size_units)")
  case None
  have "b = 0"
  proof (rule ccontr)
    assume "b \<noteq> 0"
    with None have "\<forall>u\<in>set size_units. \<not> (u \<le> b \<and> b mod u = 0)" by (auto simp: find_None_iff)
    then show False using \<open>b \<noteq> 0\<close> by (simp add: size_units_def)
  qed
  then show thesis
    using that [of "if p = Minute then 1048576 else 1073741824"] None by (simp add: fill_def size_units_def Let_def)
next
  case (Some u)
  then have "u \<in> set size_units" "b mod u = 0" by (auto simp: find_Some_iff) (metis nth_mem set_rev length_rev)
  then show thesis using that [of u] Some by (simp add: fill_def Let_def mod_eq_0_iff_dvd)
qed

lemma read_field_fill:
  assumes "b < 2 ^ 53" and "\<not> i_bad input"
  shows "read_field (fill b p input) = Some b"
proof -
  obtain u where u: "u \<in> set size_units" "u dvd b"
    and f: "i_unit (fill b p input) = nat_text u" "i_value (fill b p input) = nat_text (b div u)"
    using fill_exact .
  have "b div u \<le> b" by simp
  then have small: "b div u < 2 ^ 53" "u < 2 ^ 53" using assms(1) unit_cases [OF u(1)] by linarith+
  have "(of_nat (b div u) * of_nat u :: rat) = of_int (int b)" using u(2) by (simp flip: of_nat_mult)
  then have m: "js_mult (of_nat (b div u)) (of_nat u) = of_int (int b)"
    using rnd_int [of "int b"] assms(1) by (simp add: js_mult_def)
  have "(of_nat (b div u) :: rat) < 2 ^ 53" using of_nat_less_iff [of "b div u" "2 ^ 53", where ?'a = rat] small(1) by simp
  also have "\<dots> \<le> infinity" unfolding infinity_def by (rule power_increasing) simp_all
  finally have fin: "is_finite (of_nat (b div u))" by (simp add: is_finite_def)
  have safe: "is_safe (int b)" using assms(1) by (simp add: is_safe_def max_safe_def)
  have bad: "\<not> i_bad (fill b p input)" using assms(2) by (simp add: fill_def Let_def)
  show ?thesis
    unfolding read_field_def f Number_nat_text [OF small(1)] Number_nat_text [OF small(2)]
    using bad fin safe u(1) by (simp add: m Let_def del: of_int_of_nat_eq)
qed

section \<open>Properties\<close>

definition limit_of :: "quota \<Rightarrow> direction \<Rightarrow> period \<Rightarrow> nat" where
  "limit_of q d p = (case share_of d (Some q) of None \<Rightarrow> 0 | Some h \<Rightarrow> h_limit h p)"

text \<open>C15: a quota that the form shows and that is saved unchanged is sent back as it was: its mode, the
  limits of the directions of the mode, and 0 for the others.\<close>

theorem quota_read_back:
  assumes "qf_writable f" and "\<not> qf_busy f" and "\<forall>d p. \<not> i_bad (qf_inputs f d p)"
    and "s_ready st" and "s_error st = None" and "\<not> s_preserve st" and "s_supported st \<or> \<not> q_directional q"
    and "\<forall>d p. limit_of q d p < 2 ^ 53"
  shows "read_quota mac (render_quota tr fmt (Some q) st f) =
    Some \<lparr>rq_mac = mac, rq_directional = q_directional q,
          rq_limits = (\<lambda>d p. if q_directional q \<noteq> (d = Combined) then limit_of q d p else 0)\<rparr>"
proof -
  let ?g = "render_quota tr fmt (Some q) st f"
  have mode: "qf_directional ?g = q_directional q"
    using assms(2,6) by (simp add: render_quota_def syncDisabled_def Let_def modeOf_def)
  have save: "canSave ?g"
    using assms(1,2,4-7) by (auto simp: render_quota_def syncDisabled_def Let_def modeOf_def canSave_def canEdit_def)
  have same: "read_field (i\<lparr>i_usage := x, i_exceeded := y, i_disabled := z\<rparr>) = read_field i" for i x y z
    by (simp add: read_field_def cong: option.case_cong)
  have val: "read_field (qf_inputs ?g d p) = Some (limit_of q d p)" for d p
  proof -
    have "read_field (qf_inputs ?g d p) = read_field (fill (limit_of q d p) p (qf_inputs f d p))"
      using assms(2,6) unfolding render_quota_def syncDisabled_def show_share_def limit_of_def Let_def
      by (simp add: same)
    then show ?thesis using read_field_fill assms(3,8) by simp
  qed
  show ?thesis
    unfolding read_quota_def Let_def active_direction_def mode
    using save by (auto simp: val list_ex_iff fun_eq_iff)
qed


section \<open>Inputs to apply them to\<close>

definition empty_form :: quota_form where
  "empty_form =
     \<lparr>qf_writable = True, qf_busy = False, qf_ready = False, qf_supported = False, qf_error = None,
      qf_current = None, qf_directional = False, qf_mode_disabled = True, qf_separate_disabled = True,
      qf_inputs = (\<lambda>d p. \<lparr>i_value = [], i_bad = False, i_unit = js ''1'', i_disabled = True, i_usage = [], i_exceeded = False\<rparr>),
      qf_badges = (\<lambda>d. \<lparr>b_text = [], b_blocked = False, b_unconfigured = True\<rparr>),
      qf_help = [], qf_message = [], qf_message_error = False\<rparr>"

definition demo_quota :: quota where
  "demo_quota =
     \<lparr>q_directional = True, q_combined = empty_share,
      q_upload = Some (empty_share\<lparr>h_limit := (\<lambda>p. if p = Daily then 3221225472 else 0)\<rparr>),
      q_download = Some (empty_share\<lparr>h_limit := (\<lambda>p. if p = Total then 1500 else 0)\<rparr>)\<rparr>"

abbreviation ready_state :: quota_state where
  "ready_state \<equiv> \<lparr>s_ready = True, s_supported = True, s_error = None, s_preserve = False\<rparr>"

theorem quota_read_back_witness:
  "map_option (\<lambda>r. (rq_limits r Upload Daily, rq_limits r Download Total, rq_limits r Combined Daily))
     (read_quota (js ''m'') (render_quota js (\<lambda>_. []) (Some demo_quota) ready_state empty_form))
   = Some (3221225472, 1500, 0)"
proof -
  have "limit_of demo_quota d p < 2 ^ 53" for d p
    by (cases d) (simp_all add: limit_of_def share_of_def demo_quota_def empty_share_def)
  then have "read_quota (js ''m'') (render_quota js (\<lambda>_. []) (Some demo_quota) ready_state empty_form) = Some
      \<lparr>rq_mac = js ''m'', rq_directional = q_directional demo_quota,
       rq_limits = (\<lambda>d p. if q_directional demo_quota \<noteq> (d = Combined) then limit_of demo_quota d p else 0)\<rparr>"
    by (intro quota_read_back) (simp_all add: empty_form_def)
  then show ?thesis by (simp add: demo_quota_def limit_of_def share_of_def empty_share_def)
qed


end
