(* ===== verification/NodeTable.thy ===== *)
theory NodeTable
  imports JsUri JsBase64 JsObject JsDouble JsSort
begin

text \<open>
  The node list of PassWall 2, \<open>view/passwall2/node_list_sort.js\<close>: the group tables as the script sees
  them, the sort keys of a row, and what the filter bar collects of a table. The page is given by its
  inputs and texts; the collator, \<open>toLowerCase\<close> and the class of letters and numbers of the language
  are parameters of the environment.
\<close>

section \<open>The page\<close>

text \<open>\<open>pe_inputs\<close> is the value of the input with an id; \<open>pe_letter\<close> says whether a code point, given by its
  code units, is no separator of words.\<close>

record page_env =
  pe_app :: jsstr
  pe_inputs :: "jsstr \<Rightarrow> jsstr option"
  pe_text :: "jsstr obj"
  pe_collator :: "(jsstr \<Rightarrow> jsstr \<Rightarrow> int) option"
  pe_low :: "jsstr \<Rightarrow> jsstr"
  pe_letter :: "jsstr \<Rightarrow> bool"

record cell =
  ce_classes :: "string list"
  ce_text :: jsstr

text \<open>A data row: its element id, its cells, the three classes the script toggles, and the state of its
  check box if it has one. The other children of the table body are titles and placeholders.\<close>

record node_row =
  no_id :: jsstr
  no_cells :: "cell list"
  no_hidden :: bool
  no_style1 :: bool
  no_style2 :: bool
  no_check :: "bool option"

datatype body_child = Row node_row | Other

definition T :: "page_env \<Rightarrow> string \<Rightarrow> jsstr" where
  "T e key =
     (case obj_get (pe_text e) (js key) of
        None \<Rightarrow> js key
      | Some v \<Rightarrow> if v = [] then js key else v)"

definition cmpText :: "page_env \<Rightarrow> jsstr \<Rightarrow> jsstr \<Rightarrow> int" where
  "cmpText e a b =
     (case pe_collator e of
        Some c \<Rightarrow> c a b
      | None \<Rightarrow> if a = b then 0 else if str_le a b then - 1 else 1)"

definition hiddenVal :: "page_env \<Rightarrow> jsstr \<Rightarrow> string \<Rightarrow> jsstr" where
  "hiddenVal e i opt =
     (case pe_inputs e (js ''cbid.'' @ pe_app e @ js ''.'' @ i @ js ''.'' @ js opt) of
        None \<Rightarrow> [] | Some v \<Rightarrow> trim v)"

definition infoOf :: "page_env \<Rightarrow> jsstr \<Rightarrow> jsstr option" where
  \<comment> \<open>the group of the table with an id\<close>
  "infoOf e i =
     (let prefix = js ''cbi-'' @ pe_app e @ js ''-nodes-'' in
      if starts_with prefix i \<and> slice_last 6 i = js ''-table''
      then Some (take (length i - 6 - length prefix) (drop (length prefix) i)) else None)"

definition rowId :: "page_env \<Rightarrow> node_row \<Rightarrow> jsstr" where
  "rowId e tr =
     (let prefix = js ''cbi-'' @ pe_app e @ js ''-'' in
      if starts_with prefix (no_id tr) then drop (length prefix) (no_id tr) else no_id tr)"

fun dataRows :: "body_child list \<Rightarrow> node_row list" where
  "dataRows [] = []"
| "dataRows (Row r # cs) = r # dataRows cs"
| "dataRows (Other # cs) = dataRows cs"

section \<open>Columns and keys\<close>

definition COLUMNS :: "(string \<times> string) list" where
  "COLUMNS =
     [(''pw-remark'', ''name''), (''pw-ping'', ''ping''), (''pw-tcping'', ''tcping''), (''pw-urltest'', ''urltest'')]"

definition colIndexMap :: "node_row list \<Rightarrow> nat obj" where
  "colIndexMap rows =
     (case rows of
        [] \<Rightarrow> []
      | r # _ \<Rightarrow>
          foldl (\<lambda>m i. foldl (\<lambda>m (cls, key). if cls \<in> set (ce_classes (no_cells r ! i)) then obj_put (js key) i m else m)
                  m COLUMNS) [] [0..<length (no_cells r)])"

definition cell_at :: "nat obj \<Rightarrow> string \<Rightarrow> node_row \<Rightarrow> cell option" where
  "cell_at cols key tr =
     (case obj_get cols (js key) of
        None \<Rightarrow> None
      | Some i \<Rightarrow> if i < length (no_cells tr) then Some (no_cells tr ! i) else None)"

definition latency_re :: re where
  \<comment> \<open>\<open>/^(\d+(?:[.,]\d+)?)\s*(ms|s)?$/i\<close>\<close>
  "latency_re =
     seqs [Cap 1 (Seq (plus digit) (Opt (Seq (Cls (\<lambda>u. u \<in> set (js ''.,''))) (plus digit)))),
           Star is_ws, Opt (Cap 2 (Alt (lit_i ''ms'') (lit_i ''s''))), Eol]"

definition parseLatency :: "jsstr \<Rightarrow> rat option" where
  "parseLatency text =
     (case exec latency_re (trim (collapse_ws text)) of
        None \<Rightarrow> None
      | Some m \<Rightarrow>
          let (whole, r) = longest_prefix digit (the (m 1)); v = decimal whole (tl r) 0 in
          Some (case m 2 of
                  Some u \<Rightarrow> if test (Seq (chr_i (CHR ''s'')) Eol) u then js_mult v 1000 else v
                | None \<Rightarrow> v))"

definition strip_realm :: "jsstr \<Rightarrow> jsstr" where
  \<comment> \<open>\<open>.replace(/\s+Realm$/, '')\<close>\<close>
  "strip_realm s =
     (let n = length s - 5 in
      if 5 < length s \<and> drop n s = js ''Realm'' \<and> is_ws (s ! (n - 1))
      then rev (dropWhile is_ws (rev (take n s))) else s)"

definition typeOf :: "nat obj \<Rightarrow> node_row \<Rightarrow> jsstr" where
  "typeOf cols tr =
     (let text = (case cell_at cols ''name'' tr of None \<Rightarrow> [] | Some c \<Rightarrow> trim (collapse_ws (ce_text c)));
          i = (case index_of [0xFF1A] text of Some n \<Rightarrow> Some n | None \<Rightarrow> index_of (js '':'') text)
      in trim (strip_realm (case i of None \<Rightarrow> [] | Some n \<Rightarrow> take n text)))"

datatype sort_key = No_key | Latency rat | Words jsstr

definition sortKey :: "page_env \<Rightarrow> node_row \<Rightarrow> string \<Rightarrow> nat obj \<Rightarrow> sort_key" where
  "sortKey e tr key cols =
     (let i = rowId e tr; remarks = hiddenVal e i ''remarks'' in
      if key = ''name'' then
        Words (if remarks \<noteq> [] then remarks
               else case cell_at cols ''name'' tr of None \<Rightarrow> [] | Some c \<Rightarrow> trim (ce_text c))
      else if key = ''type'' then Words (typeOf cols tr @ 0 # remarks)
      else if key = ''addr'' then
        (let address = hiddenVal e i ''address'' in
         if address = [] then No_key
         else Words (address @ 0 # slice_last 5 (js ''00000'' @ hiddenVal e i ''port'')))
      else case cell_at cols key tr of
             None \<Rightarrow> No_key
           | Some c \<Rightarrow> (case parseLatency (ce_text c) of None \<Rightarrow> No_key | Some v \<Rightarrow> Latency v))"

section \<open>Words\<close>

fun code_points :: "jsstr \<Rightarrow> jsstr list" where
  "code_points [] = []"
| "code_points [u] = [[u]]"
| "code_points (u # v # s) =
     (if is_high u \<and> is_low v then [u, v] # code_points s else [u] # code_points (v # s))"

function split_words :: "(jsstr \<Rightarrow> bool) \<Rightarrow> jsstr list \<Rightarrow> jsstr \<Rightarrow> jsstr list" where
  \<comment> \<open>\<open>split\<close> at the runs of separators\<close>
  "split_words p [] w = [w]"
| "split_words p (c # cs) w =
     (if p c then split_words p cs (w @ c) else w # split_words p (dropWhile (\<lambda>d. \<not> p d) cs) [])"
  by pat_completeness auto
termination
  by (relation "measure (\<lambda>(p, cs, w). length cs)") (auto simp: le_imp_less_Suc length_dropWhile_le)

definition wordsOf :: "page_env \<Rightarrow> jsstr \<Rightarrow> jsstr list" where
  "wordsOf e text =
     snd (foldl (\<lambda>(seen, out) w.
       if length w < 2 \<or> list_all digit w then (seen, out)
       else if pe_low e w \<in> set (seen @ proto_names) then (seen, out)
       else (seen @ [pe_low e w], out @ [w]))
       ([], []) (split_words (pe_letter e) (code_points text) []))"

section \<open>What the filter bar offers\<close>

text \<open>The counting objects of \<open>collect\<close> are keyed by the types and words of the rows; a type or word that is the
  name of a member every object inherits does not occur.\<close>

record filter_option =
  fo_v :: jsstr
  fo_label :: jsstr
  fo_n :: nat

record filter_def =
  fd_key :: string
  fd_label :: jsstr
  fd_vals :: "jsstr list list"
  fd_opts :: "filter_option list"

record collected =
  co_rows :: "node_row list"
  co_cols :: "nat obj"
  co_defs :: "filter_def list"
  co_search :: bool
  co_sig :: jsstr

definition or_none :: "nat option \<Rightarrow> nat" where
  "or_none n = (case n of None \<Rightarrow> 0 | Some k \<Rightarrow> k)"

definition count_item :: "jsstr \<Rightarrow> jsstr \<Rightarrow> nat obj \<times> nat obj obj \<Rightarrow> nat obj \<times> nat obj obj" where
  "count_item k item cl =
     (let labels = (case obj_get (snd cl) k of None \<Rightarrow> [] | Some l \<Rightarrow> l)
      in (obj_put k (or_none (obj_get (fst cl) k) + 1) (fst cl),
          obj_put k (obj_put item (or_none (obj_get labels item) + 1) labels) (snd cl)))"

definition best_label :: "nat obj \<Rightarrow> jsstr" where
  \<comment> \<open>the first of the most frequent spellings\<close>
  "best_label labels =
     fst (foldl (\<lambda>(best, n) (l, k). if n < int k then (l, int k) else (best, n)) ([], - 1) (entries labels))"

definition filter_options :: "page_env \<Rightarrow> bool \<Rightarrow> nat \<Rightarrow> jsstr list list \<Rightarrow> filter_option list" where
  \<comment> \<open>the options of a filter, given the items of every row\<close>
  "filter_options e multi nrows items =
     (let key = (if multi then pe_low e else id);
          cl = foldl (\<lambda>cl item. count_item (key item) item cl) ([], []) (concat items);
          offered = filter (\<lambda>(k, n). \<not> (multi \<and> (n < 2 \<or> nrows \<le> n))) (entries (fst cl));
          opts = map (\<lambda>(k, n).
                   let best = best_label (case obj_get (snd cl) k of None \<Rightarrow> [] | Some l \<Rightarrow> l)
                   in \<lparr>fo_v = k, fo_label = (if best = [] then T e ''empty'' else best), fo_n = n\<rparr>) offered;
          sorted = sort_cmp (\<lambda>a b. if multi \<and> fo_n a \<noteq> fo_n b then int (fo_n b) - int (fo_n a)
                                   else cmpText e (fo_label a) (fo_label b)) opts
      in if multi then take 40 sorted else sorted)"

definition filterDefs :: "page_env \<Rightarrow> nat obj \<Rightarrow> (string \<times> jsstr \<times> bool \<times> (node_row \<Rightarrow> jsstr list)) list" where
  "filterDefs e cols =
     [(''type'', T e ''type'', False, \<lambda>tr. [typeOf cols tr]),
      (''word'', T e ''fWord'', True, \<lambda>tr. wordsOf e (hiddenVal e (rowId e tr) ''remarks''))]"

definition def_sig :: "filter_def \<Rightarrow> jsstr" where
  "def_sig d =
     js ''|'' @ js (fd_key d) @ js ''=''
     @ concat (map (\<lambda>p. fo_v p @ js '':'' @ nat_text (fo_n p) @ js '','') (fd_opts d))"

definition collect :: "page_env \<Rightarrow> node_row list \<Rightarrow> collected" where
  "collect e rows =
     (let cols = colIndexMap rows; n = length rows;
          defs = concat (map (\<lambda>(key, label, multi, get).
                   let items = map get rows; opts = filter_options e multi n items;
                       vals = map (map (if multi then pe_low e else id)) items
                   in if (if multi then 1 else 2) \<le> length opts
                      then [\<lparr>fd_key = key, fd_label = label, fd_vals = vals, fd_opts = opts\<rparr>] else [])
                   (if 2 \<le> n then filterDefs e cols else []))
      in \<lparr>co_rows = rows, co_cols = cols, co_defs = defs, co_search = 2 \<le> n,
          co_sig = nat_text n @ (if 2 \<le> n then js ''s'' else []) @ concat (map def_sig defs)\<rparr>)"

definition searchText :: "page_env \<Rightarrow> node_row \<Rightarrow> nat obj \<Rightarrow> jsstr" where
  "searchText e tr cols =
     (let i = rowId e tr in
      join (js '' '') [typeOf cols tr, hiddenVal e i ''remarks'', hiddenVal e i ''address'' @ js '':'' @ hiddenVal e i ''port''])"

end
