(* ===== verification/NodeList.thy ===== *)
theory NodeList
  imports NodeTable
begin

text \<open>
  The node list of PassWall 2 as a state: one group table with its rows, headers, filter bar and
  notes, and every operation of \<open>view/passwall2/node_list_sort.js\<close> on it. A sort that finds ping
  results pending waits on a timer. \<open>tb_orders\<close> records the calls of \<open>set_order\<close>, each with the row ids
  as they stand in the table, which is what it posts; \<open>tb_updates\<close> counts those of
  \<open>update_select_state\<close>.
\<close>

section \<open>The table\<close>

datatype dir = Asc | Desc

record header =
  hd_actions :: bool
  hd_sort :: "string option"
  hd_key :: "string option"
  hd_dir :: "dir option"
  hd_arrow :: "jsstr option"
  hd_subs :: "(string \<times> bool) list"

text \<open>A select of the bar: the key of its filter, its options as pairs of value and text, and its value.\<close>

record filter_bar =
  ba_selects :: "(string \<times> (jsstr \<times> jsstr) list \<times> jsstr) list"
  ba_search :: "jsstr option"
  ba_count :: jsstr
  ba_on :: bool

record wait =
  wt_started :: nat
  wt_idle :: nat
  wt_th :: nat
  wt_sub :: bool
  wt_key :: string

record node_table =
  tb_id :: jsstr
  tb_body :: "body_child list"
  tb_headers :: "header list option"
  tb_ready :: bool
  tb_orig :: "jsstr list"
  tb_note :: "jsstr option"
  tb_wait :: "wait option"
  tb_sel :: "jsstr obj"
  tb_q :: jsstr
  tb_sig :: "jsstr option"
  tb_bar :: "filter_bar option"
  tb_orders :: "jsstr list list"
  tb_updates :: nat

definition rows_of :: "node_table \<Rightarrow> node_row list" where
  "rows_of t = dataRows (tb_body t)"

section \<open>The filter bar\<close>

definition sel_of :: "jsstr obj \<Rightarrow> string \<Rightarrow> jsstr" where
  "sel_of sel key = (case obj_get sel (js key) of None \<Rightarrow> [] | Some v \<Rightarrow> v)"

definition in_brackets :: "jsstr \<Rightarrow> nat \<Rightarrow> jsstr" where
  "in_brackets s n = s @ js '' ('' @ nat_text n @ js '')''"

definition select_value :: "jsstr obj \<Rightarrow> filter_def \<Rightarrow> jsstr" where
  \<comment> \<open>the selected value if the filter still offers it\<close>
  "select_value sel d =
     (let cur = sel_of sel (fd_key d) in
      if cur \<in> set (map (\<lambda>p. js ''v:'' @ fo_v p) (fd_opts d)) then cur else [])"

definition buildBar :: "page_env \<Rightarrow> collected \<Rightarrow> node_table \<Rightarrow> node_table" where
  "buildBar e c t =
     (let selects = map (\<lambda>d. (fd_key d,
                      ([], in_brackets (T e ''all'') (length (co_rows c)))
                      # map (\<lambda>p. (js ''v:'' @ fo_v p, in_brackets (fo_label p) (fo_n p))) (fd_opts d),
                      select_value (tb_sel t) d)) (co_defs c);
          keep = foldl (\<lambda>k d. if select_value (tb_sel t) d = [] then k
                             else obj_put (js (fd_key d)) (select_value (tb_sel t) d) k) [] (co_defs c);
          q = (if co_search c then tb_q t else [])
      in t\<lparr>tb_sel := keep, tb_q := q,
           tb_bar := Some \<lparr>ba_selects = selects, ba_search = (if co_search c then Some q else None), ba_count = [],
                           ba_on = (case tb_bar t of None \<Rightarrow> False | Some b \<Rightarrow> ba_on b)\<rparr>\<rparr>)"

definition matches :: "page_env \<Rightarrow> collected \<Rightarrow> jsstr obj \<Rightarrow> jsstr \<Rightarrow> nat \<Rightarrow> node_row \<Rightarrow> bool" where
  "matches e c sel q i tr \<longleftrightarrow>
     list_all (\<lambda>d. let s = sel_of sel (fd_key d) in s = [] \<or> drop 2 s \<in> set (fd_vals d ! i)) (co_defs c)
     \<and> (q = [] \<or> str_includes q (pe_low e (searchText e tr (co_cols c))))"

fun filter_rows :: "(nat \<Rightarrow> node_row \<Rightarrow> bool) \<Rightarrow> nat \<Rightarrow> nat \<Rightarrow> node_row list \<Rightarrow> node_row list \<times> nat \<times> bool" where
  \<comment> \<open>the rows from index \<open>i\<close> on, \<open>k\<close> rows being shown before: the rows, how many are shown, and whether
    a check box was cleared\<close>
  "filter_rows ok i k [] = ([], k, False)"
| "filter_rows ok i k (r # rs) =
     (if ok i r then
        (case filter_rows ok (Suc i) (Suc k) rs of
           (rs', n, u) \<Rightarrow> (r\<lparr>no_hidden := False, no_style1 := even k, no_style2 := odd k\<rparr> # rs', n, u))
      else
        (case filter_rows ok (Suc i) k rs of
           (rs', n, u) \<Rightarrow>
             (if no_check r = Some True then (r\<lparr>no_hidden := True, no_check := Some False\<rparr> # rs', n, True)
              else (r\<lparr>no_hidden := True\<rparr> # rs', n, u))))"

fun put_rows :: "body_child list \<Rightarrow> node_row list \<Rightarrow> body_child list" where
  "put_rows (Row r # cs) (r' # rs) = Row r' # put_rows cs rs"
| "put_rows (Other # cs) rs = Other # put_rows cs rs"
| "put_rows cs rs = cs"

definition replace_first :: "jsstr \<Rightarrow> jsstr \<Rightarrow> jsstr \<Rightarrow> jsstr" where
  \<comment> \<open>\<open>s.replace(p, r)\<close> for a text \<open>r\<close> without a dollar sign\<close>
  "replace_first p r s =
     (case index_of p s of None \<Rightarrow> s | Some i \<Rightarrow> take i s @ r @ drop (i + length p) s)"

definition applyFilter :: "page_env \<Rightarrow> collected \<Rightarrow> node_table \<Rightarrow> node_table" where
  "applyFilter e c t =
     (let q = trim (pe_low e (tb_q t));
          active = (q \<noteq> [] \<or> list_ex (\<lambda>d. sel_of (tb_sel t) (fd_key d) \<noteq> []) (co_defs c))
      in case filter_rows (matches e c (tb_sel t) q) 0 0 (co_rows c) of
           (rows, shown, unchecked) \<Rightarrow>
             t\<lparr>tb_body := put_rows (tb_body t) rows,
               tb_updates := (if unchecked then Suc (tb_updates t) else tb_updates t),
               tb_bar := map_option (\<lambda>b. b\<lparr>
                 ba_count := replace_first (js ''%t'') (nat_text (length (co_rows c)))
                               (replace_first (js ''%s'') (nat_text shown) (T e ''shown'')),
                 ba_on := active\<rparr>) (tb_bar t)\<rparr>)"

definition removeBar :: "node_table \<Rightarrow> node_table" where
  "removeBar t =
     t\<lparr>tb_bar := None, tb_body := put_rows (tb_body t) (map (\<lambda>r. r\<lparr>no_hidden := False\<rparr>) (rows_of t)), tb_sig := None\<rparr>"

definition refreshFilter :: "page_env \<Rightarrow> node_table \<Rightarrow> node_table" where
  "refreshFilter e t =
     (if infoOf e (tb_id t) = None then t
      else
        let c = collect e (rows_of t) in
        if co_defs c = [] \<and> \<not> co_search c then (if tb_sig t = None then t else removeBar t)
        else
          let t1 = (if tb_bar t = None \<or> tb_sig t \<noteq> Some (co_sig c)
                    then (buildBar e c t)\<lparr>tb_sig := Some (co_sig c)\<rparr> else t)
          in applyFilter e c t1)"

section \<open>Sorting\<close>

definition setIndicator :: "nat \<Rightarrow> bool \<Rightarrow> string \<Rightarrow> dir \<Rightarrow> header list \<Rightarrow> header list" where
  "setIndicator th sub key d hs =
     map (\<lambda>(i, h).
       let own = (i = th) in
       h\<lparr>hd_arrow := map_option (\<lambda>_. if own \<and> key \<noteq> ''orig'' \<and> \<not> sub
                                      then [if d = Desc then 0x25BC else 0x25B2] else []) (hd_arrow h),
         hd_subs := map (\<lambda>(k, _). (k, own \<and> sub \<and> key \<noteq> ''orig'' \<and> k = key)) (hd_subs h),
         hd_dir := (if own \<or> hd_sort h = None then hd_dir h else None),
         hd_key := (if own \<or> hd_sort h = None then hd_key h else None)\<rparr>)
       (zip [0..<length hs] hs)"

definition stripe :: "node_row list \<Rightarrow> node_row list" where
  "stripe rows = map (\<lambda>(i, r). r\<lparr>no_style1 := even i, no_style2 := odd i\<rparr>) (zip [0..<length rows] rows)"

definition applyOrder :: "page_env \<Rightarrow> node_row list \<Rightarrow> node_table \<Rightarrow> node_table" where
  "applyOrder e rows t =
     t\<lparr>tb_body := filter (\<lambda>c. c = Other) (tb_body t) @ map Row (stripe rows),
       tb_orders := tb_orders t @ [map (rowId e) rows]\<rparr>"

definition orig_pos :: "jsstr list \<Rightarrow> jsstr \<Rightarrow> int" where
  "orig_pos orig i =
     (case obj_get (foldl (\<lambda>m n. obj_put (orig ! n) n m) [] [0..<length orig]) i of
        None \<Rightarrow> 1000000000 | Some n \<Rightarrow> int n)"

definition no_sort_key :: "sort_key \<Rightarrow> bool" where
  "no_sort_key k \<longleftrightarrow> k = No_key \<or> k = Words []"

definition cmp_rat :: "rat \<Rightarrow> rat \<Rightarrow> int" where
  "cmp_rat x y = (if x < y then - 1 else if x = y then 0 else 1)"

definition cmp_keys :: "page_env \<Rightarrow> sort_key \<Rightarrow> sort_key \<Rightarrow> int" where
  \<comment> \<open>only asked of two latencies or two texts: a column never has both\<close>
  "cmp_keys e k l =
     (case (k, l) of
        (Latency x, Latency y) \<Rightarrow> cmp_rat x y
      | (Words a, Words b) \<Rightarrow> cmpText e a b
      | (No_key, No_key) \<Rightarrow> 0
      | (No_key, _) \<Rightarrow> 1
      | (_, No_key) \<Rightarrow> - 1
      | (Latency _, Words _) \<Rightarrow> - 1
      | (Words _, Latency _) \<Rightarrow> 1)"

definition cmp_entries :: "page_env \<Rightarrow> int \<Rightarrow> nat \<times> sort_key \<times> node_row \<Rightarrow> nat \<times> sort_key \<times> node_row \<Rightarrow> int" where
  "cmp_entries e sign = (\<lambda>(i, k, _) (j, l, _).
     if no_sort_key k \<or> no_sort_key l
     then (if no_sort_key k = no_sort_key l then int i - int j else if no_sort_key k then 1 else - 1)
     else if cmp_keys e k l \<noteq> 0 then sign * cmp_keys e k l else int i - int j)"

definition sorted_rows :: "page_env \<Rightarrow> string \<Rightarrow> dir \<Rightarrow> node_row list \<Rightarrow> node_row list" where
  "sorted_rows e key d rows =
     (let cols = colIndexMap rows;
          list = map (\<lambda>(i, r). (i, sortKey e r key cols, r)) (zip [0..<length rows] rows)
      in map (\<lambda>(_, _, r). r) (sort_cmp (cmp_entries e (if d = Desc then - 1 else 1)) list))"

definition original_rows :: "page_env \<Rightarrow> jsstr list \<Rightarrow> node_row list \<Rightarrow> node_row list" where
  "original_rows e orig rows =
     sort_cmp (\<lambda>a b. orig_pos orig (rowId e a) - orig_pos orig (rowId e b)) rows"

definition next_dir :: "string \<Rightarrow> header \<Rightarrow> dir" where
  "next_dir key h = (if hd_key h = Some key \<and> hd_dir h = Some Asc then Desc else Asc)"

definition doSort :: "page_env \<Rightarrow> nat \<Rightarrow> bool \<Rightarrow> string \<Rightarrow> node_table \<Rightarrow> node_table" where
  "doSort e th sub key t =
     (case tb_headers t of
        None \<Rightarrow> t
      | Some hs \<Rightarrow>
          let rows = rows_of t; h = hs ! th in
          if infoOf e (tb_id t) = None \<or> length rows < 2 then t
          else
            let d = (if key = ''orig'' then Asc else next_dir key h);
                rows' = (if key = ''orig'' then original_rows e (tb_orig t) rows else sorted_rows e key (next_dir key h) rows);
                h' = (if key = ''orig'' then h\<lparr>hd_dir := None, hd_key := None\<rparr>
                      else h\<lparr>hd_key := Some key, hd_dir := Some d\<rparr>);
                t1 = refreshFilter e (applyOrder e rows' t)
            in t1\<lparr>tb_headers := Some (setIndicator th sub key d (hs[th := h'])),
                  tb_note := Some (T e (if key = ''orig'' then ''restored'' else ''changed''))\<rparr>)"

section \<open>Waiting for ping results\<close>

text \<open>What \<open>pingBusy\<close> looks at: the automatic detection, the states of the running requests, the result
  cells of both kinds with their node id, and the address the template keeps of a node.\<close>

record ping_state =
  pi_mode :: "jsstr option"
  pi_requests :: "int list"
  pi_icmp :: "(jsstr \<times> jsstr) list"
  pi_tcping :: "(jsstr \<times> jsstr) list"
  pi_full :: "jsstr \<Rightarrow> (jsstr \<times> jsstr) option"

definition pingBusy :: "page_env \<Rightarrow> ping_state \<Rightarrow> nat \<times> nat" where
  \<comment> \<open>requests still running, and cells still waiting for a result\<close>
  "pingBusy e s =
     (if pi_mode s \<noteq> Some (js ''icmp'') \<and> pi_mode s \<noteq> Some (js ''tcping'') then (0, 0)
      else
        let icmp = (pi_mode s = Some (js ''icmp'')) in
        (length (filter (\<lambda>r. 0 < r \<and> r < 4) (pi_requests s)),
         length (filter (\<lambda>(i, text).
           i \<noteq> [] \<and> trim text = js ''---''
           \<and> (let full = (case pi_full s i of
                            None \<Rightarrow> (hiddenVal e i ''address'', hiddenVal e i ''port'') | Some f \<Rightarrow> f)
              in fst full \<noteq> [] \<and> (icmp \<or> snd full \<noteq> [])))
           (if icmp then pi_icmp s else pi_tcping s))))"

definition wait_note :: "page_env \<Rightarrow> nat \<times> nat \<Rightarrow> jsstr" where
  "wait_note e st = replace_first (js ''%d'') (nat_text (if snd st \<noteq> 0 then snd st else fst st)) (T e ''wait'')"

definition requestSort :: "page_env \<Rightarrow> nat \<Rightarrow> ping_state \<Rightarrow> nat \<Rightarrow> bool \<Rightarrow> string \<Rightarrow> node_table \<Rightarrow> node_table" where
  "requestSort e now s th sub key t =
     (let t1 = t\<lparr>tb_wait := None\<rparr>; st = pingBusy e s in
      if st = (0, 0) then doSort e th sub key t1
      else t1\<lparr>tb_note := Some (wait_note e st),
              tb_wait := Some \<lparr>wt_started = now, wt_idle = 0, wt_th = th, wt_sub = sub, wt_key = key\<rparr>\<rparr>)"

definition wait_tick :: "page_env \<Rightarrow> nat \<Rightarrow> ping_state \<Rightarrow> bool \<Rightarrow> node_table \<Rightarrow> node_table" where
  \<comment> \<open>the interval function; \<open>attached\<close>: the table is still in the document\<close>
  "wait_tick e now s attached t =
     (case tb_wait t of
        None \<Rightarrow> t
      | Some w \<Rightarrow>
          let st = pingBusy e s; idle = (if fst st \<noteq> 0 then 0 else Suc (wt_idle w)) in
          if st = (0, 0) \<or> 6 \<le> idle then
            (let t1 = t\<lparr>tb_wait := None\<rparr> in if attached then doSort e (wt_th w) (wt_sub w) (wt_key w) t1 else t1)
          else if wt_started w + 120000 < now then t\<lparr>tb_wait := None, tb_note := Some (T e ''waitFail'')\<rparr>
          else t\<lparr>tb_wait := Some (w\<lparr>wt_idle := idle\<rparr>), tb_note := Some (wait_note e st)\<rparr>)"

section \<open>The controls\<close>

definition sortable :: "string \<Rightarrow> header \<Rightarrow> header" where
  "sortable key h =
     h\<lparr>hd_sort := Some key, hd_arrow := Some [],
       hd_subs := (if key = ''name'' then [(''type'', False), (''addr'', False), (''orig'', False)] else hd_subs h)\<rparr>"

definition enhance :: "page_env \<Rightarrow> node_table \<Rightarrow> node_table" where
  "enhance e t =
     (case tb_headers t of
        None \<Rightarrow> t
      | Some hs \<Rightarrow>
          let rows = rows_of t; cols = colIndexMap rows in
          if infoOf e (tb_id t) = None \<or> tb_ready t \<or> rows = [] then t
          else
            t\<lparr>tb_ready := True, tb_orig := map (rowId e) rows,
              tb_headers := Some (foldl (\<lambda>hs (cls, key).
                case obj_get cols (js key) of
                  None \<Rightarrow> hs
                | Some i \<Rightarrow> if i < length hs \<and> \<not> hd_actions (hs ! i) then hs[i := sortable key (hs ! i)] else hs)
                hs COLUMNS)\<rparr>)"

definition enhanceAll :: "page_env \<Rightarrow> node_table \<Rightarrow> node_table" where
  "enhanceAll e t = refreshFilter e (enhance e t)"

definition choose_filter :: "page_env \<Rightarrow> string \<Rightarrow> jsstr \<Rightarrow> node_table \<Rightarrow> node_table" where
  "choose_filter e key v t = refreshFilter e (t\<lparr>tb_sel := obj_put (js key) v (tb_sel t)\<rparr>)"

definition search :: "page_env \<Rightarrow> jsstr \<Rightarrow> node_table \<Rightarrow> node_table" where
  "search e q t = refreshFilter e (t\<lparr>tb_q := q\<rparr>)"

definition reset :: "page_env \<Rightarrow> node_table \<Rightarrow> node_table" where
  "reset e t = refreshFilter e (t\<lparr>tb_sel := [], tb_q := [], tb_sig := None\<rparr>)"

definition rowVisible :: "node_row \<Rightarrow> bool" where
  "rowVisible r \<longleftrightarrow> \<not> no_hidden r"

section \<open>The list as a machine\<close>

text \<open>
  The events of the page: what the script handles, and what happens beside it. \<open>Reordered\<close> is a move
  by the template (drag and drop, to the top), \<open>Ping_result\<close> the text of a result cell, \<open>Ticked\<close> a
  check box.
\<close>

datatype node_event =
    Enhanced
  | Click nat ping_state nat bool string
  | Wait_fires nat ping_state bool
  | Chosen string jsstr
  | Searched jsstr
  | Was_reset
  | Reordered "body_child list"
  | Ping_result nat nat jsstr
  | Ticked nat bool

definition set_row :: "nat \<Rightarrow> node_row \<Rightarrow> node_table \<Rightarrow> node_table" where
  "set_row i r t = t\<lparr>tb_body := put_rows (tb_body t) ((rows_of t)[i := r])\<rparr>"

definition node_step :: "page_env \<Rightarrow> node_event \<Rightarrow> node_table \<Rightarrow> node_table option" where
  "node_step e ev t =
     (case ev of
        Enhanced \<Rightarrow> Some (enhanceAll e t)
      | Click now s th sub key \<Rightarrow> Some (requestSort e now s th sub key t)
      | Wait_fires now s attached \<Rightarrow> if tb_wait t = None then None else Some (wait_tick e now s attached t)
      | Chosen key v \<Rightarrow> if tb_bar t = None then None else Some (choose_filter e key v t)
      | Searched q \<Rightarrow> if tb_bar t = None then None else Some (search e q t)
      | Was_reset \<Rightarrow> if tb_bar t = None then None else Some (reset e t)
      | Reordered body \<Rightarrow>
          if mset (map no_id (dataRows body)) = mset (map no_id (rows_of t)) then Some (t\<lparr>tb_body := body\<rparr>) else None
      | Ping_result i j text \<Rightarrow>
          (let r = rows_of t ! i in
           if i < length (rows_of t) \<and> j < length (no_cells r)
           then Some (set_row i (r\<lparr>no_cells := (no_cells r)[j := (no_cells r ! j)\<lparr>ce_text := text\<rparr>]\<rparr>) t) else None)
      | Ticked i b \<Rightarrow>
          (if i < length (rows_of t) then Some (set_row i ((rows_of t ! i)\<lparr>no_check := Some b\<rparr>) t) else None))"

inductive node_reachable :: "page_env \<Rightarrow> node_table \<Rightarrow> node_table \<Rightarrow> bool" for e t0 where
  Start: "node_reachable e t0 t0"
| Move: "node_reachable e t0 t \<Longrightarrow> node_step e ev t = Some t' \<Longrightarrow> node_reachable e t0 t'"

end
