(* ===== verification/NodeProperties.thy ===== *)
theory NodeProperties
  imports NodeList
begin

text \<open>
  What the node list of PassWall 2 guarantees: sorting is stable and puts rows without a value last,
  the original order can always be restored, filtering hides rows but never loses one, rows are not
  moved while ping requests run, and waiting ends.
\<close>

section \<open>Sorting as a comparison of rows\<close>

definition row_order :: "page_env \<Rightarrow> string \<Rightarrow> dir \<Rightarrow> nat obj \<Rightarrow> node_row \<Rightarrow> node_row \<Rightarrow> int" where
  \<comment> \<open>the comparison without the index that breaks ties\<close>
  "row_order e key d cols r s =
     (let k = sortKey e r key cols; l = sortKey e s key cols in
      if no_sort_key k \<or> no_sort_key l
      then (if no_sort_key k = no_sort_key l then 0 else if no_sort_key k then 1 else - 1)
      else if d = Desc then - cmp_keys e k l else cmp_keys e k l)"

lemma zip_index_map: "zip [0..<length xs] (map f xs) = map (\<lambda>(i, x). (i, f x)) (zip [0..<length xs] xs)"
  by (simp add: zip_map2)

lemma sorted_rows_eq: "sorted_rows e key d rows = sort_cmp (row_order e key d (colIndexMap rows)) rows"
proof -
  let ?K = "\<lambda>r. sortKey e r key (colIndexMap rows)" and ?c = "cmp_entries e (if d = Desc then - 1 else 1)"
  let ?z = "zip [0..<length rows] rows" and ?f = "\<lambda>(i :: nat, r). (i, ?K r, r)"
  let ?o = "row_order e key d (colIndexMap rows)"
  have tie: "?c (?f p) (?f q) \<le> 0 \<longleftrightarrow> ?o (snd p) (snd q) \<le> 0" if "fst p < fst q" for p q
    using that by (auto simp: cmp_entries_def row_order_def Let_def split: prod.splits if_splits)
  have "sorted_wrt (\<lambda>p q. fst p < fst q) ?z"
  proof -
    have "sorted_wrt (<) (map fst ?z)" by (simp add: map_fst_zip)
    then show ?thesis by (simp only: sorted_wrt_map)
  qed
  then have "sorted_wrt (\<lambda>p q. ?c (?f p) (?f q) \<le> 0 \<longleftrightarrow> ?o (snd p) (snd q) \<le> 0) ?z"
    by (rule sorted_wrt_mono_rel [rotated]) (rule tie)
  then have "sort_cmp (\<lambda>p q. ?c (?f p) (?f q)) ?z = sort_cmp (\<lambda>p q. ?o (snd p) (snd q)) ?z"
    by (rule sort_cmp_cong)
  then have "sort_cmp ?c (map ?f ?z) = map ?f (sort_cmp (\<lambda>p q. ?o (snd p) (snd q)) ?z)"
    by (simp only: sort_cmp_map)
  then have "sorted_rows e key d rows = map snd (sort_cmp (\<lambda>p q. ?o (snd p) (snd q)) ?z)"
    by (simp add: sorted_rows_def Let_def comp_def case_prod_unfold)
  also have "\<dots> = sort_cmp ?o (map snd ?z)" by (simp only: sort_cmp_map)
  finally show ?thesis by (simp add: map_snd_zip)
qed

interpretation latency: comparison cmp_rat
  by unfold_locales (auto simp: cmp_rat_def split: if_splits)

interpretation original: comparison "\<lambda>a b. orig_pos orig (rowId e a) - orig_pos orig (rowId e b)" for orig e
  by (rule comparison_key)

lemma comparison_cmp_keys:
  assumes "comparison (cmpText e)"
  shows "comparison (cmp_keys e)"
proof
  fix k l m
  show "cmp_keys e k l \<le> 0 \<longleftrightarrow> 0 \<le> cmp_keys e l k"
    by (cases k; cases l) (simp_all add: cmp_keys_def latency.swap comparison.swap [OF assms])
  assume "cmp_keys e k l \<le> 0" "cmp_keys e l m \<le> 0"
  then show "cmp_keys e k m \<le> 0"
    by (cases k; cases l; cases m)
      (simp_all add: cmp_keys_def, blast intro: latency.trans, blast intro: comparison.trans [OF assms])
qed

lemma comparison_row_order:
  assumes "comparison (cmpText e)"
  shows "comparison (row_order e key d cols)"
proof -
  have "comparison (\<lambda>k l. if d = Desc then - cmp_keys e k l else cmp_keys e k l)"
    using comparison_neg [OF comparison_cmp_keys [OF assms]] comparison_cmp_keys [OF assms]
    by (cases "d = Desc") simp_all
  from comparison_image [OF comparison_last [OF this, of no_sort_key], of "\<lambda>r. sortKey e r key cols"]
  show ?thesis by (simp add: row_order_def [abs_def] Let_def)
qed

section \<open>Rows are kept\<close>

text \<open>What the script never changes of a row: its id and its cells.\<close>

definition core :: "node_row \<Rightarrow> jsstr \<times> cell list" where
  "core r = (no_id r, no_cells r)"

lemma core_update [simp]:
  "core (r\<lparr>no_hidden := h\<rparr>) = core r" "core (r\<lparr>no_style1 := a\<rparr>) = core r"
  "core (r\<lparr>no_style2 := b\<rparr>) = core r" "core (r\<lparr>no_check := c\<rparr>) = core r"
  by (simp_all add: core_def)

lemma rowId_core: "core r = core s \<Longrightarrow> rowId e r = rowId e s"
  by (simp add: core_def rowId_def Let_def)

definition core_id :: "page_env \<Rightarrow> jsstr \<times> cell list \<Rightarrow> jsstr" where
  "core_id e c = rowId e \<lparr>no_id = fst c, no_cells = snd c, no_hidden = False, no_style1 = False, no_style2 = False, no_check = None\<rparr>"

lemma rowId_core_id: "rowId e = core_id e \<circ> core"
  by (intro ext) (simp add: core_id_def core_def rowId_def Let_def)

lemma map_core_ids: "map core rs = map core ss \<Longrightarrow> map (rowId e) rs = map (rowId e) ss"
  by (simp only: rowId_core_id map_map [symmetric])

lemma filter_rows_core: "map core (fst (filter_rows ok i k rs)) = map core rs"
  by (induction ok i k rs rule: filter_rows.induct) (auto split: prod.splits)

lemma filter_rows_length: "length (fst (filter_rows ok i k rs)) = length rs"
  using filter_rows_core [of ok i k rs] by (metis length_map)

lemma dataRows_put: "length rs = length (dataRows cs) \<Longrightarrow> dataRows (put_rows cs rs) = rs"
  by (induction cs rs rule: put_rows.induct) simp_all

lemma others_put: "length (filter (\<lambda>c. c = Other) (put_rows cs rs)) = length (filter (\<lambda>c. c = Other) cs)"
  by (induction cs rs rule: put_rows.induct) auto

lemma dataRows_append: "dataRows (cs @ map Row rs) = dataRows cs @ rs"
  by (induction cs rule: dataRows.induct) (simp, simp_all, induction rs, simp_all)

lemma dataRows_others: "dataRows (filter (\<lambda>c. c = Other) cs) = []"
  by (induction cs rule: dataRows.induct) simp_all

lemma build_bar_rest [simp]:
  "tb_body (buildBar e c t) = tb_body t" "tb_orders (buildBar e c t) = tb_orders t"
  "tb_orig (buildBar e c t) = tb_orig t" "tb_id (buildBar e c t) = tb_id t"
  "tb_ready (buildBar e c t) = tb_ready t" "tb_wait (buildBar e c t) = tb_wait t"
  "tb_headers (buildBar e c t) = tb_headers t"
  by (simp_all add: buildBar_def Let_def)

lemma apply_filter_rest [simp]:
  "tb_orders (applyFilter e c t) = tb_orders t" "tb_orig (applyFilter e c t) = tb_orig t"
  "tb_id (applyFilter e c t) = tb_id t" "tb_ready (applyFilter e c t) = tb_ready t"
  "tb_wait (applyFilter e c t) = tb_wait t" "tb_headers (applyFilter e c t) = tb_headers t"
  "tb_sel (applyFilter e c t) = tb_sel t" "tb_q (applyFilter e c t) = tb_q t"
  by (simp_all add: applyFilter_def Let_def split: prod.split)

lemma apply_filter_rows:
  "length (co_rows c) = length (rows_of t) \<Longrightarrow>
     rows_of (applyFilter e c t) =
       fst (filter_rows (matches e c (tb_sel t) (trim (pe_low e (tb_q t)))) 0 0 (co_rows c))"
  by (simp add: applyFilter_def Let_def rows_of_def dataRows_put filter_rows_length split: prod.split)
    (metis fst_conv filter_rows_length dataRows_put)

lemma co_rows_collect [simp]: "co_rows (collect e rows) = rows"
  by (simp add: collect_def Let_def)

lemma refresh_rest [simp]:
  "tb_orders (refreshFilter e t) = tb_orders t" "tb_orig (refreshFilter e t) = tb_orig t"
  "tb_id (refreshFilter e t) = tb_id t" "tb_ready (refreshFilter e t) = tb_ready t"
  "tb_wait (refreshFilter e t) = tb_wait t" "tb_headers (refreshFilter e t) = tb_headers t"
  by (simp_all add: refreshFilter_def removeBar_def Let_def)

lemma refresh_core: "map core (rows_of (refreshFilter e t)) = map core (rows_of t)"
proof -
  let ?c = "collect e (rows_of t)"
  have same: "map core (rows_of (applyFilter e ?c s)) = map core (rows_of t)" if "tb_body s = tb_body t" for s
  proof -
    have "rows_of s = rows_of t" using that by (simp add: rows_of_def)
    then show ?thesis by (simp add: apply_filter_rows filter_rows_core)
  qed
  have "map core (rows_of (removeBar t)) = map core (rows_of t)"
    by (simp add: removeBar_def rows_of_def dataRows_put)
  then show ?thesis
    unfolding refreshFilter_def Let_def by (simp add: same)
qed

lemma stripe_core: "map core (stripe rs) = map core rs"
proof -
  have "core ((\<lambda>(i, r). r\<lparr>no_style1 := even i, no_style2 := odd i\<rparr>) p) = core (snd p)" for p :: "nat \<times> node_row"
    by (cases p) simp
  then have "map core (stripe rs) = map core (map snd (zip [0..<length rs] rs))"
    by (simp only: stripe_def map_map comp_def)
  then show ?thesis by (simp add: map_snd_zip)
qed

lemma length_stripe [simp]: "length (stripe rs) = length rs"
  by (simp add: stripe_def)

lemma apply_order_rows: "rows_of (applyOrder e rs t) = stripe rs"
  by (simp add: applyOrder_def rows_of_def dataRows_append dataRows_others)

section \<open>One sort\<close>

definition ids :: "page_env \<Rightarrow> node_table \<Rightarrow> jsstr list" where
  "ids e t = map (rowId e) (rows_of t)"

lemma rows_of_update [simp]:
  "rows_of (t\<lparr>tb_headers := a\<rparr>) = rows_of t" "rows_of (t\<lparr>tb_note := b\<rparr>) = rows_of t"
  "rows_of (t\<lparr>tb_wait := c\<rparr>) = rows_of t"
  by (simp_all add: rows_of_def)

lemma do_sort_frame [simp]:
  "tb_wait (doSort e th sub key t) = tb_wait t" "tb_orig (doSort e th sub key t) = tb_orig t"
  "tb_ready (doSort e th sub key t) = tb_ready t" "tb_id (doSort e th sub key t) = tb_id t"
  by (simp_all add: doSort_def Let_def applyOrder_def split: option.split)

lemma do_sort_rows:
  fixes th :: nat and key :: string
  assumes "tb_headers t = Some hs" and "infoOf e (tb_id t) \<noteq> None" and "2 \<le> length (rows_of t)"
  defines "rows \<equiv> (if key = ''orig'' then original_rows e (tb_orig t) (rows_of t)
                  else sorted_rows e key (next_dir key (hs ! th)) (rows_of t))"
  shows "map core (rows_of (doSort e th sub key t)) = map core rows"
    and "tb_orders (doSort e th sub key t) = tb_orders t @ [map (rowId e) rows]"
proof -
  have go: "\<not> (infoOf e (tb_id t) = None \<or> length (rows_of t) < 2)" using assms(2,3) by simp
  let ?t1 = "refreshFilter e (applyOrder e rows t)"
  have "rows_of (doSort e th sub key t) = rows_of ?t1" "tb_orders (doSort e th sub key t) = tb_orders ?t1"
    unfolding doSort_def assms(1) option.case Let_def if_not_P [OF go] rows_def by simp_all
  then show "map core (rows_of (doSort e th sub key t)) = map core rows"
    and "tb_orders (doSort e th sub key t) = tb_orders t @ [map (rowId e) rows]"
    by (simp_all add: refresh_core apply_order_rows stripe_core) (simp add: applyOrder_def)
qed

lemma do_sort_none:
  "tb_headers t = None \<or> infoOf e (tb_id t) = None \<or> length (rows_of t) < 2 \<Longrightarrow> doSort e th sub key t = t"
  by (auto simp: doSort_def Let_def split: option.splits)

section \<open>The abstract list\<close>

text \<open>
  What the list promises to the page that saves it: a list of node ids that is only ever permuted,
  and what is posted as the new order is the list as it stands.
\<close>

inductive list_step :: "jsstr list \<times> jsstr list list \<Rightarrow> jsstr list \<times> jsstr list list \<Rightarrow> bool" where
  Stay: "list_step (xs, ps) (xs, ps)"
| Moved: "mset ys = mset xs \<Longrightarrow> list_step (xs, ps) (ys, ps)"
| Sorted: "mset ys = mset xs \<Longrightarrow> list_step (xs, ps) (ys, ps @ [ys])"

inductive_cases list_stepE: "list_step (xs, ps) (ys, qs)"

definition list_view :: "page_env \<Rightarrow> node_table \<Rightarrow> jsstr list \<times> jsstr list list" where
  "list_view e t = (ids e t, tb_orders t)"

lemma ids_core: "map core (rows_of t) = map core (rows_of s) \<Longrightarrow> ids e t = ids e s"
  unfolding ids_def by (rule map_core_ids)

lemma ids_refresh: "ids e (refreshFilter e t) = ids e t"
  by (rule ids_core [OF refresh_core])

lemma ids_body: "tb_body t = tb_body s \<Longrightarrow> ids e t = ids e s"
  by (simp add: ids_def rows_of_def)

lemma stay_refresh: "tb_body s = tb_body t \<Longrightarrow> tb_orders s = tb_orders t \<Longrightarrow> list_step (list_view e t) (list_view e (refreshFilter e s))"
  using ids_refresh [of e s] ids_body [of s t e] by (simp add: list_view_def Stay)

lemma mset_rows: "mset (sorted_rows e key d rows) = mset rows" "mset (original_rows e orig rows) = mset rows"
  by (simp_all add: sorted_rows_eq original_rows_def sort_permutes)

lemma list_do_sort: "list_step (list_view e t) (list_view e (doSort e th sub key t))"
proof (cases "tb_headers t = None \<or> infoOf e (tb_id t) = None \<or> length (rows_of t) < 2")
  case True
  then show ?thesis by (simp add: do_sort_none list_view_def Stay)
next
  case False
  then obtain hs where hs: "tb_headers t = Some hs" by auto
  let ?rows = "if key = ''orig'' then original_rows e (tb_orig t) (rows_of t)
    else sorted_rows e key (next_dir key (hs ! th)) (rows_of t)"
  have r: "map core (rows_of (doSort e th sub key t)) = map core ?rows"
    "tb_orders (doSort e th sub key t) = tb_orders t @ [map (rowId e) ?rows]"
    using do_sort_rows [OF hs] False by simp_all
  have "mset ?rows = mset (rows_of t)" by (simp add: mset_rows)
  then have "mset (map (rowId e) ?rows) = mset (ids e t)" by (simp add: ids_def mset_map)
  moreover have "ids e (doSort e th sub key t) = map (rowId e) ?rows"
    unfolding ids_def by (rule map_core_ids [OF r(1)])
  ultimately show ?thesis using Sorted r(2) by (simp only: list_view_def)
qed

lemma list_view_update [simp]:
  "list_view e (t\<lparr>tb_wait := x\<rparr>) = list_view e t" "list_view e (t\<lparr>tb_note := y\<rparr>) = list_view e t"
  by (simp_all add: list_view_def ids_def)

lemma list_stay: "list_step (list_view e t) (list_view e t)"
  by (simp add: list_view_def Stay)

lemma list_wait: "list_step (list_view e t) (list_view e (wait_tick e now s a t))"
proof (cases "tb_wait t")
  case None
  then show ?thesis by (simp add: wait_tick_def list_stay)
next
  case (Some w)
  then show ?thesis
    using list_do_sort [of e "t\<lparr>tb_wait := None\<rparr>" "wt_th w" "wt_sub w" "wt_key w"]
    by (simp add: wait_tick_def Let_def list_stay)
qed

lemma list_request: "list_step (list_view e t) (list_view e (requestSort e now s th sub key t))"
  using list_do_sort [of e "t\<lparr>tb_wait := None\<rparr>" th sub key]
  by (simp add: requestSort_def Let_def list_stay)

lemma set_row_ids:
  assumes "i < length (rows_of t)" and "no_id r = no_id (rows_of t ! i)"
  shows "list_view e (set_row i r t) = list_view e t"
proof -
  have "rowId e r = rowId e (rows_of t ! i)" using assms(2) by (simp add: rowId_def Let_def)
  then have "map (rowId e) ((rows_of t)[i := r]) = map (rowId e) (rows_of t)"
    using assms(1) by (simp add: map_update list_update_same_conv)
  then show ?thesis by (simp add: list_view_def ids_def set_row_def rows_of_def dataRows_put)
qed

lemma enhance_frame: "tb_body (enhance e t) = tb_body t" "tb_orders (enhance e t) = tb_orders t"
  by (simp_all add: enhance_def Let_def split: option.split)

lemma node_list_step:
  assumes "node_step e ev t = Some t'"
  shows "list_step (list_view e t) (list_view e t')"
proof (cases ev)
  case (Reordered body)
  then have m: "mset (map no_id (dataRows body)) = mset (map no_id (rows_of t))" and t': "t' = t\<lparr>tb_body := body\<rparr>"
    using assms by (simp_all add: node_step_def split: if_splits)
  define g where "g i = (let prefix = js ''cbi-'' @ pe_app e @ js ''-'' in
    if starts_with prefix i then drop (length prefix) i else i)" for i
  have "rowId e = g \<circ> no_id" by (intro ext) (simp add: rowId_def g_def)
  then have "mset (ids e t') = mset (ids e t)"
    using arg_cong [OF m, of "image_mset g"] by (simp add: ids_def rows_of_def t' image_mset.compositionality)
  then show ?thesis by (simp add: list_view_def t' Moved)
next
  case Enhanced
  then show ?thesis using assms stay_refresh [of "enhance e t" t e] by (simp add: node_step_def enhanceAll_def enhance_frame)
next
  case (Click now s th sub key)
  then show ?thesis using assms list_request by (auto simp: node_step_def)
next
  case (Wait_fires now s a)
  then show ?thesis using assms list_wait by (auto simp: node_step_def split: if_splits)
next
  case (Chosen key v)
  then show ?thesis using assms stay_refresh by (auto simp: node_step_def choose_filter_def split: if_splits)
next
  case (Searched q)
  then show ?thesis using assms stay_refresh by (auto simp: node_step_def search_def split: if_splits)
next
  case Was_reset
  then show ?thesis using assms stay_refresh by (auto simp: node_step_def reset_def split: if_splits)
next
  case (Ping_result i j x)
  then have "list_view e t' = list_view e t" using assms by (auto simp: node_step_def Let_def set_row_ids split: if_splits)
  then show ?thesis by (simp add: list_view_def Stay)
next
  case (Ticked i b)
  then have "list_view e t' = list_view e t" using assms by (auto simp: node_step_def set_row_ids split: if_splits)
  then show ?thesis by (simp add: list_view_def Stay)
qed

text \<open>C2: the node list implements a list of node ids that is only ever permuted: whatever the script,
  the template, the network and the user do, no node is lost or doubled, and every order that is
  posted is the order of the rows.\<close>

theorem node_list_refines:
  assumes "node_step e ev t = Some t'"
  shows "list_step (ids e t, tb_orders t) (ids e t', tb_orders t')"
  using node_list_step [OF assms] by (simp add: list_view_def)

section \<open>The original order\<close>

definition orig_ok :: "page_env \<Rightarrow> node_table \<Rightarrow> bool" where
  "orig_ok e t \<longleftrightarrow> (tb_ready t \<longrightarrow> mset (tb_orig t) = mset (ids e t))"

lemma list_step_mset: "list_step (xs, ps) (ys, qs) \<Longrightarrow> mset ys = mset xs"
  by (erule list_stepE) auto

lemma wait_tick_frame [simp]:
  "tb_orig (wait_tick e now s a t) = tb_orig t" "tb_ready (wait_tick e now s a t) = tb_ready t"
  by (simp_all add: wait_tick_def Let_def split: option.split)

lemma request_frame [simp]:
  "tb_orig (requestSort e now s th sub key t) = tb_orig t" "tb_ready (requestSort e now s th sub key t) = tb_ready t"
  by (simp_all add: requestSort_def Let_def)

lemma step_orig:
  assumes "node_step e ev t = Some t'" and "ev \<noteq> Enhanced"
  shows "tb_orig t' = tb_orig t" and "tb_ready t' = tb_ready t"
  using assms
  by (cases ev; auto simp: node_step_def choose_filter_def search_def reset_def set_row_def Let_def split: if_splits)+

lemma orig_step:
  assumes "node_step e ev t = Some t'" and "orig_ok e t"
  shows "orig_ok e t'"
proof -
  have m: "mset (ids e t') = mset (ids e t)"
    using list_step_mset [of "ids e t" "tb_orders t" "ids e t'" "tb_orders t'"] node_list_step
      [OF assms(1)] by (simp add: list_view_def)
  show ?thesis
  proof (cases "ev = Enhanced")
    case True
    then have t': "t' = refreshFilter e (enhance e t)" using assms(1) by (simp add: node_step_def enhanceAll_def)
    have "tb_orig (enhance e t) = ids e t \<and> tb_ready (enhance e t) \<or> tb_orig (enhance e t) = tb_orig t \<and> tb_ready (enhance e t) = tb_ready t"
      by (simp add: enhance_def Let_def ids_def split: option.split)
    then show ?thesis using assms(2) m by (auto simp: orig_ok_def t')
  next
    case False
    then show ?thesis using step_orig [OF assms(1)] assms(2) m by (simp add: orig_ok_def)
  qed
qed

lemma orig_reachable: "node_reachable e t0 t \<Longrightarrow> orig_ok e t0 \<Longrightarrow> orig_ok e t"
  by (induction rule: node_reachable.induct) (auto intro: orig_step)

lemma orig_pos_nth: "distinct orig \<Longrightarrow> i < length orig \<Longrightarrow> orig_pos orig (orig ! i) = int i"
proof -
  assume d: "distinct orig" and i: "i < length orig"
  have "n \<le> length orig \<Longrightarrow> i < n \<Longrightarrow> obj_get (foldl (\<lambda>m n. obj_put (orig ! n) n m) [] [0..<n]) (orig ! i) = Some i" for n
  proof (induction n)
    case (Suc n)
    then show ?case using d by (cases "i = n") (auto simp: nth_eq_iff_index_eq)
  qed simp
  then show ?thesis using i by (simp add: orig_pos_def)
qed

lemma original_rows_ids:
  assumes "distinct orig" and "mset (map (rowId e) rows) = mset orig"
  shows "map (rowId e) (original_rows e orig rows) = orig"
proof -
  let ?ids = "map (rowId e) (original_rows e orig rows)"
  have m: "mset ?ids = mset orig" using assms(2) by (simp add: mset_rows)
  have "sorted_wrt (\<lambda>a b. orig_pos orig (rowId e a) - orig_pos orig (rowId e b) \<le> 0) (original_rows e orig rows)"
    unfolding original_rows_def by (rule original.sort_sorted)
  then have s: "sorted (map (orig_pos orig) ?ids)"
    by (simp add: sorted_wrt_map)
  have pos: "map (orig_pos orig) orig = map int [0..<length orig]"
    using orig_pos_nth [OF assms(1)] by (intro nth_equalityI) simp_all
  have inj: "inj_on (orig_pos orig) (set orig)"
    using orig_pos_nth [OF assms(1)] by (auto simp: inj_on_def in_set_conv_nth)
  have set: "set ?ids = set orig" using m by (metis set_mset_mset)
  have d: "distinct ?ids" using m assms(1) by (metis mset_eq_imp_distinct_iff)
  show ?thesis
  proof (rule map_sorted_distinct_set_unique)
    show "inj_on (orig_pos orig) (set ?ids \<union> set orig)" using inj set by simp
    show "sorted (map (orig_pos orig) orig)" unfolding pos by (simp add: sorted_wrt_map)
    show "distinct (map (orig_pos orig) ?ids)" "distinct (map (orig_pos orig) orig)"
      using d assms(1) inj set by (simp_all only: distinct_map [of "orig_pos orig"])
  qed (rule s set)+
qed


section \<open>Sorting by a column\<close>

text \<open>C22: sorting by a key permutes the rows, orders them by the key in the direction of the header with
  the rows without a value last, keeps rows that compare equal in their order, and posts the result;
  the direction is ascending unless the header last sorted ascending by the same key.\<close>

theorem sort_by_key:
  fixes th :: nat
  assumes "comparison (cmpText e)" and "key \<noteq> ''orig''" and "tb_headers t = Some hs"
    and "infoOf e (tb_id t) \<noteq> None" and "2 \<le> length (rows_of t)"
  defines "rows \<equiv> sorted_rows e key (next_dir key (hs ! th)) (rows_of t)"
    and "c \<equiv> row_order e key (next_dir key (hs ! th)) (colIndexMap (rows_of t))"
  shows "ids e (doSort e th sub key t) = map (rowId e) rows
    \<and> tb_orders (doSort e th sub key t) = tb_orders t @ [map (rowId e) rows]
    \<and> mset rows = mset (rows_of t) \<and> sorted_wrt (\<lambda>a b. c a b \<le> 0) rows
    \<and> filter (\<lambda>r. c r s = 0) rows = filter (\<lambda>r. c r s = 0) (rows_of t)"
proof -
  have cmp: "comparison c" unfolding c_def using assms(1) by (rule comparison_row_order)
  have rows: "rows = sort_cmp c (rows_of t)" by (simp add: rows_def c_def sorted_rows_eq)
  have same: "c a b = 0" if "c a s = 0" "c b s = 0" for a b
    using that comparison.eq_trans [OF cmp, of a s b] comparison.swap_eq [OF cmp, of b s] by simp
  note r = do_sort_rows [OF assms(3-5), where key = key and th = th and sub = sub]
  have "ids e (doSort e th sub key t) = map (rowId e) rows"
    unfolding ids_def rows_def using r(1) assms(2) by (intro map_core_ids) simp
  moreover have "tb_orders (doSort e th sub key t) = tb_orders t @ [map (rowId e) rows]"
    using r(2) assms(2) by (simp add: rows_def)
  ultimately show ?thesis
    using comparison.sort_sorted [OF cmp, of "rows_of t"] comparison.sort_stable [OF cmp same, where xs = "rows_of t"]
    by (simp add: rows sort_permutes)
qed

section \<open>Filtering\<close>

lemma filter_rows_nth:
  "j < length rs \<Longrightarrow>
     (let r = rs ! j; r' = fst (filter_rows ok i k rs) ! j in
      no_hidden r' = (\<not> ok (i + j) r)
      \<and> no_check r' = (if \<not> ok (i + j) r \<and> no_check r = Some True then Some False else no_check r))"
proof (induction ok i k rs arbitrary: j rule: filter_rows.induct)
  case (2 ok i k r rs)
  show ?case
  proof (cases j)
    case 0
    then show ?thesis by (auto simp: Let_def split: prod.split)
  next
    case (Suc m)
    then have "m < length rs" using 2(3) by simp
    then show ?thesis
      using 2(1,2) Suc by (cases "ok i r") (auto simp: Let_def split: prod.splits)
  qed
qed simp


section \<open>Waiting for ping results\<close>

text \<open>Neither a click nor the timer moves a row or posts an order while a ping request is running.\<close>

theorem no_sort_while_pinging:
  assumes "0 < fst (pingBusy e s)"
  shows "list_view e (requestSort e now s th sub key t) = list_view e t
    \<and> list_view e (wait_tick e now s attached t) = list_view e t"
proof -
  have "pingBusy e s \<noteq> (0, 0)" using assms by auto
  then have "list_view e (requestSort e now s th sub key t) = list_view e t"
    by (simp add: requestSort_def Let_def)
  moreover have "list_view e (wait_tick e now s attached t) = list_view e t"
    using assms by (cases "tb_wait t") (auto simp: wait_tick_def Let_def)
  ultimately show ?thesis ..
qed

definition tick :: "page_env \<Rightarrow> node_table \<Rightarrow> nat \<times> ping_state \<times> bool \<Rightarrow> node_table" where
  "tick e t x = wait_tick e (fst x) (fst (snd x)) (snd (snd x)) t"

lemma tick_wait:
  "tb_wait (tick e t x) = None
   \<or> (\<exists>w w'. tb_wait t = Some w \<and> tb_wait (tick e t x) = Some w' \<and> wt_started w' = wt_started w
        \<and> fst x \<le> wt_started w + 120000)"
  by (cases "tb_wait t") (auto simp: tick_def wait_tick_def Let_def)

lemma ticks_wait:
  "tb_wait (foldl (tick e) t evs) = None
   \<or> (\<exists>w w'. tb_wait t = Some w \<and> tb_wait (foldl (tick e) t evs) = Some w' \<and> wt_started w' = wt_started w
        \<and> list_all (\<lambda>x. fst x \<le> wt_started w + 120000) evs)"
proof (induction evs rule: rev_induct)
  case Nil
  then show ?case by (cases "tb_wait t") simp_all
next
  case (snoc ev evs)
  show ?case
    using tick_wait [of e "foldl (tick e) t evs" ev] snoc by auto
qed

text \<open>Waiting ends: when the interval function has run 241 times, at least 500 ms apart, the wait is
  over, whatever the requests do.\<close>

theorem wait_ends:
  assumes "tb_wait t = Some w" and "length evs = 241"
    and "list_all (\<lambda>i. wt_started w + 500 * (i + 1) \<le> fst (evs ! i)) [0..<241]"
  shows "tb_wait (foldl (tick e) t evs) = None"
proof (rule ccontr)
  assume "tb_wait (foldl (tick e) t evs) \<noteq> None"
  then have "list_all (\<lambda>x. fst x \<le> wt_started w + 120000) evs"
    using ticks_wait [of e t evs] assms(1) by auto
  then have "fst (evs ! 240) \<le> wt_started w + 120000"
    using assms(2) by (simp add: list_all_length case_prod_unfold)
  moreover have "wt_started w + 500 * (240 + 1) \<le> fst (evs ! 240)"
    using assms(3) unfolding list_all_iff by (rule bspec) simp
  ultimately show False by simp
qed

section \<open>Inputs to apply them to\<close>

definition demo_row :: "string \<Rightarrow> string \<Rightarrow> node_row" where
  "demo_row i remark =
     \<lparr>no_id = js (''cbi-pw-'' @ i), no_cells = [\<lparr>ce_classes = [''pw-remark''], ce_text = js remark\<rparr>],
      no_hidden = False, no_style1 = False, no_style2 = False, no_check = Some True\<rparr>"

definition demo_env :: page_env where
  "demo_env =
     \<lparr>pe_app = js ''pw'', pe_inputs = (\<lambda>_. None), pe_text = [],
      pe_collator = Some (\<lambda>a b. int (length a) - int (length b)), pe_low = id, pe_letter = (\<lambda>_. True)\<rparr>"

definition demo_table :: node_table where
  "demo_table =
     \<lparr>tb_id = js ''cbi-pw-nodes-g-table'',
      tb_body = [Other, Row (demo_row ''a'' ''ss:333''), Row (demo_row ''b'' ''vm:22''), Row (demo_row ''c'' ''ss:1'')],
      tb_headers = Some [\<lparr>hd_actions = False, hd_sort = None, hd_key = None, hd_dir = None, hd_arrow = None, hd_subs = []\<rparr>],
      tb_ready = False, tb_orig = [], tb_note = None, tb_wait = None, tb_sel = [], tb_q = js ''vm'', tb_sig = None,
      tb_bar = None, tb_orders = [], tb_updates = 0\<rparr>"

definition idle_pings :: ping_state where
  "idle_pings = \<lparr>pi_mode = None, pi_requests = [], pi_icmp = [], pi_tcping = [], pi_full = (\<lambda>_. None)\<rparr>"

definition busy_pings :: ping_state where
  "busy_pings = \<lparr>pi_mode = Some (js ''icmp''), pi_requests = [1], pi_icmp = [], pi_tcping = [], pi_full = (\<lambda>_. None)\<rparr>"

lemma demo_facts:
  "comparison (cmpText demo_env)" "infoOf demo_env (tb_id demo_table) \<noteq> None" "length (rows_of demo_table) = 3"
proof -
  have "cmpText demo_env = (\<lambda>a b. int (length a) - int (length b))"
    by (intro ext) (simp add: cmpText_def demo_env_def)
  then show "comparison (cmpText demo_env)" using comparison_key [of "\<lambda>a. int (length a)"] by simp
qed code_simp+

lemma demo_enhanced:
  "tb_orig (enhance demo_env demo_table) = [js ''a'', js ''b'', js ''c'']"
  "tb_ready (enhance demo_env demo_table)" "tb_headers (enhance demo_env demo_table) \<noteq> None"
  by code_simp+

lemma demo_sorted: "map (rowId demo_env) (sorted_rows demo_env ''name'' Asc (rows_of demo_table)) = [js ''c'', js ''b'', js ''a'']"
  by code_simp

theorem node_list_refines_witness:
  "list_step (ids demo_env demo_table, []) (ids demo_env (requestSort demo_env 0 idle_pings 0 False ''name'' demo_table),
     tb_orders (requestSort demo_env 0 idle_pings 0 False ''name'' demo_table))"
  using node_list_refines [of demo_env "Click 0 idle_pings 0 False ''name''" demo_table]
  by (simp add: node_step_def demo_table_def)

theorem sort_by_key_witness:
  "tb_orders (doSort demo_env 0 False ''name'' demo_table) = [[js ''c'', js ''b'', js ''a'']]"
proof -
  have h: "tb_headers demo_table = Some [\<lparr>hd_actions = False, hd_sort = None, hd_key = None, hd_dir = None, hd_arrow = None, hd_subs = []\<rparr>]"
    "tb_orders demo_table = []"
    by (simp_all add: demo_table_def)
  show ?thesis
    using sort_by_key [OF demo_facts(1) _ h(1) demo_facts(2), of "''name''" 0 False] demo_facts(3) demo_sorted h(2)
    by (simp add: next_dir_def)
qed



theorem no_sort_while_pinging_witness:
  "ids demo_env (requestSort demo_env 0 busy_pings 0 False ''name'' demo_table) = [js ''a'', js ''b'', js ''c'']"
proof -
  have "0 < fst (pingBusy demo_env busy_pings)" by (simp add: pingBusy_def busy_pings_def Let_def)
  from no_sort_while_pinging [OF this, of 0 0 False "''name''" demo_table] 
  have "ids demo_env (requestSort demo_env 0 busy_pings 0 False ''name'' demo_table) = ids demo_env demo_table"
    by (simp add: list_view_def)
  also have "\<dots> = [js ''a'', js ''b'', js ''c'']" by code_simp
  finally show ?thesis .
qed

theorem wait_ends_witness:
  "tb_wait (foldl (tick demo_env) (requestSort demo_env 7 busy_pings 0 False ''name'' demo_table)
     (map (\<lambda>i. (507 + 500 * i, busy_pings, True)) [0..<241])) = None"
proof -
  have "pingBusy demo_env busy_pings \<noteq> (0, 0)" by (simp add: pingBusy_def busy_pings_def Let_def)
  then have w: "tb_wait (requestSort demo_env 7 busy_pings 0 False ''name'' demo_table)
      = Some \<lparr>wt_started = 7, wt_idle = 0, wt_th = 0, wt_sub = False, wt_key = ''name''\<rparr>"
    by (simp add: requestSort_def Let_def)
  show ?thesis by (rule wait_ends [OF w]) (simp_all add: list_all_iff del: upt_Suc)
qed

end
