(* ===== verification/ThemeVersion.thy ===== *)
theory ThemeVersion
  imports JsRegExp JsNumber JsDouble JsSort
begin

text \<open>
  The versions and releases of the Argon theme, in \<open>argon/updates.js\<close>: what a version text means, the
  order of versions, and the package that a release offers to the package manager of the router.
\<close>

section \<open>Versions\<close>

definition dotted_re :: re where
  \<comment> \<open>\<open>[0-9]+(?:\.[0-9]+){1,3}\<close>\<close>
  "dotted_re =
     (let part = Seq (chr (CHR ''.'')) (plus digit) in
      Seq (plus digit) (Seq part (Opt (Seq part (Opt part)))))"

definition stage_re :: re where
  "stage_re = alts [lit ''alpha'', lit ''beta'', lit ''rc'']"

definition version_re :: re where
  "version_re =
     seqs [Opt (chr (CHR ''v'')), Cap 1 dotted_re,
           Opt (Alt (seqs [Cls (\<lambda>u. u \<in> set (js ''~_'')), Cap 2 stage_re, Cap 3 (plus digit)])
                    (seqs [chr (CHR ''-''), Cap 4 stage_re, chr (CHR ''.''), Cap 5 (plus digit)])),
           Opt (seqs [chr (CHR ''-''), Opt (chr (CHR ''r'')), Cap 6 (plus digit)]), Eol]"

definition stage_rank :: "jsstr \<Rightarrow> int" where
  "stage_rank s = (if s = js ''alpha'' then 0 else if s = js ''beta'' then 1 else 2)"

definition first_group :: "caps \<Rightarrow> nat \<Rightarrow> nat \<Rightarrow> jsstr option" where
  \<comment> \<open>\<open>m[i] || m[j]\<close>; a group that took part is not empty here\<close>
  "first_group m i j = (case m i of Some s \<Rightarrow> Some s | None \<Rightarrow> m j)"

definition version :: "jsstr \<Rightarrow> int list option" where
  \<comment> \<open>\<open>Number\<close> of a digit text is its value where that is a safe integer, and no safe integer otherwise\<close>
  "version text =
     (if 80 < length text then None
      else case exec version_re text of
             None \<Rightarrow> None
           | Some m \<Rightarrow>
               let num = (\<lambda>s d. case s of Some t \<Rightarrow> int (digits t) | None \<Rightarrow> d);
                   main = map (\<lambda>p. int (digits p)) (split_on (js ''.'') (the (m 1)));
                   parts = main @ replicate (4 - length main) 0
                     @ [case first_group m 2 4 of Some s \<Rightarrow> stage_rank s | None \<Rightarrow> 3,
                        num (first_group m 3 5) 0, num (m 6) 1]
               in if list_all is_safe parts then Some parts else None)"

fun compare :: "int list \<Rightarrow> int list \<Rightarrow> int" where
  "compare (x # a) (y # b) = (if x \<noteq> y then (if x < y then - 1 else 1) else compare a b)"
| "compare (x # a) [] = 1"
| "compare [] b = 0"

section \<open>Releases\<close>

text \<open>The reply of the router service; a field that is no text is \<open>None\<close>.\<close>

record upgrade =
  up_active :: bool
  up_phase :: jsstr
  up_error :: jsstr
  up_log :: "jsstr option"

record update_state =
  us_result :: "int option"
  us_tag :: "jsstr option"
  us_manager :: jsstr
  us_ipk :: "jsstr option"
  us_apk :: "jsstr option"
  us_current :: "jsstr option"
  us_can_upgrade :: bool
  us_upgrade :: "upgrade option"
  us_retry_at :: "int option"
  us_checked_at :: "int option"
  us_notes :: "jsstr option"

record release =
  re_tag :: jsstr
  re_file :: "jsstr option"
  re_version :: jsstr
  re_parsed :: "int list option"

definition tag_re :: re where
  "tag_re = seqs [Opt (chr (CHR ''v'')), dotted_re, Eol]"

definition lower_letter :: "cu \<Rightarrow> bool" where
  "lower_letter u \<longleftrightarrow> 97 \<le> unat u \<and> unat u \<le> 122"

definition ipk_re :: re where
  \<comment> \<open>\<open>/^luci-theme-argon_([0-9][0-9.~a-z-]*)_all\.ipk$/\<close>\<close>
  "ipk_re =
     seqs [lit ''luci-theme-argon_'',
           Cap 1 (Seq (Cls digit) (Star (\<lambda>u. digit u \<or> lower_letter u \<or> u \<in> set (js ''.~-'')))),
           lit ''_all.ipk'', Eol]"

definition apk_re :: re where
  \<comment> \<open>\<open>/^luci-theme-argon-([0-9][0-9._a-z-]*)\.apk$/\<close>\<close>
  "apk_re =
     seqs [lit ''luci-theme-argon-'',
           Cap 1 (Seq (Cls digit) (Star (\<lambda>u. digit u \<or> lower_letter u \<or> u \<in> set (js ''._-'')))),
           lit ''.apk'', Eol]"

definition package_file :: "update_state \<Rightarrow> jsstr option" where
  "package_file s = (if us_manager s = js ''opkg'' then us_ipk s else us_apk s)"

definition package_match :: "update_state \<Rightarrow> jsstr option" where
  \<comment> \<open>the version in the name of the package\<close>
  "package_match s =
     (case package_file s of
        None \<Rightarrow> None
      | Some f \<Rightarrow>
          (case (if us_manager s = js ''opkg'' then exec ipk_re f
                 else if us_manager s = js ''apk'' then exec apk_re f else None) of
             None \<Rightarrow> None | Some m \<Rightarrow> m 1))"

definition latest_release :: "update_state option \<Rightarrow> release option" where
  "latest_release state =
     (case state of
        None \<Rightarrow> None
      | Some s \<Rightarrow>
          (case us_tag s of
             None \<Rightarrow> None
           | Some tag \<Rightarrow>
               if \<not> test tag_re tag then None
               else Some
                 (case (package_match s, Option.bind (package_match s) version, version tag) of
                    (Some v, Some parsed, Some t) \<Rightarrow>
                      if parsed ! 4 = 3 \<and> take 4 parsed = take 4 t
                      then \<lparr>re_tag = tag, re_file = package_file s, re_version = v, re_parsed = Some parsed\<rparr>
                      else \<lparr>re_tag = tag, re_file = None, re_version = tag, re_parsed = None\<rparr>
                  | _ \<Rightarrow> \<lparr>re_tag = tag, re_file = None, re_version = tag, re_parsed = None\<rparr>)))"

section \<open>The order of versions\<close>

lemma compare_swap: "length a = length b \<Longrightarrow> compare b a = - compare a b"
  by (induction a b rule: list_induct2) auto

lemma compare_eq: "length a = length b \<Longrightarrow> compare a b = 0 \<longleftrightarrow> a = b"
  by (induction a b rule: list_induct2) auto

lemma compare_less: "length a = length b \<Longrightarrow> compare a b < 0 \<longleftrightarrow> (a, b) \<in> lexord {(x, y). x < y}"
  by (induction a b rule: list_induct2) auto

lemma compare_trans:
  "length a = length b \<Longrightarrow> length b = length c \<Longrightarrow> compare a b \<le> 0 \<Longrightarrow> compare b c \<le> 0 \<Longrightarrow> compare a c \<le> 0"
  by (induction a b c rule: list_induct3) (auto split: if_splits)

section \<open>What the patterns accept\<close>

definition digit_text :: "jsstr \<Rightarrow> bool" where
  "digit_text p \<longleftrightarrow> p \<noteq> [] \<and> (\<forall>u\<in>set p. digit u)"

lemma plus_SomeD:
  "rmatch (plus digit) s c k = Some r \<Longrightarrow> \<exists>p t. s = p @ t \<and> digit_text p \<and> k t c = Some r"
proof -
  assume "rmatch (plus digit) s c k = Some r"
  then obtain x s' where x: "s = x # s'" "digit x" "star digit s' (\<lambda>t. k t c) = Some r"
    by (auto simp: plus_def split: list.splits if_splits)
  from star_SomeD [OF this(3)] obtain a b where "s' = a @ b" "\<forall>u\<in>set a. digit u" "k b c = Some r" by blast
  then have "s = (x # a) @ b" "digit_text (x # a)" "k b c = Some r" using x by (simp_all add: digit_text_def)
  then show ?thesis by blast
qed

lemma part_SomeD:
  assumes "rmatch (Seq (chr (CHR ''.'')) (plus digit)) s c k = Some r"
  shows "\<exists>p t. s = js ''.'' @ p @ t \<and> digit_text p \<and> k t c = Some r"
proof -
  from assms obtain s' where "s = js ''.'' @ s'" "rmatch (plus digit) s' c k = Some r"
    by (auto simp: chr_def js_Cons split: list.splits if_splits)
  with plus_SomeD [OF this(2)] show ?thesis by blast
qed

abbreviation dot_part :: re where
  "dot_part \<equiv> Seq (chr (CHR ''.'')) (plus digit)"

lemma seq_part_SomeD:
  "rmatch (Seq dot_part q) s c k = Some r \<Longrightarrow> \<exists>p t. s = js ''.'' @ p @ t \<and> digit_text p \<and> rmatch q t c k = Some r"
  by (rule part_SomeD) (simp only: rmatch.simps(4))

lemma opt_SomeD:
  "rmatch (Opt q) s c k = Some r \<Longrightarrow>
     rmatch q s c (\<lambda>t d. if length t = length s then None else k t d) = Some r \<or> k s c = Some r"
  unfolding rmatch.simps(6) by (rule or_else_SomeD)

lemma rest_Some: "(if length t = length s then None else k t d) = Some r \<Longrightarrow> k t d = Some r"
  by (simp split: if_splits)

lemma dotted_SomeD:
  assumes "rmatch dotted_re s c k = Some r"
  shows "\<exists>ps t. s = join (js ''.'') ps @ t \<and> length ps \<in> {2, 3, 4} \<and> list_all digit_text ps \<and> k t c = Some r"
proof -
  have ex: ?thesis if "s = join (js ''.'') ps @ t" "length ps \<in> {2, 3, 4}" "list_all digit_text ps" "k t c = Some r" for ps t
    using that by blast
  have "rmatch (plus digit) s c (\<lambda>t d. rmatch (Seq dot_part (Opt (Seq dot_part (Opt dot_part)))) t d k) = Some r"
    using assms by (simp only: dotted_re_def Let_def rmatch.simps(4))
  from plus_SomeD [OF this] obtain p0 t0 where 0: "s = p0 @ t0" "digit_text p0"
    "rmatch (Seq dot_part (Opt (Seq dot_part (Opt dot_part)))) t0 c k = Some r" by blast
  from seq_part_SomeD [OF 0(3)] obtain p1 t1 where 1: "t0 = js ''.'' @ p1 @ t1" "digit_text p1"
    "rmatch (Opt (Seq dot_part (Opt dot_part))) t1 c k = Some r" by blast
  let ?k = "\<lambda>t d. if length t = length t1 then None else k t d"
  from opt_SomeD [OF 1(3)] show ?thesis
  proof
    assume "k t1 c = Some r"
    with 0 1 show ?thesis by (intro ex [of "[p0, p1]" t1]) simp_all
  next
    assume "rmatch (Seq dot_part (Opt dot_part)) t1 c ?k = Some r"
    from seq_part_SomeD [OF this] obtain p2 t2 where 2: "t1 = js ''.'' @ p2 @ t2" "digit_text p2"
      "rmatch (Opt dot_part) t2 c ?k = Some r" by blast
    from opt_SomeD [OF this(3)] show ?thesis
    proof
      assume "?k t2 c = Some r"
      then have "k t2 c = Some r" by (rule rest_Some)
      with 0 1 2 show ?thesis by (intro ex [of "[p0, p1, p2]" t2]) simp_all
    next
      assume "rmatch dot_part t2 c (\<lambda>t d. if length t = length t2 then None else ?k t d) = Some r"
      from part_SomeD [OF this] obtain p3 t3 where 3: "t2 = js ''.'' @ p3 @ t3" "digit_text p3"
        "(if length t3 = length t2 then None else ?k t3 c) = Some r" by blast
      from this(3) have "k t3 c = Some r" by (simp split: if_splits)
      with 0 1 2 3 show ?thesis by (intro ex [of "[p0, p1, p2, p3]" t3]) simp_all
    qed
  qed
qed

lemma version_groups:
  assumes "exec version_re s = Some m"
  shows "\<exists>ps. m 1 = Some (join (js ''.'') ps) \<and> length ps \<in> {2, 3, 4} \<and> list_all digit_text ps"
proof -
  let ?rest = "seqs [Opt (Alt (seqs [Cls (\<lambda>u. u \<in> set (js ''~_'')), Cap 2 stage_re, Cap 3 (plus digit)])
                    (seqs [chr (CHR ''-''), Cap 4 stage_re, chr (CHR ''.''), Cap 5 (plus digit)])),
           Opt (seqs [chr (CHR ''-''), Opt (chr (CHR ''r'')), Cap 6 (plus digit)]), Eol]"
  from assms have "rmatch (Opt (chr (CHR ''v''))) s Map.empty
      (\<lambda>t d. rmatch (Cap 1 dotted_re) t d (\<lambda>u e. rmatch ?rest u e (\<lambda>t c. Some c))) = Some m"
    unfolding exec_def version_re_def seqs_Cons .
  from rmatch_SomeD [OF this] obtain t d where
    "rmatch (Cap 1 dotted_re) t d (\<lambda>u e. rmatch ?rest u e (\<lambda>t c. Some c)) = Some m" by blast
  then have "rmatch dotted_re t d (\<lambda>u e. rmatch ?rest u (e(1 \<mapsto> take (length t - length u) t)) (\<lambda>t c. Some c)) = Some m"
    by simp
  from dotted_SomeD [OF this] obtain ps u where ps: "t = join (js ''.'') ps @ u" "length ps \<in> {2, 3, 4}"
    "list_all digit_text ps" "rmatch ?rest u (d(1 \<mapsto> take (length t - length u) t)) (\<lambda>t c. Some c) = Some m" by blast
  have "1 \<notin> groups ?rest" by (simp add: lit_def chr_def plus_def stage_re_def)
  with rmatch_SomeD [OF ps(4)] have "m 1 = Some (take (length t - length u) t)" by auto
  with ps show ?thesis by auto
qed

lemma version_shape:
  assumes "version s = Some a"
  shows "length a = 7" and "list_all is_safe a"
proof -
  from assms obtain m where m: "exec version_re s = Some m"
    by (auto simp: version_def split: if_splits option.splits)
  from version_groups [OF this] obtain ps where ps: "m 1 = Some (join (js ''.'') ps)" "length ps \<in> {2, 3, 4}" "list_all digit_text ps"
    by blast
  have "cu (CHR ''.'') \<notin> set p" if "digit_text p" for p
    using that digit_cu [of "CHR ''.''"] by (auto simp: digit_text_def)
  then have "\<forall>p\<in>set ps. cu (CHR ''.'') \<notin> set p" using ps(3) by (simp add: list_all_iff)
  moreover have "ps \<noteq> []" using ps(2) by auto
  ultimately have "split_on (js ''.'') (join (js ''.'') ps) = ps"
    using split_on_join [of ps "cu (CHR ''.'')"] by (simp add: js_Cons)
  then show "length a = 7" "list_all is_safe a"
    using assms m ps(1,2) by (auto simp: version_def Let_def split: if_splits)
qed

definition name_unit :: "cu \<Rightarrow> bool" where
  "name_unit u \<longleftrightarrow> digit u \<or> lower_letter u \<or> u \<in> set (js ''._~-'')"

lemma digit_star_SomeD:
  "rmatch (Seq (Cls digit) (Star p)) t c k = Some m \<Longrightarrow>
     \<exists>x s. t = x # s \<and> digit x \<and> star p s (\<lambda>u. k u c) = Some m"
  by (cases t) (simp_all split: if_splits)

lemma package_name_SomeD:
  assumes "exec (seqs [lit pre, Cap 1 (Seq (Cls digit) (Star p)), lit suf, Eol]) f = Some m"
  shows "\<exists>v. f = js pre @ v @ js suf \<and> m 1 = Some v \<and> v \<noteq> [] \<and> (\<forall>u\<in>set v. digit u \<or> p u)"
proof -
  from assms have "rmatch (lit pre) f Map.empty (\<lambda>t c. rmatch (seqs [Cap 1 (Seq (Cls digit) (Star p)), lit suf, Eol]) t c
      (\<lambda>t c. Some c)) = Some m"
    unfolding exec_def seqs_Cons .
  from lit_SomeD [OF this] obtain t where t: "f = js pre @ t"
    "rmatch (Cap 1 (Seq (Cls digit) (Star p))) t Map.empty (\<lambda>t c. rmatch (seqs [lit suf, Eol]) t c (\<lambda>t c. Some c)) = Some m"
    unfolding seqs_Cons by blast
  let ?k = "\<lambda>u d. rmatch (seqs [lit suf, Eol]) u (d(1 \<mapsto> take (length t - length u) t)) (\<lambda>t c. Some c)"
  from t(2) have "rmatch (Seq (Cls digit) (Star p)) t Map.empty ?k = Some m"
    by (simp only: rmatch.simps(7))
  from digit_star_SomeD [OF this] obtain x s where x: "t = x # s" "digit x" "star p s (\<lambda>u. ?k u Map.empty) = Some m"
    by blast
  from star_SomeD [OF x(3)] obtain a b where a: "s = a @ b" "\<forall>u\<in>set a. p u"
    "rmatch (seqs [lit suf, Eol]) b (Map.empty(1 \<mapsto> take (length t - length b) t)) (\<lambda>t c. Some c) = Some m"
    by blast
  from lit_SomeD [OF a(3) [unfolded seqs_Cons [of "lit suf"]]] obtain u where u: "b = js suf @ u"
    "rmatch (seqs [Eol]) u (Map.empty(1 \<mapsto> take (length t - length b) t)) (\<lambda>t c. Some c) = Some m" by blast
  then have "u = []" "m = Map.empty(1 \<mapsto> take (length t - length b) t)" by (simp_all split: if_splits)
  then have "f = js pre @ (x # a) @ js suf" "m 1 = Some (x # a)" using t(1) x(1) a(1) u(1) by simp_all
  then show ?thesis using x(2) a(2) by (intro exI [of _ "x # a"]) auto
qed

lemma package_match_SomeD:
  assumes "package_match s = Some v"
  shows "\<exists>f. package_file s = Some f \<and> f \<in> {js ''luci-theme-argon_'' @ v @ js ''_all.ipk'', js ''luci-theme-argon-'' @ v @ js ''.apk''}
    \<and> v \<noteq> [] \<and> (\<forall>u\<in>set v. name_unit u)"
proof -
  from assms obtain f m where f: "package_file s = Some f" "m 1 = Some v"
    "exec ipk_re f = Some m \<or> exec apk_re f = Some m"
    by (auto simp: package_match_def split: option.splits if_splits)
  from f(3) show ?thesis
  proof
    assume "exec ipk_re f = Some m"
    from package_name_SomeD [OF this [unfolded ipk_re_def]] f(1,2) show ?thesis
      by (auto simp: name_unit_def js_Cons)
  next
    assume "exec apk_re f = Some m"
    from package_name_SomeD [OF this [unfolded apk_re_def]] f(1,2) show ?thesis
      by (auto simp: name_unit_def js_Cons)
  qed
qed

section \<open>Properties\<close>

text \<open>The comparison of versions is a linear order on the versions the texts stand for: the
  lexicographic order of their seven numbers, which decides equality and is transitive.\<close>

theorem versions_ordered:
  assumes "version s = Some a" and "version t = Some b" and "version u = Some c"
  shows "(compare a b < 0 \<longleftrightarrow> (a, b) \<in> lexord {(x, y). x < y}) \<and> (compare a b = 0 \<longleftrightarrow> a = b)
    \<and> compare b a = - compare a b \<and> (compare a b \<le> 0 \<longrightarrow> compare b c \<le> 0 \<longrightarrow> compare a c \<le> 0)"
  using version_shape(1) [OF assms(1)] version_shape(1) [OF assms(2)] version_shape(1) [OF assms(3)]
    compare_less [of a b] compare_eq [of a b] compare_swap [of a b] compare_trans [of a b c]
  by simp

text \<open>C23: a package that is offered is one of the theme: its name is the fixed prefix, a version of
  digits, lower-case letters and \<open>._~-\<close>, and the suffix of the package manager; that version parses, is
  no pre-release, and its four numbers are those of the release tag.\<close>

theorem offered_package_safe:
  assumes "latest_release (Some s) = Some r" and "re_file r = Some f"
  shows "\<exists>v a t. re_version r = v \<and> re_parsed r = Some a
    \<and> f \<in> {js ''luci-theme-argon_'' @ v @ js ''_all.ipk'', js ''luci-theme-argon-'' @ v @ js ''.apk''}
    \<and> list_all name_unit v \<and> version v = Some a \<and> version (re_tag r) = Some t
    \<and> a ! 4 = 3 \<and> take 4 a = take 4 t \<and> length a = 7"
proof -
  from assms(1) obtain tag where tag: "us_tag s = Some tag" "test tag_re tag"
    by (auto simp: latest_release_def split: option.split_asm if_split_asm)
  from assms(1) tag have r: "r = (case (package_match s, Option.bind (package_match s) version, version tag) of
                    (Some v, Some parsed, Some t) \<Rightarrow>
                      if parsed ! 4 = 3 \<and> take 4 parsed = take 4 t
                      then \<lparr>re_tag = tag, re_file = package_file s, re_version = v, re_parsed = Some parsed\<rparr>
                      else \<lparr>re_tag = tag, re_file = None, re_version = tag, re_parsed = None\<rparr>
                  | _ \<Rightarrow> \<lparr>re_tag = tag, re_file = None, re_version = tag, re_parsed = None\<rparr>)"
    by (simp add: latest_release_def)
  with assms(2) obtain v a t where v: "package_match s = Some v" "version v = Some a" "version tag = Some t"
    "a ! 4 = 3" "take 4 a = take 4 t"
    by (auto split: option.splits if_splits)
  then have "r = \<lparr>re_tag = tag, re_file = package_file s, re_version = v, re_parsed = Some a\<rparr>"
    by (simp add: r)
  with v package_match_SomeD [OF v(1)] version_shape(1) [OF v(2)] assms(2) show ?thesis
    by (auto simp: list_all_iff)
qed

section \<open>Inputs to apply them to\<close>

theorem versions_ordered_witness:
  "compare [2, 4, 0, 0, 2, 1, 1] [2, 4, 0, 0, 3, 0, 1] < 0 \<and> compare [2, 4, 0, 0, 3, 0, 1] [2, 4, 0, 0, 2, 1, 1] > 0"
proof -
  have v: "version (js ''2.4~rc1'') = Some [2, 4, 0, 0, 2, 1, 1]" "version (js ''v2.4'') = Some [2, 4, 0, 0, 3, 0, 1]"
    by code_simp+
  show ?thesis using versions_ordered [OF v v(2)] by simp
qed

definition demo_release :: update_state where
  "demo_release =
     \<lparr>us_result = Some 0, us_tag = Some (js ''v2.4''), us_manager = js ''apk'', us_ipk = None,
      us_apk = Some (js ''luci-theme-argon-2.4.apk''), us_current = Some (js ''2.3''), us_can_upgrade = True,
      us_upgrade = None, us_retry_at = None, us_checked_at = None, us_notes = None\<rparr>"

lemma demo_release_parsed:
  "latest_release (Some demo_release) = Some \<lparr>re_tag = js ''v2.4'', re_file = Some (js ''luci-theme-argon-2.4.apk''),
     re_version = js ''2.4'', re_parsed = Some [2, 4, 0, 0, 3, 0, 1]\<rparr>"
  by code_simp

theorem offered_package_safe_witness: "\<exists>a. version (js ''2.4'') = Some a \<and> length a = 7"
  using offered_package_safe [OF demo_release_parsed, of "js ''luci-theme-argon-2.4.apk''"] by auto

end
