(* ===== verification/ThemeUpdates.thy ===== *)
theory ThemeUpdates
  imports ThemeVersion JsUri
begin

text \<open>
  The update section of the Argon theme page, \<open>argon/updates.js\<close>: the variables of \<open>render\<close>, the texts and
  buttons that \<open>refresh\<close> writes from them, and the four calls to the router service. A call that was sent
  is pending until the router answers it or the reply is lost; the answers come in any order, between
  them the user clicks and the poll timer fires. The translations, the format function of LuCI, the texts
  of dates and the permission of the session are parameters.
\<close>

section \<open>State\<close>

record update_env =
  ue_tr :: "string \<Rightarrow> jsstr"
  ue_fmt :: "jsstr \<Rightarrow> jsstr \<Rightarrow> jsstr"
  ue_time :: "int \<Rightarrow> jsstr"
  ue_date :: "int \<Rightarrow> jsstr"
  ue_writable :: bool

record update_view =
  v_current :: jsstr
  v_latest :: jsstr
  v_check_disabled :: bool
  v_check_class :: jsstr
  v_check_text :: jsstr
  v_aria_busy :: bool
  v_install_hidden :: bool
  v_install_disabled :: bool
  v_hint_hidden :: bool
  v_reload_hidden :: bool
  v_release_href :: jsstr
  v_download_hidden :: bool
  v_download_href :: "jsstr option"
  v_checked_hidden :: bool
  v_checked :: jsstr
  v_details_hidden :: bool
  v_details_open :: bool
  v_notes :: jsstr
  v_log_hidden :: bool
  v_log_open :: bool
  v_log :: jsstr
  v_status :: jsstr
  v_kind :: jsstr
  v_icon_hidden :: bool

text \<open>A call to the service, its answer, and where the section is: not yet in the page, in it, or removed.\<close>

datatype rpc = Call_check | Call_start jsstr jsstr | Call_status | Call_get

datatype rpc_answer = Reply update_state | Lost

datatype place = Before | Inside | Gone

text \<open>
  The variables of \<open>render\<close>. A phase is empty where the code has none. \<open>w_modal\<close> is the title of the open
  dialog, \<open>w_pending\<close> the calls without an answer by the number under which they were sent.
\<close>

record widget =
  w_state :: "update_state option"
  w_loaded :: "jsstr option"
  w_observed :: bool
  w_last_phase :: jsstr
  w_busy :: bool
  w_monitoring :: bool
  w_confirming :: bool
  w_starting :: bool
  w_attached :: bool
  w_place :: place
  w_modal :: "jsstr option"
  w_now :: int
  w_next :: nat
  w_pending :: "(nat \<times> rpc) list"
  w_view :: update_view

definition job_of :: "widget \<Rightarrow> upgrade option" where
  "job_of w = Option.bind (w_state w) us_upgrade"

definition job_active :: "upgrade option \<Rightarrow> bool" where
  "job_active j = (case j of Some u \<Rightarrow> up_active u | None \<Rightarrow> False)"

definition job_phase :: "upgrade option \<Rightarrow> jsstr" where
  "job_phase j = (case j of Some u \<Rightarrow> up_phase u | None \<Rightarrow> [])"

definition local_version :: "widget \<Rightarrow> int list option" where
  "local_version w = Option.bind (w_state w) (\<lambda>s. Option.bind (us_current s) version)"

definition can_upgrade :: "widget \<Rightarrow> bool" where
  "can_upgrade w = (case w_state w of Some s \<Rightarrow> us_can_upgrade s | None \<Rightarrow> False)"

definition forbid :: "widget \<Rightarrow> widget" where
  \<comment> \<open>\<open>if (state) state.can_upgrade = false\<close>\<close>
  "forbid w = w\<lparr>w_state := map_option (us_can_upgrade_update (\<lambda>_. False)) (w_state w)\<rparr>"

definition send :: "rpc \<Rightarrow> widget \<Rightarrow> widget" where
  "send c w = w\<lparr>w_next := Suc (w_next w), w_pending := w_pending w @ [(w_next w, c)]\<rparr>"

section \<open>What is shown\<close>

definition needsReload :: "widget \<Rightarrow> bool" where
  "needsReload w =
     (case w_state w of
        None \<Rightarrow> False
      | Some s \<Rightarrow>
          us_upgrade s \<noteq> None \<and> job_phase (us_upgrade s) = js ''complete''
          \<and> (w_observed w \<or> w_loaded w \<notin> {None, Some []} \<and> us_current s \<noteq> w_loaded w))"

definition showStatus :: "jsstr \<Rightarrow> string \<Rightarrow> widget \<Rightarrow> widget" where
  "showStatus message kind w =
     w\<lparr>w_view := (w_view w)\<lparr>v_status := message, v_kind := js kind,
         v_icon_hidden := (kind \<noteq> ''current'' \<and> kind \<noteq> ''complete'')\<rparr>\<rparr>"

definition checkError :: "update_env \<Rightarrow> int \<Rightarrow> int option \<Rightarrow> jsstr" where
  "checkError env now retryAt =
     ue_tr env ''Unable to check for updates. Check the router's network connection and try again.''
     @ (case retryAt of
          None \<Rightarrow> []
        | Some t \<Rightarrow>
            if is_safe t \<and> js_div (of_int now) 1000 < of_int t
            then js '' '' @ ue_fmt env (ue_tr env ''Try again after %s.'') (ue_time env t)
            else [])"

definition release_order :: "widget \<Rightarrow> int option" where
  \<comment> \<open>\<open>order\<close>: how the installed version compares with that of the release\<close>
  "release_order w =
     (case (latest_release (w_state w), local_version w) of
        (Some remote, Some local) \<Rightarrow> map_option (compare local) (re_parsed remote)
      | _ \<Rightarrow> None)"

definition mayInstall :: "update_env \<Rightarrow> widget \<Rightarrow> bool" where
  "mayInstall env w =
     (case (latest_release (w_state w), local_version w) of
        (Some remote, Some local) \<Rightarrow>
          (case (re_file remote, re_parsed remote) of
             (Some f, Some parsed) \<Rightarrow>
               f \<noteq> [] \<and> compare local parsed < 0 \<and> can_upgrade w \<and> ue_writable env \<and> \<not> needsReload w
           | _ \<Rightarrow> False)
      | _ \<Rightarrow> False)"

definition jobMessage :: "update_env \<Rightarrow> upgrade option \<Rightarrow> jsstr" where
  "jobMessage env job =
     (let phase = job_phase job; err = (case job of Some u \<Rightarrow> up_error u | None \<Rightarrow> []) in
      ue_tr env
        (if phase = js ''failed'' then
           (if err = js ''network'' then ''Download failed. Check the router's connection to GitHub and try again.''
            else if err = js ''checksum'' then ''Package verification failed. Check for updates and try again.''
            else if err = js ''space'' then ''Not enough free space to install the update.''
            else if err = js ''version'' then ''The installed version has changed. Check for updates again.''
            else if err = js ''metadata'' then ''Release information has changed or expired. Check for updates again.''
            else if err = js ''interrupted'' then ''The update was interrupted. Check the installed version before trying again.''
            else ''Installation failed. See the installation log for details.'')
         else
           (if phase = js ''downloading'' then ''Downloading the update...''
            else if phase = js ''verifying'' then ''Verifying the package...''
            else if phase = js ''installing'' then ''Installing the update. Please wait...''
            else if phase = js ''complete'' then ''Update installed. Reload the page to use the new version.''
            else ''Preparing the update...'')))"

definition releases :: jsstr where
  "releases = js ''https://github.com/jerrykuku/luci-theme-argon/releases''"

definition encoded :: "jsstr \<Rightarrow> jsstr" where
  \<comment> \<open>\<open>encodeURIComponent\<close> of a tag or a package name, which have no lone surrogate\<close>
  "encoded s = (case encodeURIComponent s of Some e \<Rightarrow> e | None \<Rightarrow> [])"

definition status_text :: "update_env \<Rightarrow> widget \<Rightarrow> jsstr \<times> string" where
  \<comment> \<open>the end of \<open>refresh\<close>: the text and the kind of the status line\<close>
  "status_text env w =
     (let remote = latest_release (w_state w); job = job_of w;
          active = (job_active job \<or> w_monitoring w); order = release_order w in
      if active \<or> job_phase job = js ''failed'' \<or> needsReload w
      then (jobMessage env job, if active then ''working'' else if needsReload w then ''complete'' else ''error'')
      else if w_busy w then (ue_tr env ''Checking for updates...'', ''working'')
      else if Option.bind (w_state w) us_result \<noteq> Some 0
      then (checkError env (w_now w) (Option.bind (w_state w) us_retry_at), ''error'')
      else if remote = None then (ue_tr env ''Not checked yet.'', ''idle'')
      else case order of
             None \<Rightarrow> (ue_tr env ''Unable to compare this version. View the release for details.'', ''idle'')
           | Some n \<Rightarrow>
               (ue_tr env
                  (if n < 0 then ''Update available.''
                   else if n = 0 then ''Your theme is up to date.''
                   else ''The installed version is newer than the latest stable release.''),
                if n = 0 then ''current'' else if n < 0 then ''available'' else ''idle''))"

definition refresh_links :: "update_env \<Rightarrow> widget \<Rightarrow> update_view \<Rightarrow> update_view" where
  \<comment> \<open>the links of the release and of the package, and the time of the last check\<close>
  "refresh_links env w v =
     (let remote = latest_release (w_state w); order = release_order w;
          active = (job_active (job_of w) \<or> w_monitoring w);
          file = Option.bind remote re_file;
          hidden = (file \<in> {None, Some []} \<or> active \<or> needsReload w \<or> (case order of Some n \<Rightarrow> 0 \<le> n | None \<Rightarrow> False));
          stamp = (if remote = None then None else Option.bind (w_state w) us_checked_at);
          unchecked = (case stamp of Some t \<Rightarrow> \<not> (is_safe t \<and> 0 < t) | None \<Rightarrow> True)
      in v\<lparr>v_release_href := releases @ (case remote of Some r \<Rightarrow> js ''/tag/'' @ encoded (re_tag r) | None \<Rightarrow> js ''/latest''),
           v_download_hidden := hidden,
           v_download_href :=
             (if hidden then v_download_href v
              else Some (releases @ js ''/download/'' @ encoded (re_tag (the remote)) @ js ''/'' @ encoded (the file))),
           v_checked_hidden := unchecked,
           v_checked := (if unchecked then v_checked v
                         else ue_fmt env (ue_tr env ''Last checked: %s'') (ue_date env (the stamp)))\<rparr>)"

definition shown_notes :: "update_env \<Rightarrow> release option \<Rightarrow> jsstr option \<Rightarrow> jsstr" where
  "shown_notes env remote notes =
     (case notes of
        Some n \<Rightarrow>
          if remote \<noteq> None \<and> trim n \<noteq> []
          then take 32768 n @ (if 32768 < length n then [0x0A, 0x2026] else [])
          else ue_tr env ''No release notes were published.''
      | None \<Rightarrow> ue_tr env ''No release notes were published.'')"

definition refresh_view :: "update_env \<Rightarrow> widget \<Rightarrow> update_view \<Rightarrow> update_view" where
  "refresh_view env w v =
     (let remote = latest_release (w_state w); job = job_of w;
          active = (job_active job \<or> w_monitoring w); order = release_order w;
          log = Option.bind job up_log; fold_up = (job_phase job = js ''complete'' \<and> w_last_phase w \<noteq> js ''complete'')
      in refresh_links env w
           (v\<lparr>v_details_open := (v_details_open v \<and> \<not> fold_up),
              v_log_open := (v_log_open v \<and> \<not> fold_up),
              v_current := (case Option.bind (w_state w) us_current of
                              Some (u # t) \<Rightarrow> u # t | _ \<Rightarrow> ue_tr env ''Unknown version''),
              v_latest := (case remote of Some r \<Rightarrow> re_version r | None \<Rightarrow> ue_tr env ''Not checked yet.''),
              v_check_disabled := (w_busy w \<or> active \<or> w_confirming w),
              v_check_class := js (if remote = None then ''cbi-button cbi-button-action'' else ''cbi-button cbi-button-neutral''),
              v_install_hidden := (\<not> mayInstall env w),
              v_install_disabled := (w_busy w \<or> active \<or> w_confirming w),
              v_hint_hidden := (\<not> ((case order of Some n \<Rightarrow> n < 0 | None \<Rightarrow> False) \<and> \<not> can_upgrade w \<and> ue_writable env
                                  \<and> \<not> active \<and> \<not> needsReload w)),
              v_reload_hidden := (\<not> needsReload w \<or> active),
              v_check_text := ue_tr env (if w_busy w then ''Checking for updates...'' else ''Check for updates''),
              v_aria_busy := w_busy w,
              v_details_hidden := (remote = None),
              v_notes := shown_notes env remote (Option.bind (w_state w) us_notes),
              v_log_hidden := (case log of Some l \<Rightarrow> trim l = [] | None \<Rightarrow> True),
              v_log := (case log of Some l \<Rightarrow> drop (length l - 8192) l | None \<Rightarrow> [])\<rparr>))"

definition refresh :: "update_env \<Rightarrow> widget \<Rightarrow> widget" where
  "refresh env w0 =
     (let w1 = w0\<lparr>w_observed := (w_observed w0 \<or> job_active (job_of w0))\<rparr>;
          w2 = w1\<lparr>w_view := refresh_view env w1 (w_view w1), w_last_phase := job_phase (job_of w1)\<rparr>
      in case status_text env w2 of (message, kind) \<Rightarrow> showStatus message kind w2)"

section \<open>Calls and answers\<close>

definition stopMonitoring :: "widget \<Rightarrow> widget" where
  "stopMonitoring w = w\<lparr>w_monitoring := False\<rparr>"

definition monitor :: "widget \<Rightarrow> widget" where
  "monitor w = w\<lparr>w_monitoring := True\<rparr>"

definition watch :: "widget \<Rightarrow> widget" where
  "watch w =
     (if w_place w \<noteq> Inside then (if w_attached w then stopMonitoring w else w)
      else send Call_status (w\<lparr>w_attached := True\<rparr>))"

definition reconnecting :: "update_env \<Rightarrow> widget \<Rightarrow> widget" where
  "reconnecting env = showStatus (ue_tr env ''Unable to read update progress. Reconnecting...'') ''error''"

definition no_fields :: update_state where
  \<comment> \<open>the empty object\<close>
  "no_fields =
     \<lparr>us_result = None, us_tag = None, us_manager = [], us_ipk = None, us_apk = None, us_current = None,
      us_can_upgrade = False, us_upgrade = None, us_retry_at = None, us_checked_at = None, us_notes = None\<rparr>"

definition status_answer :: "update_env \<Rightarrow> rpc_answer \<Rightarrow> widget \<Rightarrow> widget" where
  \<comment> \<open>the handlers of \<open>callStatus\<close> in \<open>watch\<close>\<close>
  "status_answer env a w =
     (case a of
        Lost \<Rightarrow> reconnecting env w
      | Reply r \<Rightarrow>
          if us_result r \<noteq> Some 0 \<or> us_upgrade r = None then reconnecting env w
          else
            let old = (case w_state w of Some s \<Rightarrow> s | None \<Rightarrow> no_fields);
                w1 = w\<lparr>w_state := Some (old\<lparr>us_current := us_current r, us_upgrade := us_upgrade r\<rparr>)\<rparr>
            in if job_active (us_upgrade r) then refresh env w1
               else if w_starting w1 then w1
               else send Call_get (stopMonitoring w1))"

definition get_answer :: "update_env \<Rightarrow> rpc_answer \<Rightarrow> widget \<Rightarrow> widget" where
  \<comment> \<open>the handlers of \<open>callGet\<close> in \<open>watch\<close>\<close>
  "get_answer env a w =
     (let w1 = (case a of
                  Reply r \<Rightarrow> if us_result r = Some 0 then w\<lparr>w_state := Some r\<rparr> else w
                | Lost \<Rightarrow> w)
      in refresh env (if job_active (job_of w1) then monitor w1 else w1))"

definition start_answer :: "update_env \<Rightarrow> rpc_answer \<Rightarrow> widget \<Rightarrow> widget" where
  \<comment> \<open>the handlers of \<open>callStart\<close> in \<open>install\<close>\<close>
  "start_answer env a w0 =
     (let w = w0\<lparr>w_starting := False\<rparr> in
      case a of
        Lost \<Rightarrow> reconnecting env w
      | Reply r \<Rightarrow>
          if us_result r = Some 0
          then refresh env (monitor (w\<lparr>w_state := map_option (us_upgrade_update (\<lambda>_. us_upgrade r)) (w_state w)\<rparr>))
          else
            let w1 = showStatus
                       (ue_tr env
                         (if us_result r = Some 3 then ''Release information has changed or expired. Check for updates again.''
                          else if us_result r = Some 5 then ''The installed version has changed. Check for updates again.''
                          else ''Unable to start the update. Check for updates and try again.''))
                       ''error'' (refresh env (stopMonitoring w));
                w2 = (if us_result r = Some 3 \<or> us_result r = Some 5
                      then let x = forbid w1 in x\<lparr>w_view := (w_view x)\<lparr>v_install_hidden := True\<rparr>\<rparr>
                      else w1)
            in if us_result r = Some 4 then watch (monitor w2) else w2)"

definition install :: "update_env \<Rightarrow> widget \<Rightarrow> widget" where
  "install env w =
     (if w_busy w \<or> w_monitoring w \<or> \<not> mayInstall env w then w
      else case latest_release (w_state w) of
             Some r \<Rightarrow> send (Call_start (re_tag r) (the (re_file r))) (refresh env (monitor (w\<lparr>w_starting := True\<rparr>)))
           | None \<Rightarrow> w)"

definition confirmInstall :: "update_env \<Rightarrow> widget \<Rightarrow> widget" where
  "confirmInstall env w =
     (if w_busy w \<or> w_monitoring w \<or> w_confirming w \<or> \<not> mayInstall env w then w
      else (refresh env (w\<lparr>w_confirming := True\<rparr>))
             \<lparr>w_modal := Some (ue_fmt env (ue_tr env ''Update Argon to %s?'')
                                (case latest_release (w_state w) of Some r \<Rightarrow> re_version r | None \<Rightarrow> []))\<rparr>)"

definition cancel_install :: "update_env \<Rightarrow> widget \<Rightarrow> widget" where
  "cancel_install env w = refresh env (w\<lparr>w_confirming := False, w_modal := None\<rparr>)"

definition accept_install :: "update_env \<Rightarrow> widget \<Rightarrow> widget" where
  "accept_install env w = install env (w\<lparr>w_confirming := False, w_modal := None\<rparr>)"

definition check :: "update_env \<Rightarrow> widget \<Rightarrow> widget" where
  "check env w =
     (if w_busy w \<or> w_monitoring w \<or> w_confirming w then w
      else send Call_check (refresh env (w\<lparr>w_busy := True\<rparr>)))"

definition check_failed :: "update_env \<Rightarrow> int option \<Rightarrow> widget \<Rightarrow> widget" where
  "check_failed env retry w =
     (let w1 = refresh env (w\<lparr>w_busy := False\<rparr>) in showStatus (checkError env (w_now w1) retry) ''error'' w1)"

definition check_answer :: "update_env \<Rightarrow> rpc_answer \<Rightarrow> widget \<Rightarrow> widget" where
  \<comment> \<open>the handlers of \<open>callCheck\<close> in \<open>check\<close>\<close>
  "check_answer env a w =
     (case a of
        Lost \<Rightarrow> check_failed env None w
      | Reply r \<Rightarrow>
          if us_result r \<noteq> Some 0 \<or> latest_release (Some r) = None
          then check_failed env (us_retry_at r) (forbid w)
          else
            let w1 = refresh env (w\<lparr>w_state := Some r, w_busy := False\<rparr>);
                newer = (case release_order w1 of Some n \<Rightarrow> n < 0 | None \<Rightarrow> False);
                w2 = w1\<lparr>w_view := (w_view w1)\<lparr>v_details_open := (newer \<and> \<not> needsReload w1)\<rparr>\<rparr>
            in if job_active (job_of w2) then monitor w2 else w2)"

section \<open>Events\<close>

datatype update_event =
    Click_check
  | Click_install
  | Modal_cancel
  | Modal_accept
  | Poll
  | Attach
  | Detach
  | Clock nat
  | Toggle_details bool
  | Toggle_log bool
  | Answered nat rpc_answer

definition answer_call :: "update_env \<Rightarrow> rpc \<Rightarrow> rpc_answer \<Rightarrow> widget \<Rightarrow> widget" where
  "answer_call env c a w =
     (case c of
        Call_check \<Rightarrow> check_answer env a w
      | Call_start _ _ \<Rightarrow> start_answer env a w
      | Call_status \<Rightarrow> status_answer env a w
      | Call_get \<Rightarrow> get_answer env a w)"

definition update_step :: "update_env \<Rightarrow> update_event \<Rightarrow> widget \<Rightarrow> widget" where
  \<comment> \<open>a hidden, disabled or removed button does not react, nor does one of a closed dialog\<close>
  "update_step env e w =
     (case e of
        Click_check \<Rightarrow> if w_place w = Inside \<and> \<not> v_check_disabled (w_view w) then check env w else w
      | Click_install \<Rightarrow>
          if w_place w = Inside \<and> \<not> v_install_hidden (w_view w) \<and> \<not> v_install_disabled (w_view w)
          then confirmInstall env w else w
      | Modal_cancel \<Rightarrow> if w_modal w \<noteq> None then cancel_install env w else w
      | Modal_accept \<Rightarrow> if w_modal w \<noteq> None then accept_install env w else w
      | Poll \<Rightarrow> if w_monitoring w then watch w else w
      | Attach \<Rightarrow> if w_place w = Before then w\<lparr>w_place := Inside\<rparr> else w
      | Detach \<Rightarrow> if w_place w = Inside then w\<lparr>w_place := Gone\<rparr> else w
      | Clock n \<Rightarrow> w\<lparr>w_now := w_now w + int n\<rparr>
      | Toggle_details b \<Rightarrow> w\<lparr>w_view := (w_view w)\<lparr>v_details_open := b\<rparr>\<rparr>
      | Toggle_log b \<Rightarrow> w\<lparr>w_view := (w_view w)\<lparr>v_log_open := b\<rparr>\<rparr>
      | Answered i a \<Rightarrow>
          (case map_of (w_pending w) i of
             Some c \<Rightarrow> answer_call env c a (w\<lparr>w_pending := filter (\<lambda>p. fst p \<noteq> i) (w_pending w)\<rparr>)
           | None \<Rightarrow> w))"

definition blank_view :: update_view where
  "blank_view =
     \<lparr>v_current = [], v_latest = [], v_check_disabled = False, v_check_class = js ''cbi-button cbi-button-action'',
      v_check_text = [], v_aria_busy = False, v_install_hidden = True, v_install_disabled = False,
      v_hint_hidden = True, v_reload_hidden = True, v_release_href = releases @ js ''/latest'',
      v_download_hidden = True, v_download_href = None, v_checked_hidden = False, v_checked = [],
      v_details_hidden = True, v_details_open = False, v_notes = [], v_log_hidden = True, v_log_open = False,
      v_log = [], v_status = [], v_kind = [], v_icon_hidden = True\<rparr>"

definition render_updates :: "update_env \<Rightarrow> update_state option \<Rightarrow> int \<Rightarrow> widget" where
  "render_updates env state now =
     (let job = Option.bind state us_upgrade;
          w = \<lparr>w_state = state, w_loaded = Option.bind state us_current, w_observed = job_active job,
               w_last_phase = job_phase job, w_busy = False, w_monitoring = False, w_confirming = False,
               w_starting = False, w_attached = False, w_place = Before, w_modal = None, w_now = now,
               w_next = 0, w_pending = [], w_view = blank_view\<rparr>
      in refresh env (if job_active job then monitor w else w))"

inductive updates_reachable :: "update_env \<Rightarrow> widget \<Rightarrow> bool" for env where
  start: "updates_reachable env (render_updates env state now)"
| step: "updates_reachable env w \<Longrightarrow> updates_reachable env (update_step env e w)"

section \<open>What the operations keep\<close>

lemma showStatus_rest [simp]:
  "w_state (showStatus t k w) = w_state w" "w_busy (showStatus t k w) = w_busy w"
  "w_monitoring (showStatus t k w) = w_monitoring w" "w_confirming (showStatus t k w) = w_confirming w"
  "w_starting (showStatus t k w) = w_starting w" "w_attached (showStatus t k w) = w_attached w"
  "w_place (showStatus t k w) = w_place w" "w_modal (showStatus t k w) = w_modal w"
  "w_pending (showStatus t k w) = w_pending w" "w_next (showStatus t k w) = w_next w"
  "w_now (showStatus t k w) = w_now w" "w_loaded (showStatus t k w) = w_loaded w"
  "w_observed (showStatus t k w) = w_observed w" "w_last_phase (showStatus t k w) = w_last_phase w"
  "v_status (w_view (showStatus t k w)) = t" "v_kind (w_view (showStatus t k w)) = js k"
  by (simp_all add: showStatus_def)

lemma refresh_keeps [simp]:
  "w_state (refresh env w) = w_state w" "w_busy (refresh env w) = w_busy w"
  "w_monitoring (refresh env w) = w_monitoring w" "w_confirming (refresh env w) = w_confirming w"
  "w_starting (refresh env w) = w_starting w" "w_attached (refresh env w) = w_attached w"
  "w_place (refresh env w) = w_place w" "w_modal (refresh env w) = w_modal w"
  "w_pending (refresh env w) = w_pending w" "w_next (refresh env w) = w_next w"
  "w_now (refresh env w) = w_now w" "w_loaded (refresh env w) = w_loaded w"
  "w_observed (refresh env w) = (w_observed w \<or> job_active (job_of w))"
  by (simp_all add: refresh_def Let_def split_beta)

lemma forbid_rest [simp]:
  "w_busy (forbid w) = w_busy w" "w_monitoring (forbid w) = w_monitoring w"
  "w_confirming (forbid w) = w_confirming w" "w_starting (forbid w) = w_starting w"
  "w_attached (forbid w) = w_attached w" "w_place (forbid w) = w_place w" "w_modal (forbid w) = w_modal w"
  "w_pending (forbid w) = w_pending w" "w_next (forbid w) = w_next w" "w_now (forbid w) = w_now w"
  "w_view (forbid w) = w_view w" "w_state (forbid w) = None \<longleftrightarrow> w_state w = None"
  by (simp_all add: forbid_def)

text \<open>The calls without an answer: at most one check and one start, which the flags record.\<close>

definition is_start :: "rpc \<Rightarrow> bool" where
  "is_start c = (case c of Call_start _ _ \<Rightarrow> True | _ \<Rightarrow> False)"

lemma is_start_simps [simp]:
  "\<not> is_start Call_check" "is_start (Call_start t f)" "\<not> is_start Call_status" "\<not> is_start Call_get"
  by (simp_all add: is_start_def)

definition calls :: "(rpc \<Rightarrow> bool) \<Rightarrow> widget \<Rightarrow> nat" where
  "calls q w = length (filter (\<lambda>p. q (snd p)) (w_pending w))"

definition calls_ok :: "bool \<Rightarrow> bool \<Rightarrow> widget \<Rightarrow> bool" where
  "calls_ok b s w \<longleftrightarrow> distinct (map fst (w_pending w)) \<and> (\<forall>p\<in>set (w_pending w). fst p < w_next w)
     \<and> calls (\<lambda>c. c = Call_check) w = of_bool b \<and> calls is_start w = of_bool s"

definition flags_ok :: "widget \<Rightarrow> bool" where
  "flags_ok w \<longleftrightarrow> (w_modal w \<noteq> None \<longleftrightarrow> w_confirming w) \<and> (w_confirming w \<longrightarrow> \<not> w_busy w \<and> \<not> w_starting w)
     \<and> \<not> (w_busy w \<and> w_starting w) \<and> (w_starting w \<longrightarrow> w_state w \<noteq> None \<and> (w_monitoring w \<or> w_place w = Gone))
     \<and> (w_attached w \<longrightarrow> w_place w \<noteq> Before)"

definition widget_ok :: "widget \<Rightarrow> bool" where
  "widget_ok w \<longleftrightarrow> calls_ok (w_busy w) (w_starting w) w \<and> flags_ok w"

lemma calls_ok_same:
  "w_pending v = w_pending w \<Longrightarrow> w_next v = w_next w \<Longrightarrow> calls_ok b s v = calls_ok b s w"
  by (simp add: calls_ok_def calls_def)

lemma calls_ok_send:
  "calls_ok b s w \<Longrightarrow> (c = Call_check \<Longrightarrow> \<not> b) \<Longrightarrow> (is_start c \<Longrightarrow> \<not> s)
     \<Longrightarrow> calls_ok (b \<or> c = Call_check) (s \<or> is_start c) (send c w)"
  by (cases c) (auto simp: calls_ok_def calls_def send_def is_start_def)

lemma send_rest [simp]:
  "w_state (send c w) = w_state w" "w_busy (send c w) = w_busy w"
  "w_monitoring (send c w) = w_monitoring w" "w_confirming (send c w) = w_confirming w"
  "w_starting (send c w) = w_starting w" "w_attached (send c w) = w_attached w"
  "w_place (send c w) = w_place w" "w_modal (send c w) = w_modal w" "w_view (send c w) = w_view w"
  "w_now (send c w) = w_now w" "w_next (send c w) = Suc (w_next w)" "w_pending (send c w) = w_pending w @ [(w_next w, c)]"
  by (simp_all add: send_def)

lemma calls_answered:
  assumes "distinct (map fst ps)" and "map_of ps i = Some c"
  shows "length (filter (\<lambda>p. q (snd p)) ps) =
    length (filter (\<lambda>p. q (snd p)) (filter (\<lambda>p. fst p \<noteq> i) ps)) + of_bool (q c)"
  using assms
proof (induction ps)
  case (Cons p ps)
  show ?case
  proof (cases "fst p = i")
    case True
    then have "filter (\<lambda>p. fst p \<noteq> i) ps = ps" using Cons.prems(1) by (auto intro!: filter_True intro: rev_image_eqI)
    then show ?thesis using True Cons.prems(2) by (cases p) auto
  next
    case False
    then show ?thesis using Cons by (cases p) auto
  qed
qed simp

lemma calls_ok_answered:
  assumes "calls_ok b s w" and "map_of (w_pending w) i = Some c"
  shows "calls_ok (b \<and> c \<noteq> Call_check) (s \<and> \<not> is_start c) (w\<lparr>w_pending := filter (\<lambda>p. fst p \<noteq> i) (w_pending w)\<rparr>)"
    and "c = Call_check \<Longrightarrow> b" and "is_start c \<Longrightarrow> s"
proof -
  let ?n = "\<lambda>q ps. length (filter (\<lambda>p :: nat \<times> rpc. q (snd p)) ps)"
  have d: "distinct (map fst (w_pending w))" using assms(1) by (simp add: calls_ok_def)
  note n = calls_answered [OF d assms(2)]
  have k: "?n (\<lambda>c. c = Call_check) (w_pending w) = of_bool b" "?n is_start (w_pending w) = of_bool s"
    using assms(1) by (simp_all add: calls_ok_def calls_def)
  show "c = Call_check \<Longrightarrow> b" using n [of "\<lambda>c. c = Call_check"] k by (cases b) auto
  show "is_start c \<Longrightarrow> s" using n [of is_start] k by (cases s) auto
  show "calls_ok (b \<and> c \<noteq> Call_check) (s \<and> \<not> is_start c) (w\<lparr>w_pending := filter (\<lambda>p. fst p \<noteq> i) (w_pending w)\<rparr>)"
    using assms(1) n [of "\<lambda>c. c = Call_check"] n [of is_start] k
    by (cases b; cases s) (auto simp: calls_ok_def calls_def distinct_map inj_on_def split: if_splits)
qed

lemma forbid_calls [simp]: "calls_ok b s (forbid w) = calls_ok b s w"
  by (rule calls_ok_same) simp_all

lemma refresh_calls [simp]: "calls_ok b s (refresh env w) = calls_ok b s w"
  by (rule calls_ok_same) simp_all

lemma showStatus_calls [simp]: "calls_ok b s (showStatus t k w) = calls_ok b s w"
  by (rule calls_ok_same) simp_all

lemma fields_calls [simp]:
  "calls_ok b s (w\<lparr>w_busy := x\<rparr>) = calls_ok b s w" "calls_ok b s (w\<lparr>w_starting := x\<rparr>) = calls_ok b s w"
  "calls_ok b s (w\<lparr>w_monitoring := x\<rparr>) = calls_ok b s w" "calls_ok b s (w\<lparr>w_confirming := x\<rparr>) = calls_ok b s w"
  "calls_ok b s (w\<lparr>w_attached := x\<rparr>) = calls_ok b s w" "calls_ok b s (w\<lparr>w_place := p\<rparr>) = calls_ok b s w"
  "calls_ok b s (w\<lparr>w_modal := m\<rparr>) = calls_ok b s w" "calls_ok b s (w\<lparr>w_view := v\<rparr>) = calls_ok b s w"
  "calls_ok b s (w\<lparr>w_state := st\<rparr>) = calls_ok b s w" "calls_ok b s (w\<lparr>w_now := n\<rparr>) = calls_ok b s w"
  by (rule calls_ok_same; simp)+

lemma latest_release_None [simp]: "latest_release None = None"
  by (simp add: latest_release_def)

lemma mayInstall_state: "mayInstall env w \<Longrightarrow> w_state w \<noteq> None"
  by (cases "w_state w") (auto simp: mayInstall_def)

lemma calls_ok_send_other:
  "calls_ok b s w \<Longrightarrow> c \<in> {Call_status, Call_get} \<Longrightarrow> calls_ok b s (send c w)"
  using calls_ok_send [of b s w c] by auto

lemma watch_ok: "widget_ok w \<Longrightarrow> widget_ok (watch w)"
  by (cases "w_place w") (auto simp: watch_def stopMonitoring_def widget_ok_def flags_ok_def calls_ok_send_other)

lemma calls_ok_start: "calls_ok b False w \<Longrightarrow> calls_ok b True (send (Call_start t f) w)"
  using calls_ok_send [of b False w "Call_start t f"] by simp

lemma install_ok: "widget_ok w \<Longrightarrow> \<not> w_starting w \<Longrightarrow> \<not> w_confirming w \<Longrightarrow> widget_ok (install env w)"
  using mayInstall_state [of env w]
  by (auto simp: install_def monitor_def widget_ok_def flags_ok_def intro!: calls_ok_start split: option.split)

lemma confirmInstall_ok: "widget_ok w \<Longrightarrow> w_place w = Inside \<Longrightarrow> widget_ok (confirmInstall env w)"
  by (auto simp: confirmInstall_def widget_ok_def flags_ok_def)

lemma check_ok: "widget_ok w \<Longrightarrow> w_place w = Inside \<Longrightarrow> widget_ok (check env w)"
  using calls_ok_send [of False False "refresh env (w\<lparr>w_busy := True\<rparr>)" Call_check]
  by (auto simp: check_def widget_ok_def flags_ok_def)

lemma check_answer_ok: "calls_ok False (w_starting w) w \<Longrightarrow> flags_ok w \<Longrightarrow> widget_ok (check_answer env a w)"
  by (cases a) (auto simp: check_answer_def check_failed_def monitor_def widget_ok_def flags_ok_def Let_def)

lemma parts_ok [simp]:
  "widget_ok (refresh env w) = widget_ok w" "widget_ok (showStatus t k w) = widget_ok w"
  "widget_ok (forbid w) = widget_ok w" "widget_ok (w\<lparr>w_view := v\<rparr>) = widget_ok w"
  "widget_ok w \<Longrightarrow> widget_ok (monitor w)" "widget_ok w \<Longrightarrow> \<not> w_starting w \<Longrightarrow> widget_ok (stopMonitoring w)"
  by (auto simp: widget_ok_def flags_ok_def monitor_def stopMonitoring_def)

lemma start_answer_ok:
  assumes "calls_ok (w_busy w) False w" and "flags_ok w"
  shows "widget_ok (start_answer env a w)"
proof -
  let ?w = "w\<lparr>w_starting := False\<rparr>"
  have ok: "widget_ok ?w" "\<not> w_starting ?w" using assms by (auto simp: widget_ok_def flags_ok_def)
  have state: "widget_ok (?w\<lparr>w_state := st\<rparr>)" for st
    using assms by (auto simp: widget_ok_def flags_ok_def)
  show ?thesis
  proof (cases a)
    case (Reply r)
    show ?thesis unfolding Reply start_answer_def Let_def rpc_answer.case
      using ok state by (auto intro!: watch_ok)
  qed (use ok in \<open>simp add: start_answer_def reconnecting_def\<close>)
qed

lemma status_answer_ok: "widget_ok w \<Longrightarrow> widget_ok (status_answer env a w)"
  by (cases a)
    (auto simp: status_answer_def reconnecting_def stopMonitoring_def widget_ok_def flags_ok_def Let_def calls_ok_send_other)

lemma get_answer_ok: "widget_ok w \<Longrightarrow> widget_ok (get_answer env a w)"
  by (cases a) (auto simp: get_answer_def monitor_def widget_ok_def flags_ok_def Let_def)

lemma answer_call_ok:
  assumes "widget_ok w" and "map_of (w_pending w) i = Some c"
  shows "widget_ok (answer_call env c a (w\<lparr>w_pending := filter (\<lambda>p. fst p \<noteq> i) (w_pending w)\<rparr>))"
proof -
  let ?w = "w\<lparr>w_pending := filter (\<lambda>p. fst p \<noteq> i) (w_pending w)\<rparr>"
  have ok: "calls_ok (w_busy w) (w_starting w) w" "flags_ok ?w"
    using assms(1) by (auto simp: widget_ok_def flags_ok_def)
  note ans = calls_ok_answered [OF ok(1) assms(2)]
  show ?thesis
  proof (cases c)
    case Call_check
    then show ?thesis using ans ok(2) by (auto simp: answer_call_def intro: check_answer_ok)
  next
    case (Call_start t f)
    then show ?thesis using ans ok(2) by (auto simp: answer_call_def intro: start_answer_ok)
  next
    case Call_status
    then have "widget_ok ?w" using ans(1) ok(2) by (simp add: widget_ok_def)
    then show ?thesis by (simp add: Call_status answer_call_def status_answer_ok)
  next
    case Call_get
    then have "widget_ok ?w" using ans(1) ok(2) by (simp add: widget_ok_def)
    then show ?thesis by (simp add: Call_get answer_call_def get_answer_ok)
  qed
qed

lemma update_step_ok: "widget_ok w \<Longrightarrow> widget_ok (update_step env e w)"
proof (cases e)
  case Modal_accept
  assume "widget_ok w"
  then have "widget_ok (w\<lparr>w_confirming := False, w_modal := None\<rparr>)" "w_modal w \<noteq> None \<Longrightarrow> \<not> w_starting w"
    by (auto simp: widget_ok_def flags_ok_def)
  with \<open>widget_ok w\<close> show ?thesis by (auto simp: Modal_accept update_step_def accept_install_def intro!: install_ok)
next
  case (Answered i a)
  assume "widget_ok w"
  then show ?thesis
    by (cases "map_of (w_pending w) i") (simp_all add: Answered update_step_def answer_call_ok)
qed (auto simp: update_step_def check_ok confirmInstall_ok watch_ok,
     auto simp: cancel_install_def widget_ok_def flags_ok_def)

lemma render_updates_ok: "widget_ok (render_updates env state now)"
  by (auto simp: render_updates_def monitor_def widget_ok_def flags_ok_def calls_ok_def calls_def Let_def)

lemma reachable_ok: "updates_reachable env w \<Longrightarrow> widget_ok w"
  by (induction rule: updates_reachable.induct) (auto simp: render_updates_ok update_step_ok)

section \<open>The calls that start an installation\<close>

definition starts :: "widget \<Rightarrow> (nat \<times> rpc) list" where
  "starts w = filter (\<lambda>p. is_start (snd p)) (w_pending w)"

lemma starts_same: "w_pending v = w_pending w \<Longrightarrow> starts v = starts w"
  by (simp add: starts_def)

lemma starts_parts [simp]:
  "starts (refresh env w) = starts w" "starts (showStatus t k w) = starts w" "starts (forbid w) = starts w"
  "starts (monitor w) = starts w" "starts (stopMonitoring w) = starts w"
  "starts (reconnecting env w) = starts w" "starts (w\<lparr>w_view := v\<rparr>) = starts w" "starts (w\<lparr>w_state := st\<rparr>) = starts w"
  "starts (w\<lparr>w_busy := x\<rparr>) = starts w" "starts (w\<lparr>w_starting := x\<rparr>) = starts w"
  "starts (w\<lparr>w_confirming := x\<rparr>) = starts w" "starts (w\<lparr>w_modal := m\<rparr>) = starts w"
  "starts (w\<lparr>w_place := p\<rparr>) = starts w" "starts (w\<lparr>w_attached := x\<rparr>) = starts w" "starts (w\<lparr>w_now := n\<rparr>) = starts w"
  by (rule starts_same; simp add: monitor_def stopMonitoring_def reconnecting_def)+

lemma starts_send [simp]: "starts (send c w) = starts w @ (if is_start c then [(w_next w, c)] else [])"
  by (simp add: starts_def)

lemma starts_watch [simp]: "starts (watch w) = starts w"
  by (simp add: watch_def)

lemma starts_answer: "starts (answer_call env c a w) = starts w"
proof (cases c)
  case Call_check
  then show ?thesis
    by (cases a) (simp_all add: answer_call_def check_answer_def check_failed_def Let_def)
next
  case (Call_start t f)
  then show ?thesis by (cases a) (simp_all add: answer_call_def start_answer_def Let_def)
next
  case Call_status
  then show ?thesis by (cases a) (simp_all add: answer_call_def status_answer_def Let_def)
next
  case Call_get
  then show ?thesis by (cases a) (simp_all add: answer_call_def get_answer_def Let_def)
qed

lemma starts_step:
  "e \<noteq> Modal_accept \<Longrightarrow> set (starts (update_step env e w)) \<subseteq> set (starts w)"
  by (cases e)
    (auto simp: update_step_def check_def confirmInstall_def cancel_install_def starts_answer split: option.split,
     auto simp: starts_def confirmInstall_def split: if_splits)

lemma mayInstall_cases:
  assumes "mayInstall env w"
  obtains s r f a l where "w_state w = Some s" "latest_release (Some s) = Some r" "re_file r = Some f"
    "re_parsed r = Some a" "local_version w = Some l" "compare l a < 0" "us_can_upgrade s" "ue_writable env"
proof -
  from mayInstall_state [OF assms] obtain s where s: "w_state w = Some s" by blast
  with assms obtain r l where r: "latest_release (Some s) = Some r" "local_version w = Some l"
    by (auto simp: mayInstall_def split: option.splits)
  with assms s obtain f a where "re_file r = Some f" "re_parsed r = Some a" "compare l a < 0"
      "us_can_upgrade s" "ue_writable env"
    by (auto simp: mayInstall_def can_upgrade_def split: option.splits)
  with s r that show thesis by blast
qed

lemma digit_unreserved:
  assumes "digit u"
  shows "uri_unreserved u"
proof -
  have "list_all (\<lambda>n. uri_unreserved (word_of_nat (48 + n))) [0..<10]" by code_simp
  then have all: "uri_unreserved (word_of_nat (48 + n))" if "n < 10" for n
    using that by (simp add: list_all_iff)
  have "unat u - 48 < 10" "48 + (unat u - 48) = unat u" using assms unfolding digit_def by linarith+
  then show ?thesis using all [of "unat u - 48"] by simp
qed

lemma tag_units:
  assumes "test tag_re tag"
  shows "\<forall>u\<in>set tag. uri_unreserved u"
proof -
  have v: "uri_unreserved (cu (CHR ''v''))" "uri_unreserved (cu (CHR ''.''))" by code_simp+
  from assms obtain m where "exec tag_re tag = Some m" by (auto simp: test_def)
  then have "rmatch (Opt (chr (CHR ''v''))) tag Map.empty
      (\<lambda>t d. rmatch dotted_re t d (\<lambda>u e. rmatch Eol u e (\<lambda>t c. Some c))) = Some m"
    unfolding exec_def tag_re_def seqs_Cons seqs.simps(1) rmatch.simps(1) .
  then obtain t d where t: "tag = t \<or> tag = cu (CHR ''v'') # t"
      "rmatch dotted_re t d (\<lambda>u e. rmatch Eol u e (\<lambda>t c. Some c)) = Some m"
    by (fastforce simp: chr_def dest!: or_else_SomeD split: list.splits if_split_asm)
  from dotted_SomeD [OF t(2)] obtain ps u where ps: "t = join (js ''.'') ps @ u" "list_all digit_text ps"
      "rmatch Eol u d (\<lambda>t c. Some c) = Some m" by blast
  then have "u = []" by (simp split: if_splits)
  moreover have "\<forall>p\<in>set ps. \<forall>x\<in>set p. uri_unreserved x"
    using ps(2) by (simp add: list_all_iff digit_text_def digit_unreserved)
  ultimately have "\<forall>x\<in>set t. uri_unreserved x"
    using set_join [of "js ''.''" ps] ps(1) v(2) by (auto simp: js_Cons)
  with t(1) v(1) show ?thesis by auto
qed

lemma encoded_tag: "latest_release st = Some r \<Longrightarrow> encoded (re_tag r) = re_tag r"
proof -
  assume "latest_release st = Some r"
  then have "test tag_re (re_tag r)"
    by (auto simp: latest_release_def split: option.splits if_splits)
  then show ?thesis using encode_unreserved [OF tag_units] by (simp add: encoded_def)
qed

lemma can_upgrade_forbid [simp]: "\<not> can_upgrade (forbid w)"
  by (simp add: can_upgrade_def forbid_def split: option.split)

lemma mayInstall_allowed: "mayInstall env w \<Longrightarrow> can_upgrade w"
  by (erule mayInstall_cases) (simp add: can_upgrade_def)

lemma refresh_install_hidden:
  "v_install_hidden (w_view (showStatus t k (refresh env w))) =
     (\<not> mayInstall env (w\<lparr>w_observed := w_observed w \<or> job_active (job_of w)\<rparr>))"
  by (simp add: refresh_def showStatus_def refresh_view_def refresh_links_def Let_def split_beta)

section \<open>Properties\<close>

text \<open>C8: the flags of the section say which calls are running. In every reachable state no two running
  calls have the same number, one check runs exactly while the section is busy, one start exactly while
  an installation is being started; a dialog is open exactly while the installation is being confirmed;
  these three exclude each other, and a start is watched as long as the section is on the page.\<close>

theorem updates_invariant:
  assumes "updates_reachable env w"
  shows "distinct (map fst (w_pending w))
    \<and> calls (\<lambda>c. c = Call_check) w = (if w_busy w then 1 else 0)
    \<and> calls is_start w = (if w_starting w then 1 else 0)
    \<and> (w_modal w \<noteq> None \<longleftrightarrow> w_confirming w)
    \<and> \<not> (w_busy w \<and> w_starting w) \<and> \<not> (w_confirming w \<and> (w_busy w \<or> w_starting w))
    \<and> \<not> (w_starting w \<and> w_place w \<noteq> Gone \<and> \<not> w_monitoring w)"
  using reachable_ok [OF assms] by (auto simp: widget_ok_def calls_ok_def flags_ok_def)

text \<open>C5: an installation is started only by accepting the dialog, in a session that may write, with no
  start, check or watch running; and only for the package of a release whose version is newer than the
  installed one, as the router allowed it.\<close>

theorem install_confirmed:
  assumes "updates_reachable env w"
    and "(i, Call_start tag file) \<in> set (w_pending (update_step env e w))"
    and "(i, Call_start tag file) \<notin> set (w_pending w)"
  shows "e = Modal_accept \<and> w_modal w \<noteq> None \<and> ue_writable env
    \<and> calls is_start w = 0 \<and> \<not> w_busy w \<and> \<not> w_monitoring w
    \<and> (\<exists>s r a l. w_state w = Some s \<and> us_can_upgrade s \<and> latest_release (Some s) = Some r
         \<and> re_tag r = tag \<and> re_file r = Some file \<and> re_parsed r = Some a
         \<and> local_version w = Some l \<and> compare l a < 0)"
proof -
  have new: "(i, Call_start tag file) \<in> set (starts (update_step env e w))" "(i, Call_start tag file) \<notin> set (starts w)"
    using assms(2,3) by (simp_all add: starts_def)
  then have e: "e = Modal_accept" using starts_step [of e env w] by blast
  let ?w = "w\<lparr>w_confirming := False, w_modal := None\<rparr>"
  have modal: "w_modal w \<noteq> None" and run: "\<not> w_busy ?w" "\<not> w_monitoring ?w" "mayInstall env ?w"
    using new e by (auto simp: update_step_def accept_install_def install_def split: if_splits)
  from mayInstall_cases [OF run(3)] obtain s r f a l where r: "w_state w = Some s" "latest_release (Some s) = Some r"
    "re_file r = Some f" "re_parsed r = Some a" "local_version w = Some l" "compare l a < 0" "us_can_upgrade s"
    "ue_writable env" by (simp add: local_version_def) blast
  then have "tag = re_tag r" "file = f"
    using new e modal run by (auto simp: update_step_def accept_install_def install_def)
  moreover have "calls is_start w = 0"
    using reachable_ok [OF assms(1)] modal by (auto simp: widget_ok_def calls_ok_def flags_ok_def)
  ultimately show ?thesis using e modal run r by simp
qed

text \<open>A check that the router answers with an error, or without a release, ends and withdraws the
  offer of an installation: the button is hidden, the error is shown with the time of the next try,
  and no installation can be started from that state.\<close>

theorem failed_check_withdraws:
  assumes "updates_reachable env w" and "map_of (w_pending w) i = Some Call_check"
    and "us_result r \<noteq> Some 0 \<or> latest_release (Some r) = None"
    and "w' = update_step env (Answered i (Reply r)) w"
  shows "\<not> w_busy w' \<and> v_kind (w_view w') = js ''error''
    \<and> v_status (w_view w') = checkError env (w_now w) (us_retry_at r)
    \<and> v_install_hidden (w_view w') \<and> \<not> mayInstall env w' \<and> install env w' = w' \<and> confirmInstall env w' = w'"
proof -
  let ?u = "(forbid (w\<lparr>w_pending := filter (\<lambda>p. fst p \<noteq> i) (w_pending w)\<rparr>))\<lparr>w_busy := False\<rparr>"
  have w': "w' = showStatus (checkError env (w_now w) (us_retry_at r)) ''error'' (refresh env ?u)"
    using assms(2-4) by (auto simp: update_step_def answer_call_def check_answer_def check_failed_def Let_def)
  have "can_upgrade v = False" if "w_state v = w_state ?u" for v
    using that can_upgrade_forbid by (simp add: can_upgrade_def)
  then have no: "\<not> mayInstall env v" if "w_state v = w_state ?u" for v
    using that mayInstall_allowed by blast
  show ?thesis using no [of w'] no [of "?u\<lparr>w_observed := w_observed ?u \<or> job_active (job_of ?u)\<rparr>"]
    by (simp add: w' refresh_install_hidden install_def confirmInstall_def)
qed

section \<open>Inputs to apply them to\<close>

lemma refresh_buttons:
  "v_install_hidden (w_view (refresh env w)) = (\<not> mayInstall env (w\<lparr>w_observed := w_observed w \<or> job_active (job_of w)\<rparr>))"
  "v_install_disabled (w_view (refresh env w)) = (w_busy w \<or> job_active (job_of w) \<or> w_monitoring w \<or> w_confirming w)"
  "v_check_disabled (w_view (refresh env w)) = (w_busy w \<or> job_active (job_of w) \<or> w_monitoring w \<or> w_confirming w)"
  by (simp_all add: refresh_def showStatus_def refresh_view_def refresh_links_def Let_def split_beta job_of_def)

lemma mayInstall_cong:
  "w_state v = w_state w \<Longrightarrow> w_observed v = w_observed w \<Longrightarrow> w_loaded v = w_loaded w \<Longrightarrow>
     mayInstall env v = mayInstall env w"
proof -
  assume same: "w_state v = w_state w" "w_observed v = w_observed w" "w_loaded v = w_loaded w"
  then have "can_upgrade v = can_upgrade w" "needsReload v = needsReload w" "local_version v = local_version w"
    by (simp_all add: can_upgrade_def needsReload_def local_version_def split: option.split)
  with same(1) show ?thesis by (simp only: mayInstall_def)
qed

definition demo_env :: update_env where
  "demo_env = \<lparr>ue_tr = js, ue_fmt = (@), ue_time = (\<lambda>_. []), ue_date = (\<lambda>_. []), ue_writable = True\<rparr>"

definition demo_page :: "update_state option \<Rightarrow> widget" where
  "demo_page st = update_step demo_env Attach (render_updates demo_env st 0)"

lemma demo_page_reachable: "updates_reachable demo_env (demo_page st)"
  unfolding demo_page_def by (intro updates_reachable.intros)

lemma demo_page_rest:
  assumes "\<not> job_active (Option.bind st us_upgrade)"
  shows "w_state (demo_page st) = st" "\<not> w_busy (demo_page st)" "\<not> w_monitoring (demo_page st)"
    "\<not> w_confirming (demo_page st)" "w_place (demo_page st) = Inside" "w_pending (demo_page st) = []"
    "w_next (demo_page st) = 0" "\<not> v_check_disabled (w_view (demo_page st))"
    "\<not> v_install_disabled (w_view (demo_page st))" "\<not> w_observed (demo_page st)"
    "v_install_hidden (w_view (demo_page st)) = (\<not> mayInstall demo_env (demo_page st))"
  using assms by (simp_all add: demo_page_def update_step_def render_updates_def Let_def refresh_buttons job_of_def)
    (rule mayInstall_cong; simp add: job_of_def)

lemma demo_current: "version (js ''2.3'') = Some [2, 3, 0, 0, 3, 0, 1]"
  by code_simp

lemma demo_mayInstall:
  assumes "w_state w = Some demo_release"
  shows "mayInstall demo_env w"
proof -
  have "can_upgrade w" "\<not> needsReload w" "local_version w = Some [2, 3, 0, 0, 3, 0, 1]"
    using assms demo_current by (simp_all add: can_upgrade_def needsReload_def local_version_def demo_release_def)
  then show ?thesis by (simp add: mayInstall_def assms demo_release_parsed demo_env_def js_Cons)
qed

theorem updates_invariant_witness:
  "distinct (map fst (w_pending (demo_page None))) \<and> calls is_start (demo_page None) \<le> 1"
  using updates_invariant [OF demo_page_reachable [of None]] by simp

theorem install_confirmed_witness:
  "\<exists>w. updates_reachable demo_env w \<and> calls is_start w = 0 \<and> \<not> w_monitoring w
    \<and> w_pending (update_step demo_env Modal_accept w) = [(0, Call_start (js ''v2.4'') (js ''luci-theme-argon-2.4.apk''))]"
proof -
  let ?p = "demo_page (Some demo_release)"
  have "\<not> job_active (Option.bind (Some demo_release) us_upgrade)" by (simp add: demo_release_def job_active_def)
  note p = demo_page_rest [OF this]
  let ?w = "update_step demo_env Click_install ?p"
  have reach: "updates_reachable demo_env ?w" using demo_page_reachable by (rule updates_reachable.step)
  have may: "mayInstall demo_env ?p" using p(1) by (rule demo_mayInstall)
  then have w: "?w = confirmInstall demo_env ?p" using p by (simp add: update_step_def)
  have f: "w_modal ?w \<noteq> None" "\<not> w_busy ?w" "\<not> w_monitoring ?w" "w_state ?w = Some demo_release"
    "w_pending ?w = []" "w_next ?w = 0"
    using p may by (simp_all add: w confirmInstall_def)
  have "mayInstall demo_env (?w\<lparr>w_confirming := False, w_modal := None\<rparr>)"
    using f(4) by (intro demo_mayInstall) simp
  then have sent: "w_pending (update_step demo_env Modal_accept ?w) =
      [(0, Call_start (js ''v2.4'') (js ''luci-theme-argon-2.4.apk''))]"
    using f by (simp add: update_step_def [of demo_env Modal_accept] accept_install_def install_def demo_release_parsed monitor_def)
  with install_confirmed [OF reach, of 0 "js ''v2.4''" "js ''luci-theme-argon-2.4.apk''" Modal_accept] f(5) reach
  show ?thesis by (intro exI [of _ ?w]) simp
qed

theorem failed_check_withdraws_witness:
  "\<exists>w i. updates_reachable demo_env w \<and> w_busy w
    \<and> \<not> w_busy (update_step demo_env (Answered i (Reply no_fields)) w)
    \<and> v_install_hidden (w_view (update_step demo_env (Answered i (Reply no_fields)) w))"
proof -
  let ?p = "demo_page None"
  have "\<not> job_active (Option.bind None us_upgrade)" by (simp add: job_active_def)
  note p = demo_page_rest [OF this]
  let ?w = "update_step demo_env Click_check ?p"
  have reach: "updates_reachable demo_env ?w" using demo_page_reachable by (rule updates_reachable.step)
  have "w_pending ?w = [(0, Call_check)]" "w_busy ?w"
    using p by (simp_all add: update_step_def check_def)
  with failed_check_withdraws [OF reach, of 0 no_fields] reach show ?thesis
    by (intro exI [of _ ?w] exI [of _ 0]) (simp add: no_fields_def)
qed

end
