(* ===== verification/LogStream.thy ===== *)
theory LogStream
  imports JsUri "HOL-Library.Sublist"
begin

text \<open>
  The log streamer of OpenClash, \<open>ocCreateLogStream\<close> in \<open>openclash/js/common.js\<close>: a request whose text
  grows while a script runs on the router, cut into lines that are shown once, with a timer that ends
  the stream, one that opens it again, and one that gives up. The network and the clock are events; an
  event of a request that was replaced does nothing in the source and is no event of the model. The
  calls of the owner's functions are recorded in the state.
\<close>

section \<open>Lines\<close>

definition newline :: cu where
  "newline = 0x0A"

abbreviation lines_of :: "jsstr \<Rightarrow> jsstr list" where
  "lines_of \<equiv> split_on [newline]"

text \<open>\<open>replace(/##FINISHED##|##CONTINUE##|##FINISH##/g, '')\<close>\<close>

lemma starts_with_not_Nil: "starts_with (js (c # p)) s \<Longrightarrow> s \<noteq> []"
  by (auto simp: starts_with_def js_Cons)

function remove_markers :: "jsstr \<Rightarrow> jsstr" where
  "remove_markers s =
     (if starts_with (js ''##FINISHED##'') s \<or> starts_with (js ''##CONTINUE##'') s then remove_markers (drop 12 s)
      else if starts_with (js ''##FINISH##'') s then remove_markers (drop 10 s)
      else case s of [] \<Rightarrow> [] | u # t \<Rightarrow> u # remove_markers t)"
  by pat_completeness auto
termination
  by (relation "measure length") (auto simp del: js_Cons dest!: starts_with_not_Nil)

declare remove_markers.simps [simp del]

definition trim_end :: "jsstr \<Rightarrow> jsstr" where
  "trim_end s = rev (dropWhile is_ws (rev s))"

definition ends_with :: "jsstr \<Rightarrow> jsstr \<Rightarrow> bool" where
  "ends_with p s \<longleftrightarrow> length p \<le> length s \<and> drop (length s - length p) s = p"

definition ends_finished :: "jsstr \<Rightarrow> bool" where
  \<comment> \<open>\<open>/##FINISHED##\s*$/.test(text)\<close>\<close>
  "ends_finished text = ends_with (js ''##FINISHED##'') (trim_end text)"

definition strip_marker :: "jsstr \<Rightarrow> jsstr" where
  \<comment> \<open>\<open>replace(/##FINISHED##\s*$|##CONTINUE##\s*$/, '')\<close>\<close>
  "strip_marker text =
     (if ends_finished text \<or> ends_with (js ''##CONTINUE##'') (trim_end text)
      then take (length (trim_end text) - 12) text else text)"

definition line_count :: "jsstr \<Rightarrow> nat" where
  \<comment> \<open>the count of \<open>rememberLines\<close>\<close>
  "line_count response =
     (let text = rev (dropWhile (\<lambda>u. u = newline) (rev (strip_marker response))) in
      if text = [] then 0 else length (lines_of text))"

fun skip_lines :: "nat \<Rightarrow> nat \<Rightarrow> jsstr \<Rightarrow> nat \<times> nat" where
  \<comment> \<open>the loop of \<open>consume\<close>: how much of the text is processed, and how many lines are left to skip\<close>
  "skip_lines 0 p text = (p, 0)"
| "skip_lines (Suc n) p text =
     (case index_of [newline] (drop p text) of
        None \<Rightarrow> (length text, Suc n)
      | Some i \<Rightarrow> skip_lines n (Suc (p + i)) text)"

section \<open>One request\<close>

text \<open>\<open>rq_finish\<close> is the time at which the finish timer fires.\<close>

record log_request =
  rq_processed :: nat
  rq_pending :: jsstr
  rq_skip :: nat
  rq_ended :: bool
  rq_finish :: "nat option"

definition consume :: "jsstr \<Rightarrow> bool \<Rightarrow> log_request \<Rightarrow> log_request \<times> jsstr list" where
  \<comment> \<open>the request behind it, and the text it shows, if any\<close>
  "consume text flush rq0 =
     (let rq = (if length text < rq_processed rq0
                then rq0\<lparr>rq_processed := 0, rq_pending := [], rq_skip := 0\<rparr> else rq0);
          (from, left) = skip_lines (rq_skip rq) (rq_processed rq) text in
      if 0 < left then (rq\<lparr>rq_processed := from, rq_skip := left\<rparr>, [])
      else
        let parts = lines_of (rq_pending rq @ drop from text);
            raw = remove_markers (join [newline] (if flush then parts else butlast parts))
        in (rq\<lparr>rq_processed := length text, rq_skip := 0, rq_pending := (if flush then [] else last parts)\<rparr>,
            if trim raw = [] then [] else [raw]))"

section \<open>The stream\<close>

text \<open>The options; an empty text or 0 stands for an absent one.\<close>

record stream_opts =
  so_url :: jsstr
  so_script :: jsstr
  so_skip :: "nat option"
  so_initial :: jsstr
  so_max_wait :: nat
  so_finish_delay :: nat

record log_stream =
  ls_now :: nat
  ls_xhr :: "log_request option"
  ls_reconnect :: "nat option"
  ls_max_wait :: "nat option"
  ls_stopped :: bool
  ls_initial :: bool
  ls_last :: "nat option"
  ls_shown :: "jsstr list"
  ls_skips :: "nat list"
  ls_finished :: nat
  ls_timeouts :: nat

definition watch_mode :: "stream_opts \<Rightarrow> bool" where
  "watch_mode o' \<longleftrightarrow> so_script o' \<noteq> [] \<and> so_script o' \<noteq> js ''view''"

definition stream_url :: "stream_opts \<Rightarrow> jsstr option" where
  \<comment> \<open>\<open>None\<close> is the error of a script name that cannot be encoded\<close>
  "stream_url o' =
     (if watch_mode o' then map_option (\<lambda>e. so_url o' @ js ''?script='' @ e) (encodeURIComponent (so_script o'))
      else Some (so_url o'))"

definition create_stream :: "stream_opts \<Rightarrow> nat \<Rightarrow> log_stream" where
  "create_stream o' now =
     \<lparr>ls_now = now, ls_xhr = None, ls_reconnect = None, ls_max_wait = None, ls_stopped = False,
      ls_initial = False, ls_last = so_skip o', ls_shown = [], ls_skips = [], ls_finished = 0, ls_timeouts = 0\<rparr>"

definition new_request :: "log_stream \<Rightarrow> log_request" where
  "new_request s =
     \<lparr>rq_processed = 0, rq_pending = [], rq_skip = (case ls_last s of Some n \<Rightarrow> n | None \<Rightarrow> 0),
      rq_ended = False, rq_finish = None\<rparr>"

definition openStream :: "stream_opts \<Rightarrow> log_stream \<Rightarrow> log_stream" where
  "openStream o' s =
     (if ls_stopped s then s
      else
        let s1 = s\<lparr>ls_xhr := Some (new_request s)\<rparr> in
        if so_initial o' \<noteq> [] \<and> \<not> ls_initial s1
        then s1\<lparr>ls_initial := True, ls_shown := ls_shown s1 @ [so_initial o']\<rparr> else s1)"

definition rememberLines :: "jsstr \<Rightarrow> log_stream \<Rightarrow> log_stream" where
  "rememberLines response s =
     s\<lparr>ls_last := Some (line_count response), ls_skips := ls_skips s @ [line_count response]\<rparr>"

definition scheduleFinish :: "stream_opts \<Rightarrow> nat \<Rightarrow> log_request \<Rightarrow> log_request" where
  "scheduleFinish o' now rq =
     (if rq_finish rq \<noteq> None then rq
      else rq\<lparr>rq_finish := Some (now + (if so_finish_delay o' = 0 then 10000 else so_finish_delay o'))\<rparr>)"

definition reconnect :: "log_stream \<Rightarrow> log_stream" where
  "reconnect s = (if ls_stopped s \<or> ls_reconnect s \<noteq> None then s else s\<lparr>ls_reconnect := Some (ls_now s + 1000)\<rparr>)"

definition finishPermanent :: "jsstr \<Rightarrow> log_stream \<Rightarrow> log_stream" where
  "finishPermanent response s =
     (let s1 = rememberLines response (s\<lparr>ls_xhr := None, ls_max_wait := None\<rparr>) in
      s1\<lparr>ls_finished := Suc (ls_finished s1)\<rparr>)"

definition stream_abort :: "log_stream \<Rightarrow> log_stream" where
  "stream_abort s = s\<lparr>ls_stopped := True, ls_reconnect := None, ls_max_wait := None, ls_xhr := None\<rparr>"

definition stream_start :: "stream_opts \<Rightarrow> log_stream \<Rightarrow> log_stream" where
  "stream_start o' s =
     openStream o'
       (if so_max_wait o' \<noteq> 0 \<and> ls_max_wait s = None
        then s\<lparr>ls_max_wait := Some (ls_now s + so_max_wait o')\<rparr> else s)"

definition consumed :: "stream_opts \<Rightarrow> jsstr \<Rightarrow> bool \<Rightarrow> log_request \<Rightarrow> log_stream \<Rightarrow> log_request \<times> log_stream" where
  "consumed o' text flush rq s =
     (case consume text flush rq of (rq', out) \<Rightarrow> (rq', s\<lparr>ls_shown := ls_shown s @ out\<rparr>))"

definition stream_progress :: "stream_opts \<Rightarrow> jsstr \<Rightarrow> log_request \<Rightarrow> log_stream \<Rightarrow> log_stream" where
  "stream_progress o' text rq s =
     (if rq_ended rq then s
      else case consumed o' text False rq s of
             (rq', s') \<Rightarrow>
               s'\<lparr>ls_xhr := Some (if ends_finished text then scheduleFinish o' (ls_now s) rq' else rq')\<rparr>)"

definition stream_load :: "stream_opts \<Rightarrow> jsstr \<Rightarrow> log_request \<Rightarrow> log_stream \<Rightarrow> log_stream" where
  "stream_load o' text rq s =
     (if rq_ended rq then s
      else case consumed o' text True rq s of
             (rq', s') \<Rightarrow>
               if \<not> watch_mode o' \<or> ends_finished text
               then s'\<lparr>ls_xhr := Some (scheduleFinish o' (ls_now s) rq')\<rparr>
               else reconnect ((rememberLines text s')\<lparr>ls_xhr := None\<rparr>))"

definition stream_error :: "stream_opts \<Rightarrow> jsstr \<Rightarrow> log_stream \<Rightarrow> log_stream" where
  \<comment> \<open>\<open>response\<close> is what \<open>responseText\<close> gives once the request failed\<close>
  "stream_error o' response s =
     (let s1 = (rememberLines response s)\<lparr>ls_xhr := None\<rparr> in if watch_mode o' then reconnect s1 else s1)"

datatype stream_event =
    Start
  | Abort
  | Progress jsstr
  | Load jsstr
  | Error jsstr
  | Tick nat
  | Finish_timer jsstr
  | Reconnect_timer
  | Max_wait_timer

definition due :: "log_stream \<Rightarrow> nat option \<Rightarrow> bool" where
  "due s t = (case t of Some n \<Rightarrow> n \<le> ls_now s | None \<Rightarrow> False)"

definition stream_step :: "stream_opts \<Rightarrow> log_stream \<Rightarrow> stream_event \<Rightarrow> log_stream" where
  "stream_step o' s e =
     (case e of
        Start \<Rightarrow> stream_start o' s
      | Abort \<Rightarrow> stream_abort s
      | Progress text \<Rightarrow> (case ls_xhr s of Some rq \<Rightarrow> stream_progress o' text rq s | None \<Rightarrow> s)
      | Load text \<Rightarrow> (case ls_xhr s of Some rq \<Rightarrow> stream_load o' text rq s | None \<Rightarrow> s)
      | Error response \<Rightarrow> (case ls_xhr s of Some _ \<Rightarrow> stream_error o' response s | None \<Rightarrow> s)
      | Tick n \<Rightarrow> s\<lparr>ls_now := ls_now s + n\<rparr>
      | Finish_timer response \<Rightarrow>
          (case ls_xhr s of
             Some rq \<Rightarrow> if due s (rq_finish rq) then finishPermanent response s else s
           | None \<Rightarrow> s)
      | Reconnect_timer \<Rightarrow>
          if due s (ls_reconnect s)
          then (let s1 = s\<lparr>ls_reconnect := None\<rparr> in if ls_xhr s1 = None \<and> \<not> ls_stopped s1 then openStream o' s1 else s1)
          else s
      | Max_wait_timer \<Rightarrow>
          if due s (ls_max_wait s)
          then (let s1 = stream_abort (s\<lparr>ls_max_wait := None\<rparr>) in s1\<lparr>ls_timeouts := Suc (ls_timeouts s1)\<rparr>)
          else s)"

section \<open>Splitting into lines\<close>

lemma lines_Nil [simp]: "lines_of [] = [[]]"
  by simp

lemma lines_Cons:
  "lines_of (u # s) =
     (if u = newline then [] # lines_of s else (u # hd (lines_of s)) # tl (lines_of s))"
proof (cases "u = newline")
  case True
  then show ?thesis using split_on_found1 [of newline "[]" s] by simp
next
  case False
  then show ?thesis
    by (cases "index_of [newline] s")
      (simp_all add: split_on_none split_on_some [where s = "u # s"] split_on_some [where s = s])
qed

lemma lines_not_Nil [simp]: "lines_of s \<noteq> []"
  by simp

lemma length_lines: "length (lines_of s) = Suc (count_list s newline)"
  by (induction s) (simp_all add: lines_Cons)

lemma lines_no_newline: "\<forall>l\<in>set (lines_of s). newline \<notin> set l"
proof (induction s)
  case Nil
  show ?case by simp
next
  case (Cons u s)
  show ?case
  proof (cases "u = newline")
    case False
    obtain l ls where "lines_of s = l # ls" using lines_not_Nil [of s] by (cases "lines_of s") blast+
    then show ?thesis using Cons False by (simp add: lines_Cons)
  next
    case True
    then show ?thesis using Cons by (simp add: lines_Cons)
  qed
qed

lemma lines_append:
  "lines_of (s @ t) = butlast (lines_of s) @ (last (lines_of s) @ hd (lines_of t)) # tl (lines_of t)"
proof (induction s)
  case Nil
  show ?case by simp
next
  case (Cons u s)
  obtain l ls where l: "lines_of s = l # ls" using lines_not_Nil [of s] by (cases "lines_of s") blast+
  then show ?case using Cons by (cases ls) (simp_all add: lines_Cons)
qed

lemma lines_append':
  "lines_of (s @ t) = butlast (lines_of s) @ lines_of (last (lines_of s) @ t)"
proof -
  have "newline \<notin> set (last (lines_of s))" using lines_no_newline [of s] by simp
  then have "lines_of (last (lines_of s)) = [last (lines_of s)]" by simp
  then show ?thesis by (simp add: lines_append [of "last (lines_of s)" t] lines_append [of s t])
qed

lemma drop_lines_prefix: "newline \<notin> set p \<Longrightarrow> 0 < k \<Longrightarrow> drop k (lines_of (p @ t)) = drop k (lines_of t)"
  by (cases k) (simp_all add: lines_append drop_Suc)

lemma lines_newline: "lines_of (s @ newline # t) = lines_of s @ lines_of t"
  using append_butlast_last_id [OF lines_not_Nil [of s]]
  by (simp add: lines_append [of s "newline # t"] lines_Cons)

lemma index_newline:
  assumes "index_of [newline] s = Some i"
  shows "lines_of s = take i s # lines_of (drop (Suc i) s)" and "Suc i \<le> length s"
    and "count_list s newline = Suc (count_list (drop (Suc i) s) newline)"
proof -
  show l: "lines_of s = take i s # lines_of (drop (Suc i) s)" using assms by (simp add: split_on_some)
  show "Suc i \<le> length s" using index_of_bound [OF assms] by simp
  show "count_list s newline = Suc (count_list (drop (Suc i) s) newline)"
    using length_lines [of s] length_lines [of "drop (Suc i) s"] l by simp
qed

lemma skip_lines_spec:
  "p \<le> length s \<Longrightarrow>
     skip_lines k p s = (length s, k - count_list (drop p s) newline) \<and> count_list (drop p s) newline < k
     \<or> (\<exists>q. skip_lines k p s = (q, 0) \<and> p \<le> q \<and> q \<le> length s \<and> k \<le> count_list (drop p s) newline
          \<and> lines_of (drop q s) = drop k (lines_of (drop p s)))"
proof (induction k p s rule: skip_lines.induct)
  case (1 p s)
  then show ?case by simp
next
  case (2 n p s)
  show ?case
  proof (cases "index_of [newline] (drop p s)")
    case None
    then have "length (lines_of (drop p s)) = 1" by (simp add: split_on_none)
    then have "count_list (drop p s) newline = 0" by (simp add: length_lines)
    then show ?thesis using None by simp
  next
    case (Some i)
    note ix = index_newline [OF Some]
    have le: "Suc (p + i) \<le> length s" using ix(2) by simp
    have d: "drop (Suc i) (drop p s) = drop (Suc (p + i)) s" by (simp add: add.commute)
    show ?thesis using "2.IH" [OF Some le] Some ix(1,3) unfolding d by auto
  qed
qed

text \<open>What a list of shown texts says: its lines that are not blank.\<close>

definition visible :: "jsstr list \<Rightarrow> jsstr list" where
  "visible shown = filter (\<lambda>l. trim l \<noteq> []) (concat (map lines_of shown))"

definition marked_off :: "jsstr list \<Rightarrow> jsstr list" where
  "marked_off ls = filter (\<lambda>l. trim l \<noteq> []) (map remove_markers ls)"

lemma visible_append [simp]: "visible (a @ b) = visible a @ visible b"
  by (simp add: visible_def)

lemma visible_Nil [simp]: "visible [] = []"
  by (simp add: visible_def)

lemma marked_off_append [simp]: "marked_off (a @ b) = marked_off a @ marked_off b"
  by (simp add: marked_off_def)

lemma marked_off_Nil [simp]: "marked_off [] = []"
  by (simp add: marked_off_def)

lemma trim_eq_Nil_iff: "trim s = [] \<longleftrightarrow> (\<forall>u\<in>set s. is_ws u)"
proof -
  have "(\<forall>u\<in>set (dropWhile is_ws s). is_ws u) \<longleftrightarrow> (\<forall>u\<in>set s. is_ws u)"
    by (induction s) auto
  then show ?thesis by (simp add: trim_def trim_start_def dropWhile_eq_Nil_conv)
qed

lemma starts_with_newline:
  "newline \<notin> set m \<Longrightarrow> starts_with m (s @ newline # t) = starts_with m s"
proof (cases "length m \<le> length s")
  case False
  assume "newline \<notin> set m"
  moreover have "newline \<in> set (take (length m) (s @ newline # t))"
    using False by (cases "length m - length s") auto
  ultimately have "take (length m) (s @ newline # t) \<noteq> m" by metis
  then show ?thesis using False by (auto simp: starts_with_def dest: arg_cong [where f = length])
qed (simp add: starts_with_def)

lemma marker_units:
  "newline \<notin> set (js ''##FINISHED##'')" "newline \<notin> set (js ''##CONTINUE##'')" "newline \<notin> set (js ''##FINISH##'')"
  by code_simp+

lemma marker_length:
  "starts_with (js m) s \<Longrightarrow> length m \<le> length s"
  by (auto simp: starts_with_def dest: arg_cong [where f = length])

lemma remove_markers_newline:
  "remove_markers (s @ newline # t) = remove_markers s @ newline # remove_markers t"
proof (induction s rule: remove_markers.induct)
  case (1 s)
  note starts = starts_with_newline [OF marker_units(1), of s t] starts_with_newline [OF marker_units(2), of s t]
    starts_with_newline [OF marker_units(3), of s t]
  consider (twelve) "starts_with (js ''##FINISHED##'') s \<or> starts_with (js ''##CONTINUE##'') s"
    | (ten) "\<not> (starts_with (js ''##FINISHED##'') s \<or> starts_with (js ''##CONTINUE##'') s)" "starts_with (js ''##FINISH##'') s"
    | (none) "\<not> (starts_with (js ''##FINISHED##'') s \<or> starts_with (js ''##CONTINUE##'') s)" "\<not> starts_with (js ''##FINISH##'') s"
    by blast
  then show ?case
  proof cases
    case twelve
    then have "12 \<le> length s" using marker_length [of "''##FINISHED##''" s] marker_length [of "''##CONTINUE##''" s] by auto
    then show ?thesis using twelve 1(1) [OF twelve]
      by (simp add: remove_markers.simps [of s] remove_markers.simps [of "s @ newline # t"] starts del: js_Cons)
  next
    case ten
    then have "10 \<le> length s" using marker_length [of "''##FINISH##''" s] by auto
    then show ?thesis using ten 1(2) [OF ten]
      by (simp add: remove_markers.simps [of s] remove_markers.simps [of "s @ newline # t"] starts del: js_Cons)
  next
    case none
    then have "remove_markers (s @ newline # t) = (case s @ newline # t of [] \<Rightarrow> [] | u # t \<Rightarrow> u # remove_markers t)"
      "remove_markers s = (case s of [] \<Rightarrow> [] | u # t \<Rightarrow> u # remove_markers t)"
      by (simp_all add: remove_markers.simps [of s] remove_markers.simps [of "s @ newline # t"] starts del: js_Cons)
    then show ?thesis using 1(3) [OF none] by (cases s) simp_all
  qed
qed

lemma remove_markers_Nil [simp]: "remove_markers [] = []"
  by (simp add: remove_markers.simps [of "[]"] starts_with_def)

lemma remove_markers_join:
  "remove_markers (join [newline] ls) = join [newline] (map remove_markers ls)"
  by (induction "[newline]" ls rule: join.induct) (simp_all add: remove_markers_newline)

lemma set_remove_markers: "set (remove_markers s) \<subseteq> set s"
proof (induction s rule: remove_markers.induct)
  case (1 s)
  have d: "set (drop n s) \<subseteq> set s" for n by (rule set_drop_subset)
  have twelve: "set (remove_markers (drop 12 s)) \<subseteq> set s"
    if "starts_with (js ''##FINISHED##'') s \<or> starts_with (js ''##CONTINUE##'') s"
    using 1(1) [OF that] d [of 12] by blast
  have ten: "set (remove_markers (drop 10 s)) \<subseteq> set s"
    if "\<not> (starts_with (js ''##FINISHED##'') s \<or> starts_with (js ''##CONTINUE##'') s)" "starts_with (js ''##FINISH##'') s"
    using 1(2) [OF that] d [of 10] by blast
  show ?case
    unfolding remove_markers.simps [of s] using twelve ten 1(3)
    by (cases s) (auto simp del: js_Cons)
qed

lemma set_join_part: "x \<in> set xs \<Longrightarrow> set x \<subseteq> set (join sep xs)"
  by (induction sep xs rule: join.induct) auto

section \<open>What a request shows\<close>

lemma visible_raw:
  assumes "\<forall>l\<in>set ls. newline \<notin> set l" and "raw = remove_markers (join [newline] ls)"
  shows "visible (if trim raw = [] then [] else [raw]) = marked_off ls"
proof (cases "ls = []")
  case True
  then show ?thesis using assms(2) by (simp add: trim_eq_Nil_iff)
next
  case False
  have raw: "raw = join [newline] (map remove_markers ls)" using assms(2) by (simp add: remove_markers_join)
  have "\<forall>l\<in>set (map remove_markers ls). newline \<notin> set l" using assms(1) by (auto dest!: subsetD [OF set_remove_markers])
  then have split: "lines_of raw = map remove_markers ls" using False by (simp add: raw split_on_join)
  have part: "set l \<subseteq> set raw" if "l \<in> set (lines_of raw)" for l
    using set_join_part [OF that, of "[newline]"] join_split_on [of "[newline]" raw] by simp
  have seen: "visible [raw] = marked_off ls" by (simp add: visible_def marked_off_def split)
  show ?thesis
  proof (cases "trim raw = []")
    case True
    then have "trim l = []" if "l \<in> set (lines_of raw)" for l
      using part [OF that] unfolding trim_eq_Nil_iff by blast
    then have "visible [raw] = []" by (simp add: visible_def filter_empty_conv)
    then show ?thesis using seen True by simp
  qed (simp add: seen)
qed

text \<open>The state of a request that skips \<open>k\<close> lines, once it has consumed the text \<open>t\<close>.\<close>

definition fits :: "nat \<Rightarrow> jsstr \<Rightarrow> log_request \<Rightarrow> bool" where
  "fits k t rq \<longleftrightarrow> rq_processed rq = length t
     \<and> (if rq_skip rq = 0 then k \<le> count_list t newline \<and> rq_pending rq = last (lines_of t)
        else rq_pending rq = [] \<and> rq_skip rq + count_list t newline = k)"

lemma lines_short: "count_list t newline < k \<Longrightarrow> drop k (lines_of t) = []"
  by (simp add: length_lines)

lemma butlast_short: "count_list t newline \<le> k \<Longrightarrow> drop k (butlast (lines_of t)) = []"
  by (simp add: length_lines)

lemma skipped_parts:
  assumes "fits k t rq" and "skip_lines (rq_skip rq) (rq_processed rq) (t @ u) = (q, left)"
  shows "(0 < left \<longrightarrow> q = length (t @ u) \<and> left + count_list (t @ u) newline = k \<and> rq_pending rq = [])
    \<and> (left = 0 \<longrightarrow> k \<le> count_list (t @ u) newline
      \<and> drop k (lines_of (t @ u)) = drop k (butlast (lines_of t)) @ lines_of (rq_pending rq @ drop q (t @ u)))"
proof -
  have p: "rq_processed rq = length t" using assms(1) by (simp add: fits_def)
  show ?thesis
  proof (cases "rq_skip rq")
    case 0
    then have k: "k \<le> count_list t newline" "rq_pending rq = last (lines_of t)" using assms(1) by (simp_all add: fits_def)
    have "q = length t" "left = 0" using assms(2) 0 p by simp_all
    then show ?thesis using k by (simp add: lines_append' [of t u] length_lines)
  next
    case (Suc n)
    then have k: "k = Suc n + count_list t newline" "rq_pending rq = []" using assms(1) by (simp_all add: fits_def)
    have tail: "drop k (lines_of (t @ u)) = drop (Suc n) (lines_of u)"
      by (simp add: lines_append [of t u] k(1) length_lines drop_Suc)
    have short: "drop k (butlast (lines_of t)) = []" using k(1) by (simp add: length_lines)
    from skip_lines_spec [of "length t" "t @ u" "Suc n"] assms(2) p Suc k tail short show ?thesis
      by auto
  qed
qed

lemma consume_eq:
  assumes "fits k t rq" and "skip_lines (rq_skip rq) (rq_processed rq) (t @ u) = (q, left)"
  defines "parts \<equiv> lines_of (rq_pending rq @ drop q (t @ u))"
  defines "raw \<equiv> \<lambda>flush. remove_markers (join [newline] (if flush then parts else butlast parts))"
  shows "consume (t @ u) flush rq =
    (if 0 < left then (rq\<lparr>rq_processed := q, rq_skip := left\<rparr>, [])
     else (rq\<lparr>rq_processed := length (t @ u), rq_skip := 0, rq_pending := (if flush then [] else last parts)\<rparr>,
           if trim (raw flush) = [] then [] else [raw flush]))"
proof -
  have "\<not> length (t @ u) < rq_processed rq" using assms(1) by (simp add: fits_def)
  then show ?thesis unfolding consume_def Let_def parts_def raw_def by (simp only: if_False assms(2) prod.case)
qed

lemma consume_shows:
  assumes "fits k t rq" and "consume (t @ u) flush rq = (rq', out)"
  shows "(\<not> flush \<longrightarrow> fits k (t @ u) rq')
    \<and> marked_off (drop k (butlast (lines_of t))) @ visible out =
      marked_off (drop k (if flush then lines_of (t @ u) else butlast (lines_of (t @ u))))
    \<and> rq_ended rq' = rq_ended rq \<and> rq_finish rq' = rq_finish rq"
proof -
  obtain q left where sk: "skip_lines (rq_skip rq) (rq_processed rq) (t @ u) = (q, left)" by force
  define P where "P = lines_of (rq_pending rq @ drop q (t @ u))"
  have P: "\<forall>l\<in>set P. newline \<notin> set l" "P \<noteq> []" unfolding P_def by (rule lines_no_newline) (rule lines_not_Nil)
  note c = assms(2) [unfolded consume_eq [OF assms(1) sk], folded P_def]
  note parts = skipped_parts [OF assms(1) sk, folded P_def]
  show ?thesis
  proof (cases "left = 0")
    case False
    then have q: "q = length (t @ u)" "left + count_list (t @ u) newline = k" "rq_pending rq = []"
      using parts by simp_all
    then have "drop k (lines_of (t @ u)) = []" "drop k (butlast (lines_of (t @ u))) = []" "drop k (butlast (lines_of t)) = []"
      using False by (simp_all add: lines_short butlast_short)
    then show ?thesis using c False q by (auto simp: fits_def)
  next
    case True
    then have split: "k \<le> count_list (t @ u) newline" "drop k (lines_of (t @ u)) = drop k (butlast (lines_of t)) @ P"
      using parts by simp_all
    let ?L = "if flush then P else butlast P"
    have new: "rq' = rq\<lparr>rq_processed := length (t @ u), rq_skip := 0, rq_pending := (if flush then [] else last P)\<rparr>"
      "out = (if trim (remove_markers (join [newline] ?L)) = [] then [] else [remove_markers (join [newline] ?L)])"
      using c unfolding True by simp_all
    have "\<forall>l\<in>set ?L. newline \<notin> set l"
      using P(1) by (auto dest: in_set_butlastD)
    then have out: "visible out = marked_off ?L" unfolding new(2) by (rule visible_raw) (rule refl)
    have "butlast (drop k (lines_of (t @ u))) = drop k (butlast (lines_of t)) @ butlast P"
      using split(2) P(2) by (simp add: butlast_append)
    then have "drop k (butlast (lines_of (t @ u))) = drop k (butlast (lines_of t)) @ butlast P"
      by (simp add: drop_butlast)
    then have seen: "marked_off (drop k (butlast (lines_of t))) @ visible out =
      marked_off (drop k (if flush then lines_of (t @ u) else butlast (lines_of (t @ u))))"
      using split(2) out by simp
    have "last (drop k (lines_of (t @ u))) = last (lines_of (t @ u))"
      using split(1) by (intro last_drop) (simp only: length_lines less_Suc_eq_le)
    then have "last P = last (lines_of (t @ u))" using split(2) P(2) by simp
    then have "\<not> flush \<longrightarrow> fits k (t @ u) rq'" using split(1) by (simp add: new(1) fits_def)
    then show ?thesis using seen by (simp add: new(1))
  qed
qed

text \<open>The state of a stream whose request skips \<open>k\<close> lines and has consumed \<open>t\<close>; \<open>A\<close> is what was visible before.\<close>

definition shows_upto :: "jsstr list \<Rightarrow> nat \<Rightarrow> jsstr \<Rightarrow> log_stream \<Rightarrow> bool" where
  "shows_upto A k t s \<longleftrightarrow> (\<exists>rq. ls_xhr s = Some rq \<and> \<not> rq_ended rq \<and> fits k t rq)
     \<and> visible (ls_shown s) = A @ marked_off (drop k (butlast (lines_of t)))"

definition same_timers :: "log_stream \<Rightarrow> log_stream \<Rightarrow> bool" where
  "same_timers s s' \<longleftrightarrow> ls_now s' = ls_now s \<and> ls_stopped s' = ls_stopped s \<and> ls_reconnect s' = ls_reconnect s
     \<and> ls_initial s' = ls_initial s"

lemma shows_opened:
  assumes "\<not> ls_stopped s"
  shows "shows_upto (visible (ls_shown (openStream o' s))) (case ls_last s of Some n \<Rightarrow> n | None \<Rightarrow> 0) [] (openStream o' s)"
    and "ls_stopped (openStream o' s) = ls_stopped s" and "ls_now (openStream o' s) = ls_now s"
    and "ls_reconnect (openStream o' s) = ls_reconnect s"
    and "ls_initial (openStream o' s) = (ls_initial s \<or> so_initial o' \<noteq> [])"
    and "so_initial o' = [] \<or> ls_initial s \<Longrightarrow> ls_shown (openStream o' s) = ls_shown s"
  using assms by (auto simp: openStream_def new_request_def shows_upto_def fits_def Let_def)

lemma shows_progress:
  assumes "shows_upto A k t s" and "prefix t u"
  shows "shows_upto A k u (stream_step o' s (Progress u)) \<and> same_timers s (stream_step o' s (Progress u))"
proof -
  obtain v where u: "u = t @ v" using assms(2) by (auto elim: prefixE)
  obtain rq where rq: "ls_xhr s = Some rq" "\<not> rq_ended rq" "fits k t rq"
    using assms(1) by (auto simp: shows_upto_def)
  obtain rq' out where c: "consume u False rq = (rq', out)" by force
  note shown = consume_shows [OF rq(3) c [unfolded u], folded u]
  have "fits k u (if ends_finished u then scheduleFinish o' (ls_now s) rq' else rq')"
    "\<not> rq_ended (if ends_finished u then scheduleFinish o' (ls_now s) rq' else rq')"
    using shown rq(2) by (simp_all add: fits_def scheduleFinish_def)
  then show ?thesis using assms(1) shown rq c
    by (simp add: shows_upto_def same_timers_def stream_step_def stream_progress_def consumed_def)
qed

lemma shows_progresses:
  "shows_upto A k t s \<Longrightarrow> sorted_wrt prefix (t # ts) \<Longrightarrow>
     shows_upto A k (last (t # ts)) (foldl (stream_step o') s (map Progress ts))
     \<and> same_timers s (foldl (stream_step o') s (map Progress ts))"
proof (induction ts arbitrary: t s)
  case Nil
  then show ?case by (simp add: same_timers_def)
next
  case (Cons u ts)
  have u: "prefix t u" "sorted_wrt prefix (u # ts)" using Cons.prems(2) by simp_all
  note p = shows_progress [OF Cons.prems(1) u(1), of o']
  from Cons.IH [OF conjunct1 [OF p] u(2)] p show ?case by (simp add: same_timers_def)
qed

lemma shows_load:
  assumes "shows_upto A k t s" and "prefix t u"
  shows "visible (ls_shown (stream_step o' s (Load u))) = A @ marked_off (drop k (lines_of u))"
proof -
  obtain v where u: "u = t @ v" using assms(2) by (auto elim: prefixE)
  obtain rq where rq: "ls_xhr s = Some rq" "\<not> rq_ended rq" "fits k t rq"
    using assms(1) by (auto simp: shows_upto_def)
  obtain rq' out where c: "consume u True rq = (rq', out)" by force
  have "marked_off (drop k (butlast (lines_of t))) @ visible out = marked_off (drop k (lines_of u))"
    using consume_shows [OF rq(3) c [unfolded u], folded u] by simp
  then show ?thesis using assms(1) rq(1,2) c
    by (simp add: shows_upto_def stream_step_def stream_load_def consumed_def reconnect_def rememberLines_def)
qed

lemma load_reconnects:
  assumes "ls_xhr s = Some rq" and "\<not> rq_ended rq" and "watch_mode o'" and "\<not> ends_finished u"
    and "\<not> ls_stopped s" and "ls_reconnect s = None"
  shows "ls_xhr (stream_step o' s (Load u)) = None" and "ls_last (stream_step o' s (Load u)) = Some (line_count u)"
    and "ls_reconnect (stream_step o' s (Load u)) = Some (ls_now s + 1000)"
    and "ls_now (stream_step o' s (Load u)) = ls_now s" and "\<not> ls_stopped (stream_step o' s (Load u))"
    and "ls_initial (stream_step o' s (Load u)) = ls_initial s"
  using assms by (simp_all add: stream_step_def stream_load_def consumed_def reconnect_def rememberLines_def split_beta)

lemma error_reconnects:
  assumes "ls_xhr s = Some rq" and "watch_mode o'" and "\<not> ls_stopped s" and "ls_reconnect s = None"
  shows "ls_xhr (stream_step o' s (Error r)) = None" and "ls_last (stream_step o' s (Error r)) = Some (line_count r)"
    and "ls_reconnect (stream_step o' s (Error r)) = Some (ls_now s + 1000)"
    and "ls_now (stream_step o' s (Error r)) = ls_now s" and "\<not> ls_stopped (stream_step o' s (Error r))"
    and "ls_initial (stream_step o' s (Error r)) = ls_initial s" and "ls_shown (stream_step o' s (Error r)) = ls_shown s"
  using assms by (simp_all add: stream_step_def stream_error_def reconnect_def rememberLines_def Let_def)

text \<open>The timer opens the stream again, which shows what follows the lines that were counted.\<close>

lemma reopened:
  assumes "ls_xhr s = None" and "ls_last s = Some n" and "ls_reconnect s = Some (ls_now s + 1000)"
    and "\<not> ls_stopped s" and "so_initial o' = [] \<or> ls_initial s" and "1000 \<le> d" and "sorted_wrt prefix (ts @ [t])"
  shows "visible (ls_shown (foldl (stream_step o') s ([Tick d, Reconnect_timer] @ map Progress ts @ [Load t]))) =
    visible (ls_shown s) @ marked_off (drop n (lines_of t))"
proof -
  let ?s = "s\<lparr>ls_now := ls_now s + d, ls_reconnect := None\<rparr>"
  have open_: "stream_step o' (stream_step o' s (Tick d)) Reconnect_timer = openStream o' ?s"
    using assms(1,3,4,6) by (simp add: stream_step_def due_def)
  have "shows_upto (visible (ls_shown s)) n [] (openStream o' ?s)"
    using shows_opened [of ?s o'] assms(2,4,5) by simp
  from shows_progresses [OF this, of ts o'] assms(7)
  have upto: "shows_upto (visible (ls_shown s)) n (last ([] # ts)) (foldl (stream_step o') (openStream o' ?s) (map Progress ts))"
    by (simp add: sorted_wrt_append)
  have "prefix (last ([] # ts)) t" using assms(7) by (simp add: sorted_wrt_append)
  from shows_load [OF upto this, of o'] show ?thesis by (simp add: open_)
qed

text \<open>A response of whole lines, with or without the marker that the script goes on.\<close>

definition goes_on :: "jsstr \<Rightarrow> jsstr \<Rightarrow> bool" where
  "goes_on text t \<longleftrightarrow> text \<noteq> [] \<and> last text \<noteq> newline
     \<and> \<not> ends_finished text \<and> \<not> ends_with (js ''##CONTINUE##'') (trim_end text)
     \<and> t \<in> (\<lambda>e. text @ newline # e) ` {[], js ''##CONTINUE##'', js ''##CONTINUE##'' @ [newline]}"

lemma newline_ws [simp]: "is_ws newline"
  by code_simp

lemma marker_end: "trim_end (s @ js ''##CONTINUE##'') = s @ js ''##CONTINUE##''"
proof -
  have "\<not> is_ws (cu (CHR ''#''))" by code_simp
  then show ?thesis by (simp add: trim_end_def js_Cons)
qed

lemma trim_end_newline [simp]: "trim_end (s @ [newline]) = trim_end s"
  by (simp add: trim_end_def)

lemma ends_with_append [simp]: "ends_with p (s @ p)"
  by (simp add: ends_with_def)

lemma ends_with_eq: "length p = length q \<Longrightarrow> ends_with p (s @ q) \<longleftrightarrow> p = q"
  by (auto simp: ends_with_def)

lemma goes_on_count:
  assumes "goes_on text t"
  shows "\<not> ends_finished t" and "line_count t = length (lines_of text)"
    and "marked_off (lines_of t) = marked_off (lines_of text)" and "text \<noteq> []"
proof -
  let ?m = "js ''##CONTINUE##''"
  obtain e where e: "t = text @ newline # e" "e = [] \<or> e = ?m \<or> e = ?m @ [newline]"
    using assms by (auto simp: goes_on_def simp del: js_Cons)
  have tx: "text \<noteq> []" "last text \<noteq> newline" "\<not> ends_finished text" "\<not> ends_with ?m (trim_end text)"
    using assms by (simp_all add: goes_on_def del: js_Cons)
  have ne: "js ''##FINISHED##'' \<noteq> ?m" by (simp del: js_Cons)
  have trim: "trim_end t = (if e = [] then trim_end text else text @ newline # ?m)"
    using e(2) marker_end [of "text @ [newline]"] trim_end_newline [of "text"]
      trim_end_newline [of "text @ newline # ?m"]
    by (auto simp: e(1) simp del: js_Cons)
  have no: "\<not> ends_with (js ''##FINISHED##'') (text @ newline # ?m)"
    using ends_with_eq [of "js ''##FINISHED##''" ?m "text @ [newline]"] ne by (simp del: js_Cons)
  have m: "ends_with ?m (text @ newline # ?m)"
    using ends_with_append [of ?m "text @ [newline]"] by (simp del: js_Cons)
  show fin: "\<not> ends_finished t" using tx(3) no by (simp add: ends_finished_def trim del: js_Cons)
  have "strip_marker t = (if e = [] then t else take (Suc (length text)) t)"
    using tx(4) fin m by (simp add: strip_marker_def trim del: js_Cons)
  then have strip: "strip_marker t = text @ [newline]" using e(1) by simp
  have "dropWhile (\<lambda>u. u = newline) (rev text) = rev text"
    using tx(1,2) by (simp add: dropWhile_eq_self_iff hd_rev)
  then have "rev (dropWhile (\<lambda>u. u = newline) (rev (strip_marker t))) = text" by (simp add: strip)
  then show "line_count t = length (lines_of text)" using tx(1) by (simp add: line_count_def)
  have rest: "marked_off (lines_of e) = []"
  proof -
    have "newline \<notin> set ?m" by (rule marker_units)
    then have "lines_of ?m = [?m]" "lines_of (?m @ [newline]) = [?m, []]"
      using lines_newline [of ?m "[]"] by (simp_all del: js_Cons)
    moreover have "remove_markers ?m = []"
      by (simp add: remove_markers.simps [of ?m] starts_with_def del: js_Cons)
    ultimately show ?thesis using e(2) by (auto simp: marked_off_def trim_eq_Nil_iff simp del: js_Cons)
  qed
  show "marked_off (lines_of t) = marked_off (lines_of text)" by (simp add: e(1) lines_newline rest)
  show "text \<noteq> []" by (rule tx)
qed

lemma resumed_lines:
  assumes "goes_on text t" and "prefix (text @ [newline]) u" and "k \<le> length (lines_of text)"
  shows "marked_off (drop k (lines_of t)) @ marked_off (drop (length (lines_of text)) (lines_of u)) =
    marked_off (drop k (lines_of u))"
proof -
  obtain v where u: "u = text @ newline # v" using assms(2) by (auto elim: prefixE)
  obtain e where e: "t = text @ newline # e" using assms(1) by (auto simp: goes_on_def simp del: js_Cons)
  have "marked_off (lines_of e) = []"
    using goes_on_count(3) [OF assms(1)] by (simp add: e lines_newline)
  then show ?thesis using assms(3) by (simp add: u e lines_newline)
qed

inductive stream_reachable :: "stream_opts \<Rightarrow> log_stream \<Rightarrow> bool" for o' where
  created: "stream_reachable o' (create_stream o' now)"
| step: "stream_reachable o' s \<Longrightarrow> stream_reachable o' (stream_step o' s e)"

lemma stopped_step:
  "ls_stopped s \<Longrightarrow> ls_xhr s = None \<Longrightarrow>
     ls_stopped (stream_step o' s e) \<and> ls_xhr (stream_step o' s e) = None
     \<and> ls_shown (stream_step o' s e) = ls_shown s \<and> ls_skips (stream_step o' s e) = ls_skips s
     \<and> ls_finished (stream_step o' s e) = ls_finished s"
  by (cases e) (simp_all add: stream_step_def stream_start_def stream_abort_def openStream_def Let_def)

lemma stopped_closed: "stream_reachable o' s \<Longrightarrow> ls_stopped s \<Longrightarrow> ls_xhr s = None"
proof (induction rule: stream_reachable.induct)
  case (created now)
  then show ?case by (simp add: create_stream_def)
next
  case (step s e)
  show ?case
  proof (cases "ls_stopped s")
    case True
    then show ?thesis using stopped_step [of s o' e] step.IH by simp
  next
    case False
    then show ?thesis using step.prems
      by (cases e; cases "ls_xhr s")
        (auto simp: stream_step_def stream_start_def stream_abort_def openStream_def stream_progress_def stream_load_def stream_error_def
          consumed_def finishPermanent_def rememberLines_def reconnect_def Let_def split_beta split: if_splits)
  qed
qed

lemma line_count_Nil: "line_count [] = 0"
  by (simp add: line_count_def strip_marker_def trim_end_def)

section \<open>Properties\<close>

text \<open>C9: however the network cuts a response into pieces, each of its lines behind the skipped ones is
  shown exactly once and in order: the lines that are visible when the response is complete are its
  lines without the markers, but for blank ones.\<close>

theorem lines_shown_once:
  assumes "\<not> ls_stopped s" and "sorted_wrt prefix (ts @ [t])"
  shows "visible (ls_shown (foldl (stream_step o') (openStream o' s) (map Progress ts @ [Load t]))) =
    visible (ls_shown (openStream o' s))
    @ marked_off (drop (case ls_last s of Some n \<Rightarrow> n | None \<Rightarrow> 0) (lines_of t))"
proof -
  have sorted: "sorted_wrt prefix ([] # ts)" "prefix (last ([] # ts)) t"
    using assms(2) by (simp_all add: sorted_wrt_append)
  from shows_load [OF conjunct1 [OF shows_progresses [OF shows_opened(1) [OF assms(1)] sorted(1)]] sorted(2)]
  show ?thesis by simp
qed

text \<open>C12: a watched stream that ends without the final marker goes on where it stopped: when the response
  consisted of whole lines and the next one repeats them, then after the reconnection each line of the
  whole log has been shown exactly once.\<close>

theorem reconnect_resumes:
  assumes "\<not> ls_stopped s" and "ls_reconnect s = None" and "watch_mode o'"
    and "sorted_wrt prefix (ts @ [t])" and "sorted_wrt prefix (us @ [u])"
    and "goes_on text t" and "prefix (text @ [newline]) u"
    and "(case ls_last s of Some n \<Rightarrow> n | None \<Rightarrow> 0) \<le> length (lines_of text)" and "1000 \<le> d"
  shows "visible (ls_shown (foldl (stream_step o') (openStream o' s)
      (map Progress ts @ [Load t, Tick d, Reconnect_timer] @ map Progress us @ [Load u]))) =
    visible (ls_shown (openStream o' s))
    @ marked_off (drop (case ls_last s of Some n \<Rightarrow> n | None \<Rightarrow> 0) (lines_of u))"
proof -
  let ?k = "case ls_last s of Some n \<Rightarrow> n | None \<Rightarrow> 0"
  let ?A = "visible (ls_shown (openStream o' s))"
  let ?s1 = "foldl (stream_step o') (openStream o' s) (map Progress ts)"
  let ?s2 = "stream_step o' ?s1 (Load t)"
  note count = goes_on_count [OF assms(6)]
  have sorted: "sorted_wrt prefix ([] # ts)" "prefix (last ([] # ts)) t"
    using assms(4) by (simp_all add: sorted_wrt_append)
  note open_ = shows_opened [OF assms(1), of o']
  from shows_progresses [OF open_(1) sorted(1), of o'] have p: "shows_upto ?A ?k (last ([] # ts)) ?s1"
    "same_timers (openStream o' s) ?s1" by simp_all
  obtain rq where rq: "ls_xhr ?s1 = Some rq" "\<not> rq_ended rq" using p(1) by (auto simp: shows_upto_def)
  have timers: "\<not> ls_stopped ?s1" "ls_reconnect ?s1 = None" "so_initial o' = [] \<or> ls_initial ?s1"
    using p(2) open_ assms(1,2) by (auto simp: same_timers_def)
  note load = load_reconnects [OF rq assms(3) count(1) timers(1,2)]
  have "visible (ls_shown ?s2) = ?A @ marked_off (drop ?k (lines_of t))" by (rule shows_load [OF p(1) sorted(2)])
  moreover have "visible (ls_shown (foldl (stream_step o') ?s2 ([Tick d, Reconnect_timer] @ map Progress us @ [Load u]))) =
      visible (ls_shown ?s2) @ marked_off (drop (length (lines_of text)) (lines_of u))"
    using load timers(3) assms(5,9) by (intro reopened) (simp_all add: count(2))
  moreover have "marked_off (drop ?k (lines_of t)) @ marked_off (drop (length (lines_of text)) (lines_of u)) =
      marked_off (drop ?k (lines_of u))"
    by (rule resumed_lines [OF assms(6-8)])
  ultimately show ?thesis by (simp del: foldl_Nil)
qed

text \<open>C38: after a network error the response is empty, so the count of the lines that were shown is 0 and
  the reconnection shows every one of them again.\<close>

theorem error_shows_again:
  assumes "\<not> ls_stopped s" and "ls_reconnect s = None" and "watch_mode o'"
    and "sorted_wrt prefix (ts @ [t])" and "sorted_wrt prefix (us @ [u])" and "1000 \<le> d"
  shows "visible (ls_shown (foldl (stream_step o') (openStream o' s)
      (map Progress (ts @ [t]) @ [Error [], Tick d, Reconnect_timer] @ map Progress us @ [Load u]))) =
    visible (ls_shown (openStream o' s))
    @ marked_off (drop (case ls_last s of Some n \<Rightarrow> n | None \<Rightarrow> 0) (butlast (lines_of t)))
    @ marked_off (lines_of u)"
proof -
  let ?k = "case ls_last s of Some n \<Rightarrow> n | None \<Rightarrow> 0"
  let ?A = "visible (ls_shown (openStream o' s))"
  let ?s1 = "foldl (stream_step o') (openStream o' s) (map Progress (ts @ [t]))"
  let ?s2 = "stream_step o' ?s1 (Error [])"
  note open_ = shows_opened [OF assms(1), of o']
  have sorted: "sorted_wrt prefix ([] # ts @ [t])" using assms(4) by simp
  from shows_progresses [OF open_(1) sorted, of o'] have p: "shows_upto ?A ?k t ?s1"
    "same_timers (openStream o' s) ?s1" by simp_all
  obtain rq where rq: "ls_xhr ?s1 = Some rq" using p(1) by (auto simp: shows_upto_def)
  have timers: "\<not> ls_stopped ?s1" "ls_reconnect ?s1 = None" "so_initial o' = [] \<or> ls_initial ?s1"
    using p(2) open_ assms(1,2) by (auto simp: same_timers_def)
  note err = error_reconnects [OF rq assms(3) timers(1,2), of "[]"]
  have "visible (ls_shown ?s2) = ?A @ marked_off (drop ?k (butlast (lines_of t)))"
    using p(1) err(7) by (simp add: shows_upto_def)
  moreover have "visible (ls_shown (foldl (stream_step o') ?s2 ([Tick d, Reconnect_timer] @ map Progress us @ [Load u]))) =
      visible (ls_shown ?s2) @ marked_off (drop 0 (lines_of u))"
    using err timers(3) assms(5,6) by (intro reopened) (simp_all add: line_count_Nil)
  ultimately show ?thesis by simp
qed


section \<open>Inputs to apply them to\<close>

definition demo_opts :: stream_opts where
  "demo_opts = \<lparr>so_url = js ''/log'', so_script = js ''core'', so_skip = None, so_initial = [], so_max_wait = 0,
     so_finish_delay = 0\<rparr>"

lemma demo_watch: "watch_mode demo_opts" "\<not> ls_stopped (create_stream demo_opts 0)"
  "ls_reconnect (create_stream demo_opts 0) = None" "ls_last (create_stream demo_opts 0) = None"
  "ls_shown (openStream demo_opts (create_stream demo_opts 0)) = []"
  by (simp_all add: demo_opts_def watch_mode_def create_stream_def openStream_def Let_def js_Cons)

definition demo_text :: jsstr where
  "demo_text = js ''one'' @ newline # js ''two''"

lemma demo_lines:
  "lines_of demo_text = [js ''one'', js ''two'']" "marked_off [js ''one'', js ''two''] = [js ''one'', js ''two'']"
  "lines_of (demo_text @ newline # js ''three'') = [js ''one'', js ''two'', js ''three'']"
  "marked_off [js ''one'', js ''two'', js ''three''] = [js ''one'', js ''two'', js ''three'']"
  "goes_on demo_text (demo_text @ newline # js ''##CONTINUE##'')"
  unfolding demo_text_def by code_simp+

theorem lines_shown_once_witness:
  "visible (ls_shown (foldl (stream_step demo_opts) (openStream demo_opts (create_stream demo_opts 0))
     [Progress (js ''on''), Load demo_text])) = [js ''one'', js ''two'']"
proof -
  have "sorted_wrt prefix ([js ''on''] @ [demo_text])" unfolding demo_text_def by code_simp
  from lines_shown_once [OF demo_watch(2) this] show ?thesis by (simp add: demo_watch demo_lines)
qed

theorem reconnect_resumes_witness:
  "visible (ls_shown (foldl (stream_step demo_opts) (openStream demo_opts (create_stream demo_opts 0))
     [Load (demo_text @ newline # js ''##CONTINUE##''), Tick 1000, Reconnect_timer, Load (demo_text @ newline # js ''three'')]))
   = [js ''one'', js ''two'', js ''three'']"
proof -
  have "prefix (demo_text @ [newline]) (demo_text @ newline # js ''three'')" by simp
  from reconnect_resumes [OF demo_watch(2,3,1), where ts = "[]" and us = "[]", OF _ _ demo_lines(5) this]
  show ?thesis by (simp add: demo_watch demo_lines del: js_Cons)
qed

theorem error_shows_again_witness:
  "visible (ls_shown (foldl (stream_step demo_opts) (openStream demo_opts (create_stream demo_opts 0))
     [Progress demo_text, Error [], Tick 1000, Reconnect_timer, Load demo_text])) = [js ''one'', js ''one'', js ''two'']"
proof -
  have "marked_off [js ''one''] = [js ''one'']" by code_simp
  with error_shows_again [OF demo_watch(2,3,1), where ts = "[]" and us = "[]" and t = demo_text and u = demo_text and d = 1000]
  show ?thesis by (simp add: demo_watch demo_lines del: js_Cons)
qed


end
