(* ===== verification/TimeRanges.thy ===== *)
theory TimeRanges
  imports JsRegExp JsNumber JsSort
begin

text \<open>
  The time ranges of the rules of \<open>luci-app-timecontrol\<close>, \<open>view/timecontrol/rules.js\<close>: reading a range, the
  test the form makes of a list of them, their order, and the minutes of a day they leave free. A value
  of the configuration is absent, a text or a list. \<open>lc\<close> is \<open>localeCompare\<close> of the browser and \<open>tr\<close> the
  translation.
\<close>

section \<open>Values of the configuration\<close>

datatype uci_value = Missing | Text jsstr | Items "jsstr list"

definition unset :: "uci_value \<Rightarrow> bool" where
  \<comment> \<open>\<open>null\<close>, \<open>undefined\<close> or a text of white space\<close>
  "unset v = (case v of Missing \<Rightarrow> True | Text s \<Rightarrow> trim s = [] | Items _ \<Rightarrow> False)"

definition value_list :: "uci_value \<Rightarrow> jsstr list" where
  \<comment> \<open>\<open>Array.isArray(value) ? value : (value ? [value] : [])\<close>\<close>
  "value_list v = (case v of Missing \<Rightarrow> [] | Text s \<Rightarrow> if s = [] then [] else [s] | Items xs \<Rightarrow> xs)"

function split_ws :: "jsstr \<Rightarrow> jsstr list" where
  \<comment> \<open>\<open>split(/\s+/)\<close>\<close>
  "split_ws s =
     (case dropWhile (\<lambda>u. \<not> is_ws u) s of
        [] \<Rightarrow> [s]
      | _ # t \<Rightarrow> takeWhile (\<lambda>u. \<not> is_ws u) s # split_ws (dropWhile is_ws t))"
  by pat_completeness auto
termination
proof (relation "measure length", simp)
  fix s u t
  assume "dropWhile (\<lambda>u. \<not> is_ws u) s = u # t"
  then have "length t < length s" using length_dropWhile_le [of "\<lambda>u. \<not> is_ws u" s] by simp
  then show "(dropWhile is_ws t, s) \<in> measure length" using length_dropWhile_le [of is_ws t] by simp
qed

declare split_ws.simps [simp del]

definition blacklist :: "uci_value \<Rightarrow> bool" where
  \<comment> \<open>\<open>(controlType || '0') === '0'\<close>\<close>
  "blacklist control \<longleftrightarrow> control \<in> {Missing, Text [], Text (js ''0'')}"

definition whole_week :: "uci_value \<Rightarrow> bool" where
  \<comment> \<open>no week days are chosen, or all seven\<close>
  "whole_week days \<longleftrightarrow>
     unset days \<or> (case days of Text s \<Rightarrow> length (split_ws (trim s)) = 7 | Items ds \<Rightarrow> length ds = 7 | Missing \<Rightarrow> True)"

section \<open>One range\<close>

definition time_match :: "jsstr \<Rightarrow> (jsstr \<times> jsstr \<times> jsstr) option" where
  \<comment> \<open>\<open>time.match(/^(\d\d):(\d\d):(\d\d)$/)\<close>\<close>
  "time_match s =
     (case s of
        [a, b, c, d, e, f, g, h] \<Rightarrow>
          if list_all digit [a, b, d, e, g, h] \<and> c = cu (CHR '':'') \<and> f = cu (CHR '':'')
          then Some ([a, b], [d, e], [g, h]) else None
      | _ \<Rightarrow> None)"

definition parseTime :: "jsstr option \<Rightarrow> nat option" where
  \<comment> \<open>\<open>None\<close> in the argument is \<open>undefined\<close>, in the result \<open>null\<close>\<close>
  "parseTime time =
     (case Option.bind time time_match of
        None \<Rightarrow> None
      | Some (h, m, s) \<Rightarrow>
          let hours = digits_value 10 0 h; minutes = digits_value 10 0 m; seconds = digits_value 10 0 s in
          if 23 < hours \<or> 59 < minutes \<or> 59 < seconds then None
          else Some (hours * 3600 + minutes * 60 + seconds))"

definition getRangeSec :: "jsstr \<Rightarrow> nat option \<times> nat option" where
  "getRangeSec str =
     (let parts = split_on (js ''-'') str in
      (parseTime (Some (hd parts)), parseTime (if 1 < length parts then Some (parts ! 1) else None)))"

definition isValidTimeRange :: "jsstr \<Rightarrow> bool" where
  "isValidTimeRange str = (case getRangeSec str of (Some a, Some b) \<Rightarrow> a < b | _ \<Rightarrow> False)"

definition null_zero :: "nat option \<Rightarrow> nat" where
  \<comment> \<open>\<open>null\<close> counts as 0 in a comparison and in arithmetic\<close>
  "null_zero x = (case x of Some n \<Rightarrow> n | None \<Rightarrow> 0)"

definition range_start :: "jsstr \<Rightarrow> nat" where
  "range_start r = null_zero (fst (getRangeSec r))"

definition range_end :: "jsstr \<Rightarrow> nat" where
  "range_end r = null_zero (snd (getRangeSec r))"

section \<open>The test of the form\<close>

datatype range_verdict = Accepted | Complaint jsstr | Type_error

definition overlaps :: "jsstr \<Rightarrow> jsstr \<Rightarrow> bool" where
  "overlaps v r \<longleftrightarrow> r \<noteq> v \<and> \<not> (range_end v \<le> range_start r \<or> range_end r \<le> range_start v)"

definition invalid_range :: "(string \<Rightarrow> jsstr) \<Rightarrow> jsstr \<Rightarrow> range_verdict" where
  "invalid_range tr v = Complaint (tr ''Invalid time range'' @ js '': '' @ v)"

definition validTimeRange :: "(string \<Rightarrow> jsstr) \<Rightarrow> uci_value \<Rightarrow> uci_value \<Rightarrow> range_verdict" where
  \<comment> \<open>\<open>field\<close> is what \<open>o.formvalue(section_id)\<close> gives; a list has no \<open>split\<close>\<close>
  "validTimeRange tr field v =
     (case v of
        Missing \<Rightarrow> Accepted
      | Items vs \<Rightarrow>
          (case find (\<lambda>x. \<not> isValidTimeRange x) vs of Some x \<Rightarrow> invalid_range tr x | None \<Rightarrow> Type_error)
      | Text x \<Rightarrow>
          if x = [] then Accepted
          else if \<not> isValidTimeRange x then invalid_range tr x
          else
            case find (overlaps x) (value_list field) of
              Some r \<Rightarrow> Complaint (tr ''Time ranges overlap'' @ js '': '' @ x @ js '' --> '' @ r)
            | None \<Rightarrow> Accepted)"

section \<open>Order and free minutes\<close>

definition start_text :: "jsstr \<Rightarrow> jsstr" where
  "start_text r = hd (split_on (js ''-'') r)"

definition sortTimeRanges :: "(jsstr \<Rightarrow> jsstr \<Rightarrow> int) \<Rightarrow> uci_value \<Rightarrow> jsstr list" where
  "sortTimeRanges lc v = sort_cmp (\<lambda>a b. lc (start_text a) (start_text b)) (value_list v)"

definition whole_day :: jsstr where
  "whole_day = js ''00:00:00-23:59:59''"

definition whole_minutes :: "int \<Rightarrow> int" where
  \<comment> \<open>\<open>parseInt(duration / 60, 10)\<close>, towards 0\<close>
  "whole_minutes d = (if d < 0 then - ((- d) div 60) else d div 60)"

definition loop_items :: "uci_value \<Rightarrow> jsstr list" where
  \<comment> \<open>what \<open>for (const r of value)\<close> runs over; a character is given by its code units, none of which is a time\<close>
  "loop_items v = (case v of Missing \<Rightarrow> [] | Text s \<Rightarrow> map (\<lambda>u. [u]) s | Items xs \<Rightarrow> xs)"

definition getAvailableDuration :: "uci_value \<Rightarrow> uci_value \<Rightarrow> uci_value \<Rightarrow> int" where
  "getAvailableDuration control days ranges =
     (if unset ranges then (if blacklist control then 0 else if whole_week days then 1440 else 0)
      else if (case ranges of Items rs \<Rightarrow> whole_day \<in> set rs \<or> rs = [] | _ \<Rightarrow> False) then 0
      else whole_minutes (foldl (\<lambda>d r. d - (int (range_end r) - int (range_start r))) 86400 (loop_items ranges)))"

section \<open>Times of the day\<close>

text \<open>The only text of a second of the day, and the readings of a digit.\<close>

definition clock_text :: "nat \<Rightarrow> jsstr" where
  "clock_text n =
     digit_pair (n div 3600) @ js '':'' @ digit_pair (n div 60 mod 60) @ js '':'' @ digit_pair (n mod 60)"

lemma digit_is_unit: "digit u \<Longrightarrow> \<exists>d<10. u = digit_unit d"
  by (rule exI [of _ "unat u - 48"]) (auto simp: digit_def digit_unit_def)

lemma digits_are_pair: "digit a \<Longrightarrow> digit b \<Longrightarrow> \<exists>k<100. [a, b] = digit_pair k"
proof -
  assume "digit a" "digit b"
  then obtain d e where "d < 10" "e < 10" "a = digit_unit d" "b = digit_unit e" using digit_is_unit by blast
  then have "10 * d + e < 100 \<and> [a, b] = digit_pair (10 * d + e)" by (simp add: digit_pair_def)
  then show ?thesis by blast
qed

lemma digit_digit_unit: "d < 10 \<Longrightarrow> digit (digit_unit d)"
  by (simp add: digit_def unat_digit_unit)

lemma digit_pair_cases: "n < 100 \<Longrightarrow> \<exists>a b. digit_pair n = [a, b] \<and> digit a \<and> digit b"
  using less_mult_imp_div_less [of n 10 10] by (auto simp: digit_pair_def intro!: digit_digit_unit)

lemma time_match_pairs:
  assumes "h < 100" and "m < 100" and "s < 100"
  shows "time_match (digit_pair h @ js '':'' @ digit_pair m @ js '':'' @ digit_pair s)
    = Some (digit_pair h, digit_pair m, digit_pair s)"
proof -
  obtain a b c d e f where "digit_pair h = [a, b]" "digit_pair m = [c, d]" "digit_pair s = [e, f]"
    "digit a" "digit b" "digit c" "digit d" "digit e" "digit f"
    using digit_pair_cases assms by metis
  then show ?thesis by (simp add: time_match_def js_Cons)
qed

lemma time_match_Some:
  assumes "time_match t = Some (x, y, z)"
  shows "\<exists>h<100. \<exists>m<100. \<exists>s<100. x = digit_pair h \<and> y = digit_pair m \<and> z = digit_pair s
    \<and> t = digit_pair h @ js '':'' @ digit_pair m @ js '':'' @ digit_pair s"
proof -
  obtain a b c d e f g i where t: "t = [a, b, c, d, e, f, g, i]"
    "digit a" "digit b" "digit d" "digit e" "digit g" "digit i" "c = cu (CHR '':'')" "f = cu (CHR '':'')"
    "x = [a, b]" "y = [d, e]" "z = [g, i]"
    using assms by (auto simp: time_match_def split: list.splits if_splits)
  obtain h m s where "h < 100" "m < 100" "s < 100" "[a, b] = digit_pair h" "[d, e] = digit_pair m" "[g, i] = digit_pair s"
    using t digits_are_pair by metis
  moreover from this t have "t = digit_pair h @ js '':'' @ digit_pair m @ js '':'' @ digit_pair s"
    by (simp flip: \<open>[a, b] = digit_pair h\<close> \<open>[d, e] = digit_pair m\<close> \<open>[g, i] = digit_pair s\<close> add: js_Cons)
  ultimately show ?thesis using t by metis
qed

lemma parse_pairs:
  assumes "h < 100" and "m < 100" and "s < 100"
  shows "parseTime (Some (digit_pair h @ js '':'' @ digit_pair m @ js '':'' @ digit_pair s)) =
    (if h < 24 \<and> m < 60 \<and> s < 60 then Some (h * 3600 + m * 60 + s) else None)"
  using assms by (auto simp: parseTime_def time_match_pairs digit_pair_value Let_def)

lemma clock_parts: "m < 60 \<Longrightarrow> s < 60 \<Longrightarrow>
   (h * 3600 + m * 60 + s) div 3600 = h \<and> (h * 3600 + m * 60 + s) div 60 mod 60 = m \<and> (h * 3600 + m * 60 + s) mod 60 = s"
  for h m s :: nat
proof -
  assume "m < 60" "s < 60"
  then have "(h * 60 + m) * 60 + s = h * 3600 + m * 60 + s" "((h * 60 + m) * 60 + s) div 60 = h * 60 + m"
    "(h * 60 + m) mod 60 = m" by simp_all
  moreover have "((h * 60 + m) * 60 + s) mod 60 = s" using \<open>s < 60\<close> by (simp only: mod_mult_self3 mod_less)
  moreover have "(h * 3600 + (m * 60 + s)) div 3600 = h" using \<open>m < 60\<close> \<open>s < 60\<close> by (intro div_nat_eqI) simp_all
  ultimately show ?thesis by (metis add.assoc)
qed

lemma parse_clock: "parseTime (Some t) = Some n \<longleftrightarrow> n < 86400 \<and> t = clock_text n"
proof
  assume some: "parseTime (Some t) = Some n"
  then obtain x y z where "time_match t = Some (x, y, z)" by (auto simp: parseTime_def split: option.splits)
  then obtain h m s where hms: "h < 100" "m < 100" "s < 100"
    and t: "t = digit_pair h @ js '':'' @ digit_pair m @ js '':'' @ digit_pair s"
    using time_match_Some by blast
  then have n: "h < 24" "m < 60" "s < 60" "n = h * 3600 + m * 60 + s"
    using some parse_pairs [OF hms] by (auto split: if_splits)
  then show "n < 86400 \<and> t = clock_text n"
    using clock_parts [OF n(2,3), of h] by (simp add: clock_text_def t)
next
  assume n: "n < 86400 \<and> t = clock_text n"
  have small: "n div 3600 < 24" "n div 60 mod 60 < 60" "n mod 60 < 60" using n by (auto simp: less_mult_imp_div_less)
  have "n div 3600 = n div 60 div 60" by (simp add: div_mult2_eq)
  then have "n div 3600 * 3600 + n div 60 mod 60 * 60 + n mod 60 = n"
    using div_mult_mod_eq [of n 60] div_mult_mod_eq [of "n div 60" 60] by linarith
  then show "parseTime (Some t) = Some n"
    using n small parse_pairs [of "n div 3600" "n div 60 mod 60" "n mod 60"] by (simp add: clock_text_def)
qed

section \<open>The seconds of a range\<close>

definition range_secs :: "jsstr \<Rightarrow> nat set" where
  "range_secs r = {range_start r ..< range_end r}"

lemma valid_parts:
  assumes "isValidTimeRange r"
  shows "getRangeSec r = (Some (range_start r), Some (range_end r))" and "range_start r < range_end r"
    and "range_end r < 86400"
proof -
  obtain a b where ab: "getRangeSec r = (Some a, Some b)" "a < b"
    using assms by (auto simp: isValidTimeRange_def split: prod.splits option.splits)
  then show "getRangeSec r = (Some (range_start r), Some (range_end r))" "range_start r < range_end r"
    by (simp_all add: range_start_def range_end_def null_zero_def)
  have "\<exists>t. parseTime (Some t) = Some b"
    using ab(1) by (auto simp: getRangeSec_def Let_def parseTime_def split: if_splits)
  then show "range_end r < 86400"
    using ab(1) parse_clock by (auto simp: range_end_def null_zero_def)
qed

lemma overlaps_secs:
  assumes "isValidTimeRange v" and "isValidTimeRange r"
  shows "overlaps v r \<longleftrightarrow> r \<noteq> v \<and> range_secs v \<inter> range_secs r \<noteq> {}"
  using valid_parts [OF assms(1)] valid_parts [OF assms(2)]
  by (auto simp: overlaps_def range_secs_def ivl_disj_int)

lemma accepted_iff:
  "v \<noteq> [] \<Longrightarrow> validTimeRange tr (Items vs) (Text v) = Accepted \<longleftrightarrow>
     isValidTimeRange v \<and> (\<forall>r\<in>set vs. \<not> overlaps v r)"
  using find_None_iff [of "overlaps v" vs]
  by (cases "find (overlaps v) vs") (auto simp: validTimeRange_def invalid_range_def value_list_def)

lemma duration_sum:
  "foldl (\<lambda>d r. d - (int (range_end r) - int (range_start r))) n rs =
     n - sum_list (map (\<lambda>r. int (range_end r) - int (range_start r)) rs)"
  by (induction rs arbitrary: n) simp_all

definition accepted_list :: "(string \<Rightarrow> jsstr) \<Rightarrow> jsstr list \<Rightarrow> bool" where
  \<comment> \<open>a list of different ranges, each of which the form accepts\<close>
  "accepted_list tr vs \<longleftrightarrow>
     distinct vs \<and> list_all (\<lambda>v. v \<noteq> [] \<and> validTimeRange tr (Items vs) (Text v) = Accepted) vs"

lemma accepted_list_secs:
  assumes "accepted_list tr vs"
  shows "distinct vs" and "\<forall>v\<in>set vs. isValidTimeRange v"
    and "\<forall>v\<in>set vs. \<forall>w\<in>set vs. v \<noteq> w \<longrightarrow> range_secs v \<inter> range_secs w = {}"
proof -
  have acc: "isValidTimeRange v \<and> (\<forall>r\<in>set vs. \<not> overlaps v r)" if "v \<in> set vs" for v
    using assms that accepted_iff [of v tr vs] by (auto simp: accepted_list_def list_all_iff)
  show "distinct vs" using assms by (simp add: accepted_list_def)
  show "\<forall>v\<in>set vs. isValidTimeRange v" using acc by blast
  show "\<forall>v\<in>set vs. \<forall>w\<in>set vs. v \<noteq> w \<longrightarrow> range_secs v \<inter> range_secs w = {}"
    using acc overlaps_secs by metis
qed

lemma length_secs: "isValidTimeRange r \<Longrightarrow> int (card (range_secs r)) = int (range_end r) - int (range_start r)"
  using valid_parts(2) [of r] by (simp add: range_secs_def)

lemma secs_of_day: "isValidTimeRange r \<Longrightarrow> range_secs r \<subseteq> {0..<86400}"
  using valid_parts(3) [of r] by (auto simp: range_secs_def)

lemma free_seconds:
  assumes "accepted_list tr vs"
  shows "86400 - sum_list (map (\<lambda>r. int (range_end r) - int (range_start r)) vs) =
    int (card ({0..<86400} - (\<Union>v\<in>set vs. range_secs v)))"
proof -
  note acc = accepted_list_secs [OF assms]
  let ?U = "\<Union>v\<in>set vs. range_secs v"
  have sub: "?U \<subseteq> {0..<86400}" using acc(2) secs_of_day by blast
  have "card ?U = (\<Sum>v\<in>set vs. card (range_secs v))"
    using acc(3) by (intro card_UN_disjoint) (simp_all add: range_secs_def)
  then have "int (card ?U) = (\<Sum>v\<in>set vs. int (card (range_secs v)))" by simp
  also have "\<dots> = (\<Sum>v\<in>set vs. int (range_end v) - int (range_start v))"
    using acc(2) length_secs by (intro sum.cong) simp_all
  also have "\<dots> = sum_list (map (\<lambda>r. int (range_end r) - int (range_start r)) vs)"
    using acc(1) by (simp add: sum_list_distinct_conv_sum_set)
  finally have U: "int (card ?U) = sum_list (map (\<lambda>r. int (range_end r) - int (range_start r)) vs)" .
  have "card ({0..<86400} - ?U) = 86400 - card ?U" using card_Diff_subset [OF _ sub] by (simp add: range_secs_def)
  moreover have "card ?U \<le> 86400" using card_mono [OF _ sub] by simp
  ultimately show ?thesis using U by linarith
qed

lemma digit_no_dash: "digit u \<Longrightarrow> u \<noteq> cu (CHR ''-'')"
  by (auto simp: digit_cu)

lemma clock_no_dash: "cu (CHR ''-'') \<notin> set (clock_text n)" if "n < 86400"
proof -
  have "n div 3600 < 100" "n div 60 mod 60 < 100" "n mod 60 < 100"
    using that less_mult_imp_div_less [of n 100 3600] by (simp_all add: order_less_le_trans [OF mod_less_divisor [of 60]])
  then have "\<forall>u\<in>set (digit_pair (n div 3600)) \<union> set (digit_pair (n div 60 mod 60)) \<union> set (digit_pair (n mod 60)). digit u"
    using digit_pair_cases by fastforce
  then show ?thesis using digit_no_dash by (auto simp: clock_text_def)
qed

lemma range_of_clocks:
  assumes "a < 86400" and "b < 86400"
  shows "getRangeSec (clock_text a @ cu (CHR ''-'') # clock_text b) = (Some a, Some b)"
  using clock_no_dash assms parse_clock by (simp add: getRangeSec_def js_Cons split_on_found1)

lemma whole_day_secs: "range_secs whole_day = {0..<86399}"
proof -
  have day: "whole_day = clock_text 0 @ cu (CHR ''-'') # clock_text 86399"
    by (simp add: whole_day_def clock_text_def digit_pair_def digit_unit_def js_Cons cu_def)
  have "getRangeSec whole_day = (Some 0, Some 86399)" unfolding day by (rule range_of_clocks) simp_all
  then show ?thesis by (simp add: range_secs_def range_start_def range_end_def null_zero_def)
qed

section \<open>The interface of a list of ranges\<close>

text \<open>Sorting by the start of the ranges: what \<open>localeCompare\<close> must say of two times.\<close>

definition orders_times :: "(jsstr \<Rightarrow> jsstr \<Rightarrow> int) \<Rightarrow> bool" where
  "orders_times lc \<longleftrightarrow> comparison lc \<and>
     (\<forall>a b. time_match a \<noteq> None \<longrightarrow> time_match b \<noteq> None \<longrightarrow> (lc a b \<le> 0 \<longleftrightarrow> str_le a b))"

lemma by_60:
  "x \<le> y \<longleftrightarrow> x div 60 < y div 60 \<or> x div 60 = y div 60 \<and> x mod 60 \<le> y mod 60"
  "x < y \<longleftrightarrow> x div 60 < y div 60 \<or> x div 60 = y div 60 \<and> x mod 60 < y mod 60"
  "x = y \<longleftrightarrow> x div 60 = y div 60 \<and> x mod 60 = y mod 60" for x y :: nat
proof -
  have "x = 60 * (x div 60) + x mod 60" "x mod 60 < 60" "y = 60 * (y div 60) + y mod 60" "y mod 60 < 60" by simp_all
  then show "x \<le> y \<longleftrightarrow> x div 60 < y div 60 \<or> x div 60 = y div 60 \<and> x mod 60 \<le> y mod 60"
    "x < y \<longleftrightarrow> x div 60 < y div 60 \<or> x div 60 = y div 60 \<and> x mod 60 < y mod 60" by linarith+
  show "x = y \<longleftrightarrow> x div 60 = y div 60 \<and> x mod 60 = y mod 60" by (metis div_mult_mod_eq)
qed

lemma clock_text_le:
  assumes "a < 86400" and "b < 86400"
  shows "str_le (clock_text a) (clock_text b) \<longleftrightarrow> a \<le> b"
proof -
  have h: "a div 3600 < 100" "b div 3600 < 100" and m: "a div 60 mod 60 < 100" "b div 60 mod 60 < 100"
    and s: "a mod 60 < 100" "b mod 60 < 100"
    using assms less_mult_imp_div_less [of a 100 3600] less_mult_imp_div_less [of b 100 3600]
    by (simp_all add: order_less_le_trans [OF mod_less_divisor [of 60]])
  have hours: "a div 3600 = a div 60 div 60" "b div 3600 = b div 60 div 60" by (simp_all flip: div_mult2_eq)
  have "str_le (digit_pair (a mod 60)) (digit_pair (b mod 60)) \<longleftrightarrow> a mod 60 \<le> b mod 60"
    using digit_pair_le [OF s, of "[]" "[]"] by auto
  then have "str_le (clock_text a) (clock_text b) \<longleftrightarrow>
      a div 3600 < b div 3600 \<or> a div 3600 = b div 3600 \<and>
      (a div 60 mod 60 < b div 60 mod 60 \<or> a div 60 mod 60 = b div 60 mod 60 \<and> a mod 60 \<le> b mod 60)"
    unfolding clock_text_def by (simp add: digit_pair_le h m js_Cons)
  also have "\<dots> \<longleftrightarrow> a \<le> b"
    unfolding by_60(1) [of a b] by_60(2,3) [of "a div 60" "b div 60"] hours by blast
  finally show ?thesis .
qed

lemma start_clock:
  assumes "isValidTimeRange r"
  shows "start_text r = clock_text (range_start r)" and "range_start r < 86400"
proof -
  have "parseTime (Some (start_text r)) = Some (range_start r)"
    using valid_parts(1) [OF assms] by (simp add: getRangeSec_def start_text_def Let_def)
  then show "start_text r = clock_text (range_start r)" "range_start r < 86400" by (simp_all add: parse_clock)
qed

lemma lc_starts:
  assumes "orders_times lc" and "isValidTimeRange v" and "isValidTimeRange w"
  shows "lc (start_text v) (start_text w) \<le> 0 \<longleftrightarrow> range_start v \<le> range_start w"
proof -
  have "time_match (start_text r) \<noteq> None" if "isValidTimeRange r" for r
    using valid_parts(1) [OF that]
    by (auto simp: getRangeSec_def start_text_def parseTime_def [of "Some _"] Let_def split: option.splits)
  from this [OF assms(2)] this [OF assms(3)] assms(1)
  have "lc (start_text v) (start_text w) \<le> 0 \<longleftrightarrow> str_le (start_text v) (start_text w)"
    unfolding orders_times_def by blast
  also have "\<dots> \<longleftrightarrow> range_start v \<le> range_start w"
    using start_clock [OF assms(2)] start_clock [OF assms(3)] clock_text_le by simp
  finally show ?thesis .
qed

lemma secs_disjoint:
  assumes "isValidTimeRange v" and "isValidTimeRange w" and "range_secs v \<inter> range_secs w = {}"
    and "range_start v \<le> range_start w"
  shows "range_end v \<le> range_start w"
  using assms(3,4) valid_parts(2) [OF assms(1)] valid_parts(2) [OF assms(2)]
  by (auto simp: range_secs_def ivl_disj_int)

section \<open>Properties\<close>

text \<open>\<open>parseTime\<close> reads exactly the texts of the seconds of a day, each as its second.\<close>

lemma parseTime_round_trip: "parseTime (Some t) = Some n \<longleftrightarrow> n < 86400 \<and> t = clock_text n"
  by (rule parse_clock)

text \<open>C30: the form accepts each range of a list, tested against the list, exactly when every range starts
  before it ends and no second of the day is in two different ones.\<close>

theorem accepted_ranges:
  assumes "[] \<notin> set vs"
  shows "(\<forall>v\<in>set vs. validTimeRange tr (Items vs) (Text v) = Accepted) \<longleftrightarrow>
    (\<forall>v\<in>set vs. isValidTimeRange v)
    \<and> (\<forall>v\<in>set vs. \<forall>w\<in>set vs. v \<noteq> w \<longrightarrow> range_secs v \<inter> range_secs w = {})"
proof -
  have "validTimeRange tr (Items vs) (Text v) = Accepted \<longleftrightarrow> isValidTimeRange v \<and> (\<forall>r\<in>set vs. \<not> overlaps v r)"
    if "v \<in> set vs" for v
    using that assms accepted_iff [of v] by blast
  then have "(\<forall>v\<in>set vs. validTimeRange tr (Items vs) (Text v) = Accepted) \<longleftrightarrow>
      (\<forall>v\<in>set vs. isValidTimeRange v \<and> (\<forall>r\<in>set vs. \<not> overlaps v r))"
    by simp
  also have "\<dots> \<longleftrightarrow> (\<forall>v\<in>set vs. isValidTimeRange v)
    \<and> (\<forall>v\<in>set vs. \<forall>w\<in>set vs. isValidTimeRange v \<longrightarrow> isValidTimeRange w \<longrightarrow> \<not> overlaps v w)"
    by blast
  also have "\<dots> \<longleftrightarrow> (\<forall>v\<in>set vs. isValidTimeRange v)
    \<and> (\<forall>v\<in>set vs. \<forall>w\<in>set vs. v \<noteq> w \<longrightarrow> range_secs v \<inter> range_secs w = {})"
    using overlaps_secs by blast
  finally show ?thesis .
qed

text \<open>C26: the available duration of a rule with accepted ranges is the whole minutes of the day that are in
  none of them.\<close>

theorem available_minutes:
  assumes "accepted_list tr vs" and "vs \<noteq> []"
  shows "getAvailableDuration control days (Items vs) =
    int (card ({0..<86400} - (\<Union>v\<in>set vs. range_secs v)) div 60)"
proof (cases "whole_day \<in> set vs")
  case True
  then have "{0..<86400} - (\<Union>v\<in>set vs. range_secs v) \<subseteq> {86399}" using whole_day_secs by auto
  then have "card ({0..<86400} - (\<Union>v\<in>set vs. range_secs v)) \<le> 1" using card_mono [of "{86399 :: nat}"] by fastforce
  then show ?thesis using True by (simp add: getAvailableDuration_def unset_def)
next
  case False
  then show ?thesis using free_seconds [OF assms(1)] assms(2)
    by (simp add: getAvailableDuration_def unset_def loop_items_def duration_sum whole_minutes_def zdiv_int)
qed

text \<open>The ranges are saved in the order of the day: sorted, an accepted list is the same list with each
  range over before the next one starts.\<close>

theorem saved_in_order:
  assumes "orders_times lc" and "accepted_list tr vs"
  shows "mset (sortTimeRanges lc (Items vs)) = mset vs
    \<and> sorted_wrt (\<lambda>v w. range_end v \<le> range_start w) (sortTimeRanges lc (Items vs))"
proof -
  let ?c = "\<lambda>a b. lc (start_text a) (start_text b)"
  have cmp: "comparison ?c" using assms(1) comparison_image by (auto simp: orders_times_def)
  let ?ys = "sortTimeRanges lc (Items vs)"
  note acc = accepted_list_secs [OF assms(2)]
  have mset: "mset ?ys = mset vs" by (simp add: sortTimeRanges_def value_list_def sort_permutes)
  then have ys: "distinct ?ys" "set ?ys = set vs" using acc(1) mset_eq_imp_distinct_iff mset_eq_setD by metis+
  have "sorted_wrt (\<lambda>v w. ?c v w \<le> 0) ?ys"
    unfolding sortTimeRanges_def value_list_def uci_value.case by (rule comparison.sort_sorted [OF cmp])
  then have "range_end (?ys ! i) \<le> range_start (?ys ! j)" if "i < j" "j < length ?ys" for i j
  proof -
    let ?v = "?ys ! i" and ?w = "?ys ! j"
    have in_vs: "?v \<in> set vs" "?w \<in> set vs" using ys(2) that nth_mem [of i ?ys] nth_mem [of j ?ys] by auto
    then have valid: "isValidTimeRange ?v" "isValidTimeRange ?w" using acc(2) by auto
    have "?v \<noteq> ?w" using ys(1) that by (simp add: nth_eq_iff_index_eq)
    then have "range_secs ?v \<inter> range_secs ?w = {}" using acc(3) in_vs by blast
    moreover have "range_start ?v \<le> range_start ?w"
      using \<open>sorted_wrt _ ?ys\<close> that lc_starts [OF assms(1) valid] by (simp add: sorted_wrt_iff_nth_less)
    ultimately show ?thesis using secs_disjoint [OF valid] by blast
  qed
  then show ?thesis using mset by (simp add: sorted_wrt_iff_nth_less)
qed

text \<open>What stands behind a second dash is not looked at, so the form accepts a text that is no range.\<close>

lemma trailing_text_accepted:
  assumes "isValidTimeRange r"
  shows "getRangeSec (r @ cu (CHR ''-'') # x) = getRangeSec r \<and> isValidTimeRange (r @ cu (CHR ''-'') # x)"
proof -
  let ?d = "cu (CHR ''-'')"
  have "1 < length (split_on [?d] r)"
    using valid_parts(1) [OF assms] by (auto simp: getRangeSec_def js_Cons parseTime_def Let_def split: if_splits)
  moreover have "split_on [?d] (r @ ?d # x) = split_on [?d] r @ split_on [?d] x"
  proof (induction "count_list r ?d" arbitrary: r)
    case 0
    then have "?d \<notin> set r" by (simp add: count_list_0_iff)
    then show ?case by (simp add: split_on_found1)
  next
    case (Suc n)
    then have "?d \<in> set r" by (metis count_notin nat.distinct(1))
    then obtain a b where r: "r = a @ ?d # b" "?d \<notin> set a" using split_list_first by metis
    then have "n = count_list b ?d" using Suc(2) by simp
    then have "split_on [?d] (b @ ?d # x) = split_on [?d] b @ split_on [?d] x" by (rule Suc(1))
    then show ?case using r by (simp add: split_on_found1)
  qed
  ultimately have "getRangeSec (r @ ?d # x) = getRangeSec r"
    by (auto simp: getRangeSec_def js_Cons nth_append hd_append Let_def)
  then show ?thesis using assms by (simp add: isValidTimeRange_def)
qed

text \<open>A single range that is stored as a text and not as a list is read character by character: the
  rule is said to leave the whole day.\<close>

lemma single_range_ignored:
  assumes "trim r \<noteq> []"
  shows "getAvailableDuration control days (Text r) = 1440"
proof -
  have "range_end [u] = 0" "range_start [u] = 0" for u
  proof -
    have "getRangeSec [u] = (None, None)"
      by (cases "u = cu (CHR ''-'')")
        (simp_all add: getRangeSec_def js_Cons split_on_found1 [of _ "[]", simplified] parseTime_def time_match_def)
    then show "range_end [u] = 0" "range_start [u] = 0"
      by (simp_all add: range_end_def range_start_def null_zero_def)
  qed
  then show ?thesis using assms
    by (simp add: getAvailableDuration_def unset_def loop_items_def duration_sum whole_minutes_def comp_def
        sum_list_0)
qed

section \<open>Inputs to apply them to\<close>

definition range_of :: "nat \<Rightarrow> nat \<Rightarrow> jsstr" where
  "range_of a b = clock_text a @ cu (CHR ''-'') # clock_text b"

lemma range_of_parts:
  assumes "a < b" and "b < 86400"
  shows "isValidTimeRange (range_of a b)" "range_secs (range_of a b) = {a..<b}" "range_of a b \<noteq> []"
    "range_start (range_of a b) = a" "range_end (range_of a b) = b"
  using range_of_clocks [of a b] assms
  by (simp_all add: range_of_def isValidTimeRange_def range_secs_def range_start_def range_end_def null_zero_def)

definition demo_ranges :: "jsstr list" where
  "demo_ranges = [js ''11:00:00-13:59:59'', js ''00:00:00-10:00:00'']"

lemma demo_ranges_of: "demo_ranges = [range_of 39600 50399, range_of 0 36000]"
  by (simp add: demo_ranges_def range_of_def clock_text_def digit_pair_def digit_unit_def js_Cons cu_def)

lemma demo_ranges_accepted: "accepted_list tr demo_ranges"
proof -
  have "range_of 39600 50399 \<noteq> range_of 0 36000" using range_of_parts(4) [of 39600 50399] range_of_parts(4) [of 0 36000] by fastforce
  then show ?thesis
    by (simp add: demo_ranges_of accepted_list_def accepted_iff overlaps_def range_of_parts)
qed

definition code_unit_order :: "jsstr \<Rightarrow> jsstr \<Rightarrow> int" where
  "code_unit_order a b = (if str_le a b then if str_le b a then 0 else - 1 else 1)"

lemma str_le_linear: "str_le a b \<or> str_le b a"
  by (induction a b rule: str_le.induct) (auto simp: word_unat_eq_iff)

lemma str_le_trans: "str_le a b \<Longrightarrow> str_le b c \<Longrightarrow> str_le a c"
proof (induction a b arbitrary: c rule: str_le.induct)
  case (3 u s v t)
  then show ?case by (cases c) auto
qed simp_all

lemma code_unit_le: "code_unit_order a b \<le> 0 \<longleftrightarrow> str_le a b" "0 \<le> code_unit_order a b \<longleftrightarrow> str_le b a"
  using str_le_linear [of a b] by (auto simp: code_unit_order_def)

interpretation code_units: comparison code_unit_order
  by unfold_locales (auto simp: code_unit_le intro: str_le_trans)

lemma code_unit_order_orders: "orders_times code_unit_order"
  by (simp add: orders_times_def code_unit_le code_units.comparison_axioms)

theorem accepted_ranges_witness:
  "validTimeRange js (Items demo_ranges) (Text (js ''11:00:00-13:59:59'')) = Accepted"
proof -
  have "[] \<notin> set demo_ranges" by (simp add: demo_ranges_def)
  from accepted_ranges [OF this, of js] accepted_list_secs [OF demo_ranges_accepted]
  have "\<forall>v\<in>set demo_ranges. validTimeRange js (Items demo_ranges) (Text v) = Accepted" by blast
  then show ?thesis by (simp add: demo_ranges_def)
qed

theorem available_minutes_witness: "getAvailableDuration Missing Missing (Items demo_ranges) = 660"
proof -
  have "demo_ranges \<noteq> []" by (simp add: demo_ranges_def)
  note available_minutes [OF demo_ranges_accepted this]
  moreover have "(\<Union>v\<in>set demo_ranges. range_secs v) = {39600..<50399} \<union> {0..<36000}"
    by (simp add: demo_ranges_of range_of_parts)
  moreover have "card ({0..<86400} - ({39600..<50399} \<union> {0..<36000 :: nat})) = 86400 - (10799 + 36000)"
    by (subst card_Diff_subset) (auto simp: card_Un_disjoint)
  ultimately show ?thesis by simp
qed

theorem saved_in_order_witness:
  "sorted_wrt (\<lambda>v w. range_end v \<le> range_start w) (sortTimeRanges code_unit_order (Items demo_ranges))"
  using saved_in_order [OF code_unit_order_orders demo_ranges_accepted] by blast

lemma trailing_text_accepted_witness: "isValidTimeRange (js ''00:00:00-10:00:00-noon'')"
proof -
  have "js ''00:00:00-10:00:00-noon'' = range_of 0 36000 @ cu (CHR ''-'') # js ''noon''"
    by (simp add: range_of_def clock_text_def digit_pair_def digit_unit_def js_Cons cu_def)
  then show ?thesis using trailing_text_accepted [of "range_of 0 36000" "js ''noon''"] range_of_parts(1) [of 0 36000] by simp
qed

lemma single_range_ignored_witness: "getAvailableDuration Missing Missing (Text (js ''00:00:00-12:00:00'')) = 1440"
proof (rule single_range_ignored)
  have "\<not> is_ws (cu (CHR ''0''))" by code_simp
  then show "trim (js ''00:00:00-12:00:00'') \<noteq> []" by (subst trim_id) (simp_all add: js_Cons)
qed

end
