(* ===== verification/TimeRules.thy ===== *)
theory TimeRules
  imports TimeRanges TrafficQuota
begin

text \<open>
  The rules page of \<open>luci-app-timecontrol\<close>, \<open>view/timecontrol/rules.js\<close>: the texts of the rule table, the
  choices of the temporary duration, the quick settings that set it on many rules, and the state of the
  firewall chain. The functions of LuCI that build the markup of a cell are not in the repository: a cell
  is the format with its arguments. \<open>ival\<close> is \<open>fwtool.map_invert\<close>, the texts of the items it gives;
  \<open>tr\<close> is the translation, \<open>upper\<close> is \<open>toUpperCase\<close> and \<open>lc\<close> is \<open>localeCompare\<close>.
\<close>

section \<open>Rules and cells\<close>

text \<open>The kind of a temporary control is a text of the configuration or the number the page has set.\<close>

datatype control_value = No_control | Control_text jsstr | Control_number nat

record tc_rule =
  tc_id :: jsstr
  tc_enable :: uci_value
  tc_macs :: uci_value
  tc_ranges :: uci_value
  tc_days :: uci_value
  tc_interface :: uci_value
  tc_control :: control_value
  tc_duration :: uci_value

datatype cell_text =
    Formatted string jsstr
  | Formatted_items string "jsstr list"
  | Coloured string jsstr jsstr

definition item_var :: "jsstr \<Rightarrow> jsstr" where
  "item_var t = js ''<var>'' @ t @ js ''</var>''"

definition formatListWithLineBreaks :: "jsstr list \<Rightarrow> nat \<Rightarrow> jsstr" where
  "formatListWithLineBreaks items itemsPerLine =
     (if length items \<le> itemsPerLine then join (js '', '') (map item_var items)
      else foldl (\<lambda>acc (i, item). acc @ item_var item @
                    (if i = length items - 1 then []
                     else if (i + 1) mod itemsPerLine = 0 then js '', <br>'' else js '', ''))
             [] (enumerate 0 items))"

definition rule_macaddrlist_txt ::
  "(jsstr \<Rightarrow> jsstr) \<Rightarrow> (uci_value \<Rightarrow> jsstr list) \<Rightarrow> (string \<Rightarrow> jsstr) \<Rightarrow> uci_value \<Rightarrow> tc_rule \<Rightarrow> cell_text" where
  "rule_macaddrlist_txt upper ival tr control s =
     (let result = (case tc_macs s of Text t \<Rightarrow> Text (upper t) | Items ts \<Rightarrow> Items (map upper ts) | Missing \<Rightarrow> Missing);
          result = (if unset result then Text (tr (if blacklist control then ''AllClients'' else ''unspecified''))
                    else result)
      in Formatted ''%{macaddrlist}'' (formatListWithLineBreaks (ival result) 1))"

definition rule_timerangelist_txt ::
  "(jsstr \<Rightarrow> jsstr \<Rightarrow> int) \<Rightarrow> (uci_value \<Rightarrow> jsstr list) \<Rightarrow> (string \<Rightarrow> jsstr) \<Rightarrow> uci_value \<Rightarrow> tc_rule \<Rightarrow> cell_text" where
  "rule_timerangelist_txt lc ival tr control s =
     (let result =
        (if unset (tc_ranges s)
         then Text (tr (if blacklist control then ''AnyTime''
                        else if whole_week (tc_days s) then ''unspecified'' else ''AnyTime''))
         else case tc_ranges s of
                Items rs \<Rightarrow> if whole_day \<in> set rs then Text (tr ''AnyTime'') else Items rs
              | v \<Rightarrow> v)
      in Formatted ''%{timerangelist}'' (formatListWithLineBreaks (ival (Items (sortTimeRanges lc result))) 1))"

definition rule_availableDuration_txt ::
  "(uci_value \<Rightarrow> jsstr list) \<Rightarrow> (string \<Rightarrow> jsstr) \<Rightarrow> uci_value \<Rightarrow> tc_rule \<Rightarrow> cell_text" where
  "rule_availableDuration_txt ival tr control s =
     Formatted_items ''duration''
       (ival (Text (int_text (getAvailableDuration control (tc_days s) (tc_ranges s)) @ js '' '' @ tr ''(minutes)'')))"

definition rule_Interface_txt :: "(uci_value \<Rightarrow> jsstr list) \<Rightarrow> (string \<Rightarrow> jsstr) \<Rightarrow> tc_rule \<Rightarrow> cell_text" where
  "rule_Interface_txt ival tr s =
     Formatted_items ''interface''
       (ival (if unset (tc_interface s) then Text (tr ''unspecified'') else tc_interface s))"

definition value_text :: "uci_value \<Rightarrow> jsstr" where
  \<comment> \<open>the text in an addition; \<open>unset\<close> values do not get there\<close>
  "value_text v = (case v of Missing \<Rightarrow> [] | Text s \<Rightarrow> s | Items xs \<Rightarrow> join (js '','') xs)"

definition rule_temporaryDuration_txt :: "(uci_value \<Rightarrow> jsstr list) \<Rightarrow> (string \<Rightarrow> jsstr) \<Rightarrow> tc_rule \<Rightarrow> cell_text" where
  "rule_temporaryDuration_txt ival tr s =
     (let result = (if unset (tc_duration s) then Text (js ''0'') else tc_duration s);
          unblock = (tc_control s = Control_text (js ''0''));
          minutes = value_text result @ js '' '' @ tr ''(minutes)''
      in if result = Text (js ''0'') then Formatted_items ''temporaryDuration'' (ival (Text minutes))
         else Coloured (if unblock then ''#f59e0b'' else ''red'')
                (tr (if unblock then ''Temporary Unblock'' else ''Temporary Block'')) minutes)"

definition week_days :: "string list" where
  "week_days = [''Sunday'', ''Monday'', ''Tuesday'', ''Wednesday'', ''Thursday'', ''Friday'', ''Saturday'']"

definition day_name :: "(string \<Rightarrow> jsstr) \<Rightarrow> jsstr \<Rightarrow> jsstr" where
  \<comment> \<open>\<open>weekMap[day] || day\<close>\<close>
  "day_name tr day =
     (case find (\<lambda>d. js d = day) week_days of Some d \<Rightarrow> if tr d = [] then day else tr d | None \<Rightarrow> day)"

definition rule_weekdays_txt :: "(uci_value \<Rightarrow> jsstr list) \<Rightarrow> (string \<Rightarrow> jsstr) \<Rightarrow> tc_rule \<Rightarrow> cell_text" where
  "rule_weekdays_txt ival tr s =
     (let shown = (\<lambda>days. if length days = 7 then tr ''AnyDay'' else join (js '' '') (map (day_name tr) days));
          result = (if unset (tc_days s) then tr ''AnyDay''
                    else case tc_days s of Text t \<Rightarrow> shown (split_ws (trim t)) | Items ds \<Rightarrow> shown ds | Missing \<Rightarrow> [])
      in Formatted ''%{weekdays}'' (formatListWithLineBreaks (ival (Text result)) 3))"

section \<open>The firewall chain\<close>

text \<open>The answer of \<open>callExec\<close>; a call that failed gives an object without fields. The chain of IPv6 is
  never asked for.\<close>

record exec_result =
  er_code :: "int option"
  er_stdout :: "jsstr option"

record chain_status =
  cs_exists :: bool
  cs_output :: "jsstr option"
  cs_rules :: nat
  cs_table :: string
  cs_type :: string
  cs_command :: string

definition countRules :: "jsstr option \<Rightarrow> nat \<Rightarrow> nat" where
  "countRules output invalidLineCount =
     (case output of
        None \<Rightarrow> 0
      | Some out \<Rightarrow>
          if out = [] then 0
          else length (filter (\<lambda>l. l \<noteq> []) (map trim (split_on [0x0A] out))) - invalidLineCount)"

definition chain_call :: "bool \<Rightarrow> string \<times> string list" where
  \<comment> \<open>the program and its arguments; \<open>fw4\<close> says that the router has nftables\<close>
  "chain_call fw4 =
     (if fw4 then (''/usr/sbin/nft'', [''list'', ''chain'', ''inet'', ''fw4'', ''timecontrol_forward''])
      else (''/usr/sbin/iptables'', [''-t'', ''filter'', ''-nL'', ''timecontrol_forward'']))"

definition checkNftablesChain :: "exec_result \<Rightarrow> chain_status" where
  "checkNftablesChain res =
     \<lparr>cs_exists = (er_code res = Some 0), cs_output = er_stdout res, cs_rules = countRules (er_stdout res) 4, cs_table = ''fw4'',
      cs_type = ''nftables'', cs_command = ''nft list chain fw4 timecontrol_forward''\<rparr>"

definition checkIptablesChain :: "exec_result \<Rightarrow> chain_status" where
  "checkIptablesChain res =
     \<lparr>cs_exists = (er_code res = Some 0), cs_output = er_stdout res, cs_rules = countRules (er_stdout res) 2, cs_table = ''filter'',
      cs_type = ''iptables'', cs_command = ''/usr/sbin/iptables -t filter -nL timecontrol_forward''\<rparr>"

definition checkFirewallChain :: "bool \<Rightarrow> exec_result \<Rightarrow> chain_status" where
  "checkFirewallChain fw4 res = (if fw4 then checkNftablesChain res else checkIptablesChain res)"

record chain_note =
  sl_colour :: string
  sl_text :: jsstr
  sl_href :: string
  sl_rule_colour :: string
  sl_label :: jsstr
  sl_count :: nat

definition chain_line :: "bool \<Rightarrow> (string \<Rightarrow> jsstr) \<Rightarrow> chain_status \<Rightarrow> chain_note" where
  "chain_line fw4 tr res =
     \<lparr>sl_colour = (if cs_exists res then ''#059669'' else ''red''),
      sl_text = tr (if cs_exists res then ''Control Enabled'' else ''Control Disabled''),
      sl_href = (if fw4 then ''/cgi-bin/luci/admin/status/nftables'' else ''/cgi-bin/luci/admin/status/iptables''),
      sl_rule_colour = (if 0 < cs_rules res then ''#059669'' else ''#f59e0b''),
      sl_label = tr ''Control Rules'', sl_count = cs_rules res\<rparr>"

section \<open>The choices of the temporary duration\<close>

text \<open>\<open>keylist\<close> and \<open>vallist\<close> of a form value; LuCI pairs them by position.\<close>

record duration_field =
  df_keys :: "jsstr list"
  df_vals :: "jsstr list"

definition add_choice :: "jsstr \<Rightarrow> jsstr \<Rightarrow> duration_field \<Rightarrow> duration_field" where
  \<comment> \<open>\<open>o.value(key, title)\<close>\<close>
  "add_choice key title f = f\<lparr>df_keys := df_keys f @ [key], df_vals := df_vals f @ [title]\<rparr>"

definition duration_title :: "(string \<Rightarrow> jsstr) \<Rightarrow> jsstr \<Rightarrow> jsstr" where
  "duration_title tr key = key @ js '' '' @ tr ''(minutes)''"

definition addTemporaryDurationOption :: "(string \<Rightarrow> jsstr) \<Rightarrow> nat \<Rightarrow> duration_field" where
  "addTemporaryDurationOption tr startValue =
     foldl (\<lambda>f n. add_choice (nat_text n) (duration_title tr (nat_text n)) f) \<lparr>df_keys = [], df_vals = []\<rparr>
       (map (\<lambda>i. i * 5) [startValue..<6] @ map (\<lambda>i. i * 30) [1..<5] @ map (\<lambda>i. i * 60) [3..<13])"

definition cmp_number :: "jsstr \<Rightarrow> jsstr \<Rightarrow> int" where
  \<comment> \<open>the sign of \<open>Number(a) - Number(b)\<close>; NaN counts as 0\<close>
  "cmp_number a b =
     (case (Number a, Number b) of
        (Some x, Some y) \<Rightarrow> if x < y then - 1 else if x = y then 0 else 1
      | _ \<Rightarrow> 0)"

fun indexOf :: "'a list \<Rightarrow> 'a \<Rightarrow> int" where
  "indexOf [] x = - 1"
| "indexOf (y # ys) x = (if y = x then 0 else let i = indexOf ys x in if i < 0 then i else i + 1)"

definition first_word :: "jsstr \<Rightarrow> jsstr" where
  \<comment> \<open>\<open>a.split(' ')[0]\<close>\<close>
  "first_word a = hd (split_on (js '' '') a)"

definition sortList :: "duration_field \<Rightarrow> duration_field" where
  "sortList f =
     (let keyOrder = sort_cmp cmp_number (df_keys f) in
      f\<lparr>df_keys := keyOrder,
        df_vals := sort_cmp (\<lambda>a b. indexOf keyOrder (first_word a) - indexOf keyOrder (first_word b)) (df_vals f)\<rparr>)"

definition temporary_cfgvalue ::
  "(string \<Rightarrow> jsstr) \<Rightarrow> uci_value \<Rightarrow> duration_field \<Rightarrow> uci_value \<times> duration_field" where
  \<comment> \<open>\<open>Missing\<close> is \<open>null\<close> or \<open>undefined\<close>; the test \<open>value == 0\<close> reads the value as a number\<close>
  "temporary_cfgvalue tr v f =
     (let temporaryDuration = (if v \<noteq> Missing \<and> Number (value_text v) = Some 0 then Missing else v) in
      (temporaryDuration,
       case temporaryDuration of
         Text t \<Rightarrow>
           if t \<notin> set (df_keys f) \<and> trim t \<noteq> [] then sortList (add_choice t (duration_title tr t) f) else f
       | _ \<Rightarrow> f))"

section \<open>The quick settings\<close>

text \<open>The variables \<open>ruleSelectType\<close> and \<open>selectedRules\<close> of the page, the rules of the configuration, the
  warnings shown and the changes saved and applied.\<close>

record quick_state =
  qs_type :: jsstr
  qs_selected :: "jsstr list"
  qs_rules :: "tc_rule list"
  qs_warnings :: nat
  qs_applied :: nat

definition getTargetRules :: "jsstr \<Rightarrow> jsstr list \<Rightarrow> tc_rule list \<Rightarrow> tc_rule list" where
  "getTargetRules ruleSelectType selectedRules sections =
     (if ruleSelectType = js ''0'' then sections
      else if ruleSelectType = js ''1'' then filter (\<lambda>r. tc_enable r = Text (js ''1'')) sections
      else if ruleSelectType = js ''2''
      then filter (\<lambda>r. tc_enable r = Missing \<or> tc_enable r = Text (js ''0'')) sections
      else filter (\<lambda>r. tc_id r \<in> set selectedRules) sections)"

definition uci_set :: "jsstr \<Rightarrow> (tc_rule \<Rightarrow> tc_rule) \<Rightarrow> tc_rule list \<Rightarrow> tc_rule list" where
  \<comment> \<open>a write to the section with a name\<close>
  "uci_set sectionId write = map (\<lambda>r. if tc_id r = sectionId then write r else r)"

definition setTemporaryDurationOption :: "tc_rule list \<Rightarrow> nat \<Rightarrow> jsstr \<Rightarrow> quick_state \<Rightarrow> quick_state" where
  "setTemporaryDurationOption targetRules controlType v q =
     (if targetRules = [] then q\<lparr>qs_warnings := Suc (qs_warnings q)\<rparr>
      else q\<lparr>qs_rules :=
               foldl (\<lambda>rs e. uci_set (tc_id e) (\<lambda>r. r\<lparr>tc_duration := Text v\<rparr>)
                               (uci_set (tc_id e) (\<lambda>r. r\<lparr>tc_control := Control_number controlType\<rparr>) rs))
                 (qs_rules q) targetRules,
             qs_applied := Suc (qs_applied q)\<rparr>)"

datatype quick_event = Choose_type jsstr | Choose_rules "jsstr list" | Block jsstr | Unblock jsstr

definition quick_step :: "quick_state \<Rightarrow> quick_event \<Rightarrow> quick_state" where
  "quick_step q e =
     (let targetRules = getTargetRules (qs_type q) (qs_selected q) (qs_rules q) in
      case e of
        Choose_type t \<Rightarrow> q\<lparr>qs_type := t\<rparr>
      | Choose_rules ids \<Rightarrow> q\<lparr>qs_selected := ids\<rparr>
      | Block v \<Rightarrow> setTemporaryDurationOption targetRules 1 v q
      | Unblock v \<Rightarrow> setTemporaryDurationOption targetRules 0 v q)"

section \<open>Lists in lines\<close>

text \<open>The items in lines of a given length: \<open>chunks\<close> cuts a list, and the text joins the lines.\<close>

function chunks :: "nat \<Rightarrow> 'a list \<Rightarrow> 'a list list" where
  "chunks n xs = (if length xs \<le> n \<or> n = 0 then [xs] else take n xs # chunks n (drop n xs))"
  by pat_completeness auto
termination
  by (relation "measure (\<lambda>(n, xs). length xs)") auto

declare chunks.simps [simp del]

lemma chunks_short: "length xs \<le> n \<Longrightarrow> chunks n xs = [xs]"
  by (simp add: chunks.simps)

lemma chunks_long: "0 < n \<Longrightarrow> n < length xs \<Longrightarrow> chunks n xs = take n xs # chunks n (drop n xs)"
  by (simp add: chunks.simps [of n xs])

lemma chunks_not_Nil [simp]: "chunks n xs \<noteq> []"
  by (simp add: chunks.simps)

definition rows_text :: "jsstr \<Rightarrow> jsstr \<Rightarrow> nat \<Rightarrow> jsstr list \<Rightarrow> jsstr" where
  "rows_text s1 s2 n vs = join s2 (map (join s1) (chunks n vs))"

definition rest_of_rows :: "jsstr \<Rightarrow> jsstr \<Rightarrow> nat \<Rightarrow> nat \<Rightarrow> jsstr list \<Rightarrow> jsstr" where
  \<comment> \<open>the rest of the text when the current line has room for \<open>r\<close> items\<close>
  "rest_of_rows s1 s2 n r vs =
     (if length vs \<le> r then join s1 vs else join s1 (take r vs) @ s2 @ rows_text s1 s2 n (drop r vs))"

lemma rest_rows: "0 < n \<Longrightarrow> rest_of_rows s1 s2 n n vs = rows_text s1 s2 n vs"
  by (simp add: rest_of_rows_def rows_text_def chunks_short chunks_long join_Cons)

definition separator_after :: "jsstr \<Rightarrow> jsstr \<Rightarrow> nat \<Rightarrow> nat \<Rightarrow> nat \<Rightarrow> jsstr" where
  "separator_after s1 s2 n l i = (if i = l - 1 then [] else if (i + 1) mod n = 0 then s2 else s1)"

lemma rest_step:
  assumes "0 < r" and "vs \<noteq> []" and "0 < n"
  shows "rest_of_rows s1 s2 n r (v # vs) =
    v @ (if r = 1 then s2 @ rest_of_rows s1 s2 n n vs else s1 @ rest_of_rows s1 s2 n (r - 1) vs)"
proof (cases "r = 1")
  case True
  then show ?thesis using assms by (simp add: rest_rows) (simp add: rest_of_rows_def)
next
  case False
  then obtain r' where r: "r = Suc r'" "r' \<noteq> 0" using assms(1) by (cases r) auto
  then show ?thesis using assms(2) by (simp add: rest_of_rows_def join_Cons)
qed

lemma mod_room:
  fixes k n r :: nat
  assumes "0 < r" and "r \<le> n" and "k mod n = n - r"
  shows "(k + 1) mod n = (if r = 1 then 0 else n - (r - 1))"
proof (cases "r = 1")
  case True
  then have "Suc (k mod n) = n" using assms by simp
  then show ?thesis using True by (simp add: mod_Suc)
next
  case False
  then have "Suc (n - r) = n - (r - 1)" "n - (r - 1) \<noteq> n" using assms(1,2) by linarith+
  then show ?thesis using False assms(3) by (simp add: mod_Suc)
qed

lemma fold_rows:
  "0 < r \<Longrightarrow> r \<le> n \<Longrightarrow> k mod n = n - r \<or> (r = n \<and> k mod n = 0) \<Longrightarrow> k + length vs = l \<Longrightarrow>
     foldl (\<lambda>acc (i, v). acc @ f v @ separator_after s1 s2 n l i) acc (enumerate k vs) =
     acc @ rest_of_rows s1 s2 n r (map f vs)"
proof (induction vs arbitrary: k r acc)
  case Nil
  then show ?case by (simp add: rest_of_rows_def)
next
  case (Cons v vs)
  show ?case
  proof (cases "vs = []")
    case True
    then show ?thesis using Cons.prems(1,4) by (auto simp: rest_of_rows_def separator_after_def)
  next
    case False
    have k: "k mod n = n - r" using Cons.prems(3) by auto
    have sep: "separator_after s1 s2 n l k = (if r = 1 then s2 else s1)"
      using False Cons.prems mod_room [OF Cons.prems(1,2) k] by (auto simp: separator_after_def)
    let ?r = "if r = 1 then n else r - 1"
    have "Suc k mod n = n - ?r \<or> ?r = n \<and> Suc k mod n = 0" "0 < ?r" "?r \<le> n"
      using mod_room [OF Cons.prems(1,2) k] Cons.prems(1,2) by auto
    note Cons.IH [OF this(2,3,1), of "acc @ f v @ separator_after s1 s2 n l k"]
    then show ?thesis using Cons.prems(1,2,4) False by (simp add: sep rest_step)
  qed
qed

section \<open>Sorting the choices\<close>

lemma indexOf_nth: "i < length ks \<Longrightarrow> distinct ks \<Longrightarrow> indexOf ks (ks ! i) = int i"
proof (induction ks arbitrary: i)
  case (Cons k ks)
  then show ?case by (cases i) (auto simp: Let_def)
qed simp

lemma indexOf_inj:
  assumes "distinct ks" and "a \<in> set ks" and "b \<in> set ks" and "indexOf ks a = indexOf ks b"
  shows "a = b"
  using assms indexOf_nth by (metis in_set_conv_nth of_nat_eq_iff)

lemma sort_by_index:
  assumes "distinct ks" and "mset xs = mset ks"
  shows "sort_cmp (\<lambda>a b. indexOf ks a - indexOf ks b) xs = ks"
proof -
  let ?c = "\<lambda>a b. indexOf ks a - indexOf ks b"
  let ?ys = "sort_cmp ?c xs"
  have cmp: "comparison ?c" by (rule comparison_key)
  have mset: "mset ?ys = mset ks" using assms(2) by (simp add: sort_permutes)
  then have set: "set ?ys = set ks" "distinct ?ys" using assms(1) mset_eq_setD mset_eq_imp_distinct_iff by metis+
  have inj: "inj_on (indexOf ks) (set ks)" using indexOf_inj [OF assms(1)] by (auto intro: inj_onI)
  have "sorted (map (indexOf ks) ?ys)"
    using comparison.sort_sorted [OF cmp, of xs] by (simp add: sorted_map)
  moreover have "sorted (map (indexOf ks) ks)"
    using indexOf_nth [OF _ assms(1)] by (auto simp: sorted_map sorted_wrt_iff_nth_less)
  moreover have "mset (map (indexOf ks) ?ys) = mset (map (indexOf ks) ks)" using mset by simp
  ultimately have "map (indexOf ks) ?ys = map (indexOf ks) ks"
    by (metis properties_for_sort sort_key_id_if_sorted)
  then show ?thesis using inj set(1) by (metis Un_absorb map_inj_on)
qed

definition paired :: "(string \<Rightarrow> jsstr) \<Rightarrow> duration_field \<Rightarrow> bool" where
  \<comment> \<open>the choices are different and each stands beside its own text\<close>
  "paired tr f \<longleftrightarrow>
     distinct (df_keys f) \<and> df_vals f = map (duration_title tr) (df_keys f)
     \<and> (\<forall>k\<in>set (df_keys f). cu (CHR '' '') \<notin> set k)"

lemma first_word_title: "cu (CHR '' '') \<notin> set k \<Longrightarrow> first_word (duration_title tr k) = k"
  by (simp add: first_word_def duration_title_def js_Cons split_on_found1)

lemma sortList_paired:
  assumes "paired tr f"
  shows "paired tr (sortList f) \<and> df_keys (sortList f) = sort_cmp cmp_number (df_keys f)"
proof -
  let ?ks = "sort_cmp cmp_number (df_keys f)"
  have ks: "distinct ?ks" "mset (df_keys f) = mset ?ks"
    using assms sort_permutes [of cmp_number "df_keys f"] mset_eq_imp_distinct_iff by (auto simp: paired_def)
  have "sort_cmp (\<lambda>a b. indexOf ?ks (first_word a) - indexOf ?ks (first_word b)) (df_vals f) =
      map (duration_title tr) (sort_cmp (\<lambda>a b. indexOf ?ks (first_word (duration_title tr a))
        - indexOf ?ks (first_word (duration_title tr b))) (df_keys f))"
    using assms by (simp add: paired_def sort_cmp_map)
  also have "sort_cmp (\<lambda>a b. indexOf ?ks (first_word (duration_title tr a))
        - indexOf ?ks (first_word (duration_title tr b))) (df_keys f) = sort_cmp (\<lambda>a b. indexOf ?ks a - indexOf ?ks b) (df_keys f)"
  proof (rule sort_cmp_cong)
    have "first_word (duration_title tr a) = a" if "a \<in> set (df_keys f)" for a
      using that assms first_word_title by (auto simp: paired_def)
    then show "sorted_wrt (\<lambda>x y. (indexOf ?ks (first_word (duration_title tr x)) - indexOf ?ks (first_word (duration_title tr y)) \<le> 0)
        = (indexOf ?ks x - indexOf ?ks y \<le> 0)) (df_keys f)"
      by (simp add: sorted_wrt_iff_nth_less)
  qed
  also have "\<dots> = ?ks" by (rule sort_by_index [OF ks])
  finally show ?thesis using assms ks(1) by (auto simp: paired_def sortList_def Let_def)
qed

lemma add_choice_paired:
  assumes "paired tr f" and "k \<notin> set (df_keys f)" and "cu (CHR '' '') \<notin> set k"
  shows "paired tr (add_choice k (duration_title tr k) f)"
  using assms by (auto simp: paired_def add_choice_def)

lemma nat_text_inj: "nat_text a = nat_text b \<longleftrightarrow> a = b"
  by (metis digits_value_nat_text)

lemma nat_text_no_space: "cu (CHR '' '') \<notin> set (nat_text n)"
  using nat_text_digit [of "cu (CHR '' '')" n] by (auto simp: digit_cu)

lemma added_choices:
  "foldl (\<lambda>f n. add_choice (nat_text n) (duration_title tr (nat_text n)) f) f ns =
     f\<lparr>df_keys := df_keys f @ map nat_text ns, df_vals := df_vals f @ map (duration_title tr) (map nat_text ns)\<rparr>"
  by (induction ns arbitrary: f) (simp_all add: add_choice_def)

definition base_minutes :: "nat list" where
  "base_minutes = [5, 10, 15, 20, 25, 30, 60, 90, 120, 180, 240, 300, 360, 420, 480, 540, 600, 660, 720]"

lemma duration_choices:
  "df_keys (addTemporaryDurationOption tr 1) = map nat_text base_minutes"
  "df_keys (addTemporaryDurationOption tr 0) = map nat_text (0 # base_minutes)"
  "df_vals (addTemporaryDurationOption tr m) = map (duration_title tr) (df_keys (addTemporaryDurationOption tr m))"
  by (simp_all add: addTemporaryDurationOption_def added_choices base_minutes_def upt_rec)

lemma choices_paired: "paired tr (addTemporaryDurationOption tr 1)"
proof -
  have "distinct base_minutes" by (simp add: base_minutes_def)
  then have "distinct (map nat_text base_minutes)" by (simp add: distinct_map inj_on_def nat_text_inj)
  then show ?thesis using nat_text_no_space unfolding paired_def duration_choices by auto
qed

definition order_rat :: "rat \<Rightarrow> rat \<Rightarrow> int" where
  "order_rat x y = (if x < y then - 1 else if x = y then 0 else 1)"

interpretation number_order: comparison order_rat
  by unfold_locales (auto simp: order_rat_def split: if_splits)

lemma cmp_number_texts:
  "a < 2 ^ 53 \<Longrightarrow> b < 2 ^ 53 \<Longrightarrow> cmp_number (nat_text a) (nat_text b) = order_rat (of_nat a) (of_nat b)"
  by (simp add: cmp_number_def order_rat_def Number_nat_text)

lemma sorted_numbers:
  assumes "\<forall>n\<in>set ns. n < 2 ^ 53"
  shows "sort_cmp cmp_number (map nat_text ns) = map nat_text (sort ns)"
proof -
  let ?c = "\<lambda>a b. order_rat (of_nat a) (of_nat b)"
  have "sort_cmp cmp_number (map nat_text ns) = map nat_text (sort_cmp (\<lambda>a b. cmp_number (nat_text a) (nat_text b)) ns)"
    by (rule sort_cmp_map)
  also have "sort_cmp (\<lambda>a b. cmp_number (nat_text a) (nat_text b)) ns = sort_cmp ?c ns"
    using assms by (intro sort_cmp_cong) (simp add: sorted_wrt_iff_nth_less cmp_number_texts)
  also have "sort_cmp ?c ns = sort ns"
  proof (rule properties_for_sort [symmetric])
    show "mset (sort_cmp ?c ns) = mset ns" by (rule sort_permutes)
    have "?c a b \<le> 0 \<longleftrightarrow> a \<le> b" for a b :: nat by (simp add: order_rat_def)
    then show "sorted (sort_cmp ?c ns)"
      using comparison.sort_sorted [OF comparison_image [OF number_order.comparison_axioms], of "of_nat :: nat \<Rightarrow> rat" ns]
      by simp
  qed
  finally show ?thesis .
qed

section \<open>Writing to many rules\<close>

definition set_temporary :: "nat \<Rightarrow> jsstr \<Rightarrow> tc_rule \<Rightarrow> tc_rule" where
  "set_temporary kind v r = r\<lparr>tc_control := Control_number kind, tc_duration := Text v\<rparr>"

lemma written_rules:
  "foldl (\<lambda>rs e. uci_set (tc_id e) (\<lambda>r. r\<lparr>tc_duration := Text v\<rparr>)
       (uci_set (tc_id e) (\<lambda>r. r\<lparr>tc_control := Control_number kind\<rparr>) rs)) rs es =
     map (\<lambda>r. if tc_id r \<in> tc_id ` set es then set_temporary kind v r else r) rs"
proof (induction es arbitrary: rs)
  case (Cons e es)
  have "uci_set (tc_id e) (\<lambda>r. r\<lparr>tc_duration := Text v\<rparr>) (uci_set (tc_id e) (\<lambda>r. r\<lparr>tc_control := Control_number kind\<rparr>) rs)
      = map (\<lambda>r. if tc_id r = tc_id e then set_temporary kind v r else r) rs"
    by (simp add: uci_set_def set_temporary_def)
  then show ?case using Cons by (simp add: set_temporary_def)
qed simp

lemma targets_subset: "set (getTargetRules t ids rs) \<subseteq> set rs"
  by (auto simp: getTargetRules_def)

lemma written_targets:
  assumes "distinct (map tc_id rs)" and "set es \<subseteq> set rs"
  shows "map (\<lambda>r. if tc_id r \<in> tc_id ` set es then set_temporary kind v r else r) rs =
    map (\<lambda>r. if r \<in> set es then set_temporary kind v r else r) rs"
proof (rule map_cong [OF refl])
  fix r
  assume "r \<in> set rs"
  then have "tc_id r \<in> tc_id ` set es \<longleftrightarrow> r \<in> set es" using assms by (auto simp: distinct_map inj_on_def)
  then show "(if tc_id r \<in> tc_id ` set es then set_temporary kind v r else r) = (if r \<in> set es then set_temporary kind v r else r)"
    by simp
qed

section \<open>Properties\<close>

text \<open>The items of a cell are written in lines of the given length: items of a line are separated by a
  comma, lines by a comma and a line break, and nothing follows the last item.\<close>

lemma items_in_lines:
  assumes "0 < n"
  shows "formatListWithLineBreaks items n = rows_text (js '', '') (js '', <br>'') n (map item_var items)"
proof (cases "length items \<le> n")
  case True
  then show ?thesis by (simp add: formatListWithLineBreaks_def rows_text_def chunks_short)
next
  case False
  then show ?thesis
    using fold_rows [of n n 0 items "length items" item_var "js '', ''" "js '', <br>''" "[]"] assms
    by (simp add: formatListWithLineBreaks_def rest_rows separator_after_def)
qed

text \<open>A stored temporary duration of whole minutes is offered by the field: it is the value, it is one of
  the choices, the choices are different numbers in ascending order, and each stands beside its own text.\<close>

theorem current_duration_offered:
  assumes "0 < n" and "n < 2 ^ 53"
  shows "fst (temporary_cfgvalue tr (Text (nat_text n)) (addTemporaryDurationOption tr 1)) = Text (nat_text n)
    \<and> df_keys (snd (temporary_cfgvalue tr (Text (nat_text n)) (addTemporaryDurationOption tr 1))) =
        map nat_text (sorted_list_of_set (insert n (set base_minutes)))
    \<and> paired tr (snd (temporary_cfgvalue tr (Text (nat_text n)) (addTemporaryDurationOption tr 1)))"
proof -
  define f where "f = addTemporaryDurationOption tr 1"
  have f: "paired tr f" "df_keys f = map nat_text base_minutes"
    using choices_paired duration_choices(1) by (simp_all add: f_def)
  have val: "Number (nat_text n) = Some (of_nat n)" using assms(2) by (rule Number_nat_text)
  have no_ws: "trim (nat_text n) \<noteq> []"
  proof -
    have "\<forall>u\<in>set (nat_text n). \<not> is_ws u" using nat_text_digit digit_plain [of "CHR ''x''"] by auto
    then show ?thesis using trim_no_ws by simp
  qed
  have base: "distinct base_minutes" "sorted base_minutes" "\<forall>m\<in>set base_minutes. m < 2 ^ 53"
    by (simp_all add: base_minutes_def)
  let ?r = "temporary_cfgvalue tr (Text (nat_text n)) f"
  let ?all = "sorted_list_of_set (insert n (set base_minutes))"
  have "fst ?r = Text (nat_text n) \<and> df_keys (snd ?r) = map nat_text ?all \<and> paired tr (snd ?r)"
  proof (cases "n \<in> set base_minutes")
    case True
    then have "?all = base_minutes" using base by (simp only: insert_absorb sorted_list_of_set.idem_if_sorted_distinct)
    moreover have "nat_text n \<in> set (df_keys f)" using True f(2) by simp
    ultimately show ?thesis using f val assms(1) by (simp add: temporary_cfgvalue_def value_text_def)
  next
    case False
    then have new: "nat_text n \<notin> set (df_keys f)" using f(2) nat_text_inj by auto
    let ?g = "add_choice (nat_text n) (duration_title tr (nat_text n)) f"
    have g: "paired tr ?g" "df_keys ?g = map nat_text (base_minutes @ [n])"
      using add_choice_paired [OF f(1) new nat_text_no_space] f(2) by (simp_all add: add_choice_def)
    have "sort (base_minutes @ [n]) = ?all"
    proof (rule properties_for_sort [OF _ sorted_sorted_list_of_set])
      have "distinct (base_minutes @ [n])" using base(1) False by simp
      from mset_set_set [OF this] have "mset_set (insert n (set base_minutes)) = mset (base_minutes @ [n])" by simp
      then show "mset ?all = mset (base_minutes @ [n])"
        by (simp only: sorted_list_of_mset_set [symmetric] mset_sorted_list_of_multiset)
    qed
    then have "df_keys (sortList ?g) = map nat_text ?all"
      using sortList_paired [OF g(1)] g(2) sorted_numbers [of "base_minutes @ [n]"] base(3) assms(2) by simp
    then show ?thesis
      using sortList_paired [OF g(1)] new no_ws val assms(1) by (simp add: temporary_cfgvalue_def value_text_def)
  qed
  then show ?thesis unfolding f_def .
qed


text \<open>Rules that are enabled, disabled or have no such option are divided by the choices of enabled and
  of disabled rules: together they are all rules, and they share none.\<close>

lemma target_kinds_divide:
  assumes "\<forall>r\<in>set rs. tc_enable r \<in> {Missing, Text (js ''0''), Text (js ''1'')}"
  shows "mset (getTargetRules (js ''1'') ids rs) + mset (getTargetRules (js ''2'') ids rs) =
      mset (getTargetRules (js ''0'') ids rs)
    \<and> set (getTargetRules (js ''1'') ids rs) \<inter> set (getTargetRules (js ''2'') ids rs) = {}"
proof -
  have "filter (\<lambda>r. tc_enable r = Missing \<or> tc_enable r = Text (js ''0'')) rs = filter (\<lambda>r. tc_enable r \<noteq> Text (js ''1'')) rs"
    using assms by (intro filter_cong) auto
  then show ?thesis using multiset_partition [of "mset rs" "\<lambda>r. tc_enable r = Text (js ''1'')"]
    by (auto simp: getTargetRules_def mset_filter)
qed

text \<open>A rule that was just unblocked from the quick settings is shown as blocked until the page is loaded
  again: the page sets the number 0 and the cell looks for the text; a rule without the option, which the
  service unblocks, is shown as blocked too.\<close>

lemma unblock_shown_as_block:
  assumes "tc_control r \<in> {No_control, Control_number 0}" and "\<not> unset (tc_duration r)"
    and "tc_duration r \<noteq> Text (js ''0'')"
  shows "rule_temporaryDuration_txt ival tr r =
    Coloured ''red'' (tr ''Temporary Block'') (value_text (tc_duration r) @ js '' '' @ tr ''(minutes)'')"
  using assms by (auto simp: rule_temporaryDuration_txt_def Let_def)

section \<open>Inputs to apply them to\<close>

definition demo_tc_rule :: "string \<Rightarrow> string \<Rightarrow> tc_rule" where
  "demo_tc_rule name enabled =
     \<lparr>tc_id = js name, tc_enable = Text (js enabled), tc_macs = Missing, tc_ranges = Missing, tc_days = Missing,
      tc_interface = Missing, tc_control = No_control, tc_duration = Missing\<rparr>"

definition demo_quick :: quick_state where
  "demo_quick = \<lparr>qs_type = js ''1'', qs_selected = [], qs_rules = [demo_tc_rule ''a'' ''1'', demo_tc_rule ''b'' ''0''],
     qs_warnings = 0, qs_applied = 0\<rparr>"

lemma items_in_lines_witness:
  "formatListWithLineBreaks [js ''a'', js ''b'', js ''c''] 2 =
     js ''<var>a</var>, <var>b</var>, <br><var>c</var>''"
  by (subst items_in_lines) (simp_all add: rows_text_def chunks_short chunks_long item_var_def js_append [symmetric])

theorem current_duration_offered_witness:
  "df_keys (snd (temporary_cfgvalue js (Text (nat_text 17)) (addTemporaryDurationOption js 1))) =
     map nat_text (sorted_list_of_set (insert 17 (set base_minutes)))"
  using current_duration_offered [of 17 js] by simp


lemma target_kinds_divide_witness:
  "mset (getTargetRules (js ''1'') [] (qs_rules demo_quick)) + mset (getTargetRules (js ''2'') [] (qs_rules demo_quick)) =
     mset (qs_rules demo_quick)"
proof -
  have "tc_enable (demo_tc_rule ''a'' ''1'') = Text (js ''1'')" "tc_enable (demo_tc_rule ''b'' ''0'') = Text (js ''0'')"
    by (simp_all add: demo_tc_rule_def)
  then show ?thesis using target_kinds_divide [of "qs_rules demo_quick" "[]"]
    by (simp add: demo_quick_def getTargetRules_def)
qed

lemma unblock_shown_as_block_witness:
  "rule_temporaryDuration_txt value_list js (set_temporary 0 (js ''30'') (demo_tc_rule ''a'' ''1'')) =
     Coloured ''red'' (js ''Temporary Block'') (js ''30 (minutes)'')"
proof -
  have "\<not> is_ws (cu (CHR ''3''))" "\<not> is_ws (cu (CHR ''0''))" by code_simp+
  then have "\<not> unset (Text (js ''30''))" by (simp add: unset_def trim_id js_Cons)
  then show ?thesis
    by (subst unblock_shown_as_block) (simp_all add: set_temporary_def value_text_def js_append [symmetric])
qed

end
