(* ===== verification/GeoLookup.thy ===== *)
theory GeoLookup
  imports JsNumber JsObject
begin

text \<open>
  The location database of Bandix, \<open>bandix/geoip.js\<close>: the text of a location, and the form that shows the
  state of the database and starts its downloads. A call to the router is pending until it is answered; the
  answers come in any order, between them the user clicks and the poll timer fires. Absent numbers of
  the service are 0 and absent texts are empty, where the source cannot tell them apart. The translation,
  the language, the names of countries and the texts of dates are parameters.
\<close>

section \<open>Texts\<close>

record geo_env =
  ge_tr :: "jsstr \<Rightarrow> jsstr"
  ge_language :: jsstr
  ge_region :: "jsstr \<Rightarrow> jsstr option"
  ge_date :: "nat \<Rightarrow> jsstr"

definition tr_text :: "geo_env \<Rightarrow> string \<Rightarrow> jsstr" where
  "tr_text e s = ge_tr e (js s)"

definition tr_dots :: "geo_env \<Rightarrow> string \<Rightarrow> jsstr" where
  \<comment> \<open>a key that ends with an ellipsis\<close>
  "tr_dots e s = ge_tr e (js s @ [0x2026])"

definition geo_dot :: jsstr where
  "geo_dot = [cu (CHR '' ''), 0xB7, cu (CHR '' '')]"

definition one_decimal :: "nat \<Rightarrow> nat \<Rightarrow> jsstr" where
  \<comment> \<open>\<open>(a / b).toFixed(1)\<close> for a power of two, where the quotient is exact; halves go up\<close>
  "one_decimal a b =
     (let n = nat (round_div (10 * int a) (int b)) in nat_text (n div 10) @ js ''.'' @ nat_text (n mod 10))"

definition size_text :: "nat option \<Rightarrow> jsstr" where
  \<comment> \<open>\<open>size\<close>\<close>
  "size_text bytes =
     (case bytes of
        None \<Rightarrow> [0x2014]
      | Some n \<Rightarrow>
          if n < 1024 then nat_text n @ js '' B''
          else if n < 1048576 then one_decimal n 1024 @ js '' KiB''
          else one_decimal n 1048576 @ js '' MiB'')"

definition localized :: "geo_env \<Rightarrow> jsstr obj option \<Rightarrow> jsstr" where
  \<comment> \<open>\<open>ge_language\<close> is what \<open>locale\<close> gives\<close>
  "localized e names =
     (let language = ge_language e;
          key = (if toLowerCase (take 2 language) = js ''zh'' then js ''zh-CN'' else hd (split_on (js ''-'') language));
          entry = (\<lambda>k. case Option.bind names (\<lambda>m. obj_get m k) of Some t \<Rightarrow> t | None \<Rightarrow> [])
      in if entry key \<noteq> [] then entry key else entry (js ''en''))"

record geo_info =
  gi_scope :: jsstr
  gi_code :: jsstr
  gi_country :: "jsstr obj option"
  gi_region :: "jsstr obj option"
  gi_city :: "jsstr obj option"
  gi_organization :: jsstr
  gi_asn :: nat

definition countryName :: "geo_env \<Rightarrow> geo_info \<Rightarrow> jsstr" where
  \<comment> \<open>\<open>ge_region\<close> is \<open>Intl.DisplayNames\<close>, \<open>None\<close> where it is absent or throws\<close>
  "countryName e info =
     (case (if gi_code info = [] then None else ge_region e (gi_code info)) of
        Some name \<Rightarrow> name
      | None \<Rightarrow>
          if localized e (gi_country info) \<noteq> [] then localized e (gi_country info) else gi_code info)"

definition scopes :: "(string \<times> string) list" where
  "scopes =
     [(''local'', ''Local network''), (''private'', ''Private address''), (''loopback'', ''Loopback''),
      (''link_local'', ''Link-local address''), (''shared'', ''Shared address (CGNAT)''),
      (''multicast'', ''Multicast''), (''unspecified'', ''Unspecified address''),
      (''documentation'', ''Documentation address''), (''reserved'', ''Reserved address''),
      (''unknown'', ''Unknown location'')]"

definition scope_text :: "geo_env \<Rightarrow> jsstr \<Rightarrow> jsstr" where
  \<comment> \<open>\<open>scopes[scope] || scopes.unknown\<close>\<close>
  "scope_text e scope =
     (case map_of (map (\<lambda>(k, t). (js k, tr_text e t)) scopes) scope of
        Some t \<Rightarrow> if t = [] then tr_text e ''Unknown location'' else t
      | None \<Rightarrow> tr_text e ''Unknown location'')"

fun keep_first :: "jsstr list \<Rightarrow> jsstr list \<Rightarrow> jsstr list" where
  \<comment> \<open>the non-empty values that occur for the first time\<close>
  "keep_first seen [] = []"
| "keep_first seen (x # xs) = (if x \<noteq> [] \<and> x \<notin> set seen then x # keep_first (x # seen) xs else keep_first (x # seen) xs)"

record geo_description =
  gd_location :: "jsstr option"
  gd_organization :: "jsstr option"
  gd_summary :: jsstr
  gd_details :: jsstr

definition non_empty :: "jsstr list \<Rightarrow> jsstr list" where
  \<comment> \<open>\<open>filter(Boolean)\<close>\<close>
  "non_empty = filter (\<lambda>t. t \<noteq> [])"

definition location_parts :: "geo_env \<Rightarrow> geo_info \<Rightarrow> jsstr list" where
  "location_parts e info =
     keep_first [] [countryName e info, localized e (gi_region info), localized e (gi_city info)]"

definition describe :: "geo_env \<Rightarrow> geo_info option \<Rightarrow> geo_description option" where
  "describe e info =
     (case info of
        None \<Rightarrow> None
      | Some i \<Rightarrow>
          if gi_scope i \<noteq> js ''public''
          then Some \<lparr>gd_location = None, gd_organization = None, gd_summary = scope_text e (gi_scope i),
                     gd_details = scope_text e (gi_scope i)\<rparr>
          else
            let location = join geo_dot (location_parts e i);
                unknown = tr_text e ''Unknown location'';
                or_unknown = (\<lambda>t. if t = [] then unknown else t)
            in Some \<lparr>gd_location = Some (or_unknown location), gd_organization = Some (gi_organization i),
                     gd_summary = or_unknown (join geo_dot (non_empty [location, gi_organization i])),
                     gd_details = join [0x0A] (non_empty
                       [location, if gi_asn i = 0 then [] else js ''AS'' @ nat_text (gi_asn i), gi_organization i])\<rparr>)"

section \<open>The status of the database\<close>

record geo_job =
  gj_busy :: bool
  gj_phase :: jsstr
  gj_profile :: jsstr
  gj_total :: nat
  gj_downloaded :: nat
  gj_error_phase :: jsstr
  gj_error :: jsstr
  gj_required :: nat
  gj_file :: jsstr

record geo_status =
  gs_enabled :: bool
  gs_databases :: "(jsstr \<times> nat) list"
  gs_profile :: jsstr
  gs_job :: geo_job
  gs_load_error :: jsstr
  gs_source :: jsstr
  gs_version :: jsstr
  gs_installed :: "nat option"
  gs_free :: "nat option"
  gs_directory :: jsstr
  gs_upload_max :: "nat option"

definition database_name :: "geo_env \<Rightarrow> jsstr \<Rightarrow> jsstr" where
  "database_name e kind =
     (case map_of [(js ''country'', ''Country/region''), (js ''city'', ''Country/region + province/city''),
                   (js ''asn'', ''ASN / network organization'')] kind of
        Some t \<Rightarrow> if tr_text e t = [] then kind else tr_text e t
      | None \<Rightarrow> kind)"

definition geo_phases :: "(string \<times> string \<times> bool) list" where
  \<comment> \<open>the texts of \<open>phases\<close>, with whether an ellipsis follows\<close>
  "geo_phases =
     [(''preparing'', ''Checking database version'', True), (''checking_space'', ''Checking storage'', True),
      (''downloading'', ''Downloading database'', True), (''verifying'', ''Verifying database'', True),
      (''activating'', ''Loading database'', True), (''importing'', ''Importing database'', True),
      (''completed'', ''Database ready'', False), (''up_to_date'', ''Database is up to date'', False),
      (''cancelled'', ''Download cancelled'', False), (''failed'', ''Database operation failed'', False)]"

definition phase_text :: "geo_env \<Rightarrow> jsstr \<Rightarrow> jsstr" where
  \<comment> \<open>\<open>phases[phase] || ''\<close>\<close>
  "phase_text e phase =
     (case map_of (map (\<lambda>(k, t, d). (js k, if d then tr_dots e t else tr_text e t)) geo_phases) phase of
        Some t \<Rightarrow> t | None \<Rightarrow> [])"

section \<open>What is shown\<close>

record geo_view =
  gv_enabled_colour :: bool
  gv_badge :: jsstr
  gv_enabled :: bool
  gv_enabled_disabled :: bool
  gv_choices_disabled :: bool
  gv_selection :: jsstr
  gv_selection_shown :: bool
  gv_download_disabled :: bool
  gv_download_text :: jsstr
  gv_upload_disabled :: bool
  gv_remove_shown :: bool
  gv_remove_disabled :: bool
  gv_cancel_shown :: bool
  gv_cancel_disabled :: bool
  gv_installed :: jsstr
  gv_installed_shown :: bool
  gv_details :: jsstr
  gv_progress_shown :: bool
  gv_progress_width :: nat
  gv_progress_title :: jsstr
  gv_progress_now :: "nat option"
  gv_message :: jsstr
  gv_message_title :: jsstr
  gv_message_error :: bool

text \<open>The open dialog, that of the upload with its size limit and the name and size of its file, and a call to the router.\<close>

datatype geo_dialog = No_dialog | Delete_dialog | Upload_dialog nat "(jsstr \<times> nat) option" | Uploading

datatype geo_call = Manage (gc_action: string) (gc_profile: jsstr) (gc_checked: bool)

text \<open>The variables of \<open>render\<close>, its radio buttons and check box, and the calls without an answer.\<close>

record geo_form =
  g_current :: "geo_status option"
  g_pending :: bool
  g_refreshing :: bool
  g_dirty :: bool
  g_country :: bool
  g_city :: bool
  g_asn :: bool
  g_view :: geo_view
  g_dialog :: geo_dialog
  g_calls :: "geo_call list"
  g_uploads :: nat
  g_errors :: "jsstr list"

definition selectedProfile :: "geo_form \<Rightarrow> jsstr" where
  "selectedProfile g = js (if g_city g then ''city'' else ''country'') @ (if g_asn g then js ''_asn'' else [])"

definition setProfile :: "jsstr \<Rightarrow> geo_form \<Rightarrow> geo_form" where
  "setProfile v g =
     g\<lparr>g_city := (v = js ''city'' \<or> v = js ''city_asn''), g_country := (\<not> (v = js ''city'' \<or> v = js ''city_asn'')),
       g_asn := (v = js ''country_asn'' \<or> v = js ''city_asn'')\<rparr>"

definition showSelection :: "geo_env \<Rightarrow> geo_form \<Rightarrow> geo_form" where
  "showSelection e g =
     g\<lparr>g_view := (g_view g)
        \<lparr>gv_selection := tr_text e ''Download contents'' @ js '': '' @
           join (js '' + '') (non_empty [database_name e (js (if g_city g then ''city'' else ''country'')),
                                         if g_asn g then database_name e (js ''asn'') else []]),
         gv_selection_shown :=
           (case g_current g of Some s \<Rightarrow> gs_databases s \<noteq> [] \<and> gs_profile s \<noteq> selectedProfile g | None \<Rightarrow> False)\<rparr>\<rparr>"

definition was_busy :: "geo_form \<Rightarrow> bool" where
  "was_busy g = (case g_current g of Some s \<Rightarrow> gj_busy (gs_job s) | None \<Rightarrow> False)"

definition take_status :: "geo_status \<Rightarrow> geo_form \<Rightarrow> geo_form" where
  \<comment> \<open>the variables and choices that \<open>display\<close> sets\<close>
  "take_status s g0 =
     (let job = gs_job s;
          g = g0\<lparr>g_dirty := (g_dirty g0 \<and> \<not> (was_busy g0 \<and> \<not> gj_busy job \<and> gj_phase job = js ''completed'')),
                 g_current := Some s\<rparr>;
          g = (if \<not> g_dirty g \<and> gs_profile s \<noteq> [] then setProfile (gs_profile s) g else g)
      in if gj_busy job \<and> gj_profile job \<noteq> [] then setProfile (gj_profile job) g else g)"

definition percent_of :: "geo_job \<Rightarrow> nat option" where
  "percent_of job =
     (if 0 < gj_total job then Some (min 100 (gj_downloaded job * 100 div gj_total job)) else None)"

definition error_message :: "geo_env \<Rightarrow> geo_status \<Rightarrow> jsstr" where
  "error_message e s =
     (let job = gs_job s in
      if gj_error_phase job = js ''checking_space'' \<and> (case gs_free s of Some f \<Rightarrow> f < gj_required job | None \<Rightarrow> False)
      then tr_text e ''Not enough free space for this database.'' @ js '' '' @ tr_text e ''Required space'' @ js '': ''
           @ size_text (Some (gj_required job)) @ geo_dot @ tr_text e ''Available space'' @ js '': '' @ size_text (gs_free s)
      else tr_text e
             (if gj_error_phase job = js ''checking_space''
              then ''Cannot prepare storage. Check free space and directory permissions.''
              else if gj_error_phase job = js ''verifying''
              then ''Database validation failed. The previous database is unchanged.''
              else ''Database operation failed. Retry or upload a local database.''))"

definition message_of :: "geo_env \<Rightarrow> geo_status \<Rightarrow> jsstr \<times> jsstr" where
  \<comment> \<open>the text and the title of \<open>message\<close>\<close>
  "message_of e s =
     (let job = gs_job s in
      if gs_load_error s \<noteq> [] \<and> \<not> gj_busy job
      then (tr_text e ''The installed database could not be loaded. Download or upload it again.'', gs_load_error s)
      else if gj_phase job = js ''failed'' then (error_message e s, gj_error job)
      else (phase_text e (gj_phase job) @
              (if gj_busy job \<and> 0 < gj_total job
               then js '' '' @ size_text (Some (gj_downloaded job)) @ js '' / '' @ size_text (Some (gj_total job))
                    @ js '' ('' @ nat_text (the (percent_of job)) @ js ''%)''
               else []),
            gj_file job))"

definition details_of :: "geo_env \<Rightarrow> geo_status \<Rightarrow> jsstr" where
  "details_of e s =
     (let builds = map (\<lambda>(kind, epoch). database_name e kind @ js '': '' @
                         (if epoch = 0 then [0x2014] else ge_date e epoch)) (gs_databases s)
      in join [0x0A] (non_empty
           [if gs_source s = [] then [] else tr_text e ''Installed data source'' @ js '': '' @ gs_source s,
            if gs_version s = [] then [] else tr_text e ''Release version'' @ js '': '' @ gs_version s,
            if builds = [] then [] else tr_text e ''Database build dates'' @ js '':'' @ [0x0A] @ join [0x0A] builds,
            tr_text e ''Storage used'' @ js '': '' @ size_text (gs_installed s) @ geo_dot
              @ tr_text e ''Available space'' @ js '': '' @ size_text (gs_free s),
            tr_text e ''Database directory'' @ js '': '' @ gs_directory s]))"

definition display_status :: "geo_env \<Rightarrow> geo_status \<Rightarrow> geo_form \<Rightarrow> geo_form" where
  "display_status e s g0 =
     (let job = gs_job s; databases = gs_databases s; busy = (g_pending g0 \<or> gj_busy job);
          percent = percent_of job;
          g = showSelection e (take_status s g0)
      in g\<lparr>g_view := (g_view g)
            \<lparr>gv_enabled_colour := gs_enabled s,
             gv_badge := tr_text e (if gs_enabled s then ''Enabled'' else if databases \<noteq> [] then ''Disabled'' else ''Not installed''),
             gv_enabled := gs_enabled s, gv_enabled_disabled := (busy \<or> databases = []),
             gv_choices_disabled := busy, gv_download_disabled := busy, gv_upload_disabled := busy,
             gv_download_text := tr_text e (if databases \<noteq> [] \<and> gs_profile s = selectedProfile g
                                            then ''Update database'' else ''Download and enable''),
             gv_remove_shown := (databases \<noteq> [] \<or> gs_load_error s \<noteq> []), gv_remove_disabled := busy,
             gv_cancel_shown := (gj_busy job \<and> gj_phase job \<noteq> js ''activating''), gv_cancel_disabled := g_pending g0,
             gv_installed := tr_text e ''Installed databases'' @ js '': '' @
               (if databases = [] then tr_text e ''Not installed''
                else join (js '' + '') (map (database_name e \<circ> fst) databases)),
             gv_installed_shown := (databases \<noteq> []),
             gv_details := details_of e s,
             gv_progress_shown := (gj_busy job \<and> 0 < gj_total job),
             gv_progress_width := (case percent of Some p \<Rightarrow> p | None \<Rightarrow> 0),
             gv_progress_title := (case percent of Some p \<Rightarrow> nat_text p @ js ''%'' | None \<Rightarrow> []),
             gv_progress_now := (case percent of Some p \<Rightarrow> Some p | None \<Rightarrow> gv_progress_now (g_view g)),
             gv_message := fst (message_of e s), gv_message_title := snd (message_of e s),
             gv_message_error := (gj_phase job = js ''failed'' \<or> gs_load_error s \<noteq> [])\<rparr>\<rparr>)"

section \<open>Operations\<close>

definition display_current :: "geo_env \<Rightarrow> geo_form \<Rightarrow> geo_form" where
  \<comment> \<open>\<open>if (current) display(current)\<close>\<close>
  "display_current e g = (case g_current g of Some s \<Rightarrow> display_status e s g | None \<Rightarrow> g)"

definition geo_refresh :: "bool \<Rightarrow> geo_form \<Rightarrow> geo_form" where
  \<comment> \<open>\<open>connected\<close> says that the form is in the page\<close>
  "geo_refresh connected g = (if g_refreshing g \<or> \<not> connected then g else g\<lparr>g_refreshing := True\<rparr>)"

definition refresh_failed :: "geo_env \<Rightarrow> jsstr \<Rightarrow> geo_form \<Rightarrow> geo_form" where
  "refresh_failed e err g =
     g\<lparr>g_view := (g_view g)
        \<lparr>gv_message := tr_text e ''GeoIP service is unavailable. Enable connection monitoring and apply settings, or update Bandix.'',
         gv_message_title := err, gv_download_disabled := True, gv_upload_disabled := True,
         gv_enabled_disabled := True, gv_choices_disabled := True\<rparr>\<rparr>"

definition refresh_answer :: "geo_env \<Rightarrow> jsstr + geo_status \<Rightarrow> geo_form \<Rightarrow> geo_form" where
  \<comment> \<open>\<open>Inl\<close> is the message of a call that failed or that \<open>unwrap\<close> refused\<close>
  "refresh_answer e a g =
     (case a of Inl err \<Rightarrow> refresh_failed e err g | Inr s \<Rightarrow> display_status e s g)\<lparr>g_refreshing := False\<rparr>"

definition manage :: "geo_env \<Rightarrow> string \<Rightarrow> jsstr \<Rightarrow> bool \<Rightarrow> geo_form \<Rightarrow> geo_form" where
  "manage e action selected checked g =
     (let g1 = display_current e (g\<lparr>g_pending := True\<rparr>) in
      g1\<lparr>g_calls := g_calls g1 @ [Manage action selected checked]\<rparr>)"

definition manage_answer :: "geo_env \<Rightarrow> geo_call \<Rightarrow> jsstr + geo_status \<Rightarrow> geo_form \<Rightarrow> geo_form" where
  "manage_answer e c a g =
     (let g1 = (case a of
                  Inr s \<Rightarrow> display_status e s (if gc_action c = ''download'' then g\<lparr>g_dirty := True\<rparr> else g)
                | Inl err \<Rightarrow>
                    g\<lparr>g_errors := g_errors g @ [tr_text e ''Database operation failed'' @ js '': '' @ err]\<rparr>)
      in display_current e (g1\<lparr>g_pending := False\<rparr>))"

definition choice_made :: "geo_env \<Rightarrow> geo_form \<Rightarrow> geo_form" where
  \<comment> \<open>the end of the handler of a choice\<close>
  "choice_made e g =
     (let g1 = g\<lparr>g_dirty := True\<rparr> in if g_current g1 = None then showSelection e g1 else display_current e g1)"

definition upload_limit :: "geo_form \<Rightarrow> nat" where
  "upload_limit g =
     (case Option.bind (g_current g) gs_upload_max of Some n \<Rightarrow> n | None \<Rightarrow> 8 * 1048576)"

definition upload_disabled :: "geo_form \<Rightarrow> bool" where
  \<comment> \<open>\<open>uploadAction.disabled\<close>, as the last choice of a file left it\<close>
  "upload_disabled g =
     (case g_dialog g of
        Upload_dialog limit (Some (name, bytes)) \<Rightarrow>
          toLowerCase (drop (length name - 5) name) \<noteq> js ''.mmdb'' \<or> bytes = 0 \<or> limit < bytes
      | _ \<Rightarrow> True)"

definition upload_started :: "geo_env \<Rightarrow> geo_form \<Rightarrow> geo_form" where
  "upload_started e g =
     (let g1 = display_current e (g\<lparr>g_pending := True\<rparr>) in g1\<lparr>g_dialog := Uploading, g_uploads := Suc (g_uploads g1)\<rparr>)"

definition upload_answer :: "geo_env \<Rightarrow> jsstr option \<Rightarrow> geo_form \<Rightarrow> geo_form" where
  \<comment> \<open>\<open>Some\<close> is the message of an upload that failed; what \<open>finally\<close> does after an import, its answer has done\<close>
  "upload_answer e failure g =
     (let g1 = g\<lparr>g_uploads := g_uploads g - 1, g_dialog := No_dialog\<rparr> in
      case failure of
        None \<Rightarrow> manage e ''import'' [] False g1
      | Some err \<Rightarrow>
          display_current e (g1\<lparr>g_errors := g_errors g1 @ [tr_text e ''Database upload failed'' @ js '': '' @ err],
                                g_pending := False\<rparr>))"

section \<open>Events\<close>

datatype geo_event =
    Refresh bool
  | Refreshed "jsstr + geo_status"
  | Choose_country
  | Choose_city
  | Toggle_asn
  | Toggle_enabled bool
  | Click_download
  | Click_cancel
  | Click_remove
  | Click_upload
  | Confirm_delete
  | Choose_file "(jsstr \<times> nat) option"
  | Confirm_upload
  | Close_dialog
  | Managed nat "jsstr + geo_status"
  | Uploaded "jsstr option"

definition geo_step :: "geo_env \<Rightarrow> geo_form \<Rightarrow> geo_event \<Rightarrow> geo_form" where
  \<comment> \<open>a disabled or hidden control does not react, nor does one behind a dialog\<close>
  "geo_step e g ev =
     (let v = g_view g; free = (g_dialog g = No_dialog) in
      case ev of
        Refresh connected \<Rightarrow> geo_refresh connected g
      | Refreshed a \<Rightarrow> if g_refreshing g then refresh_answer e a g else g
      | Choose_country \<Rightarrow>
          if free \<and> \<not> gv_choices_disabled v then choice_made e (g\<lparr>g_country := True, g_city := False\<rparr>) else g
      | Choose_city \<Rightarrow>
          if free \<and> \<not> gv_choices_disabled v then choice_made e (g\<lparr>g_country := False, g_city := True\<rparr>) else g
      | Toggle_asn \<Rightarrow> if free \<and> \<not> gv_choices_disabled v then choice_made e (g\<lparr>g_asn := (\<not> g_asn g)\<rparr>) else g
      | Toggle_enabled on \<Rightarrow> if free \<and> \<not> gv_enabled_disabled v then manage e ''enable'' [] on g else g
      | Click_download \<Rightarrow>
          if free \<and> \<not> gv_download_disabled v then manage e ''download'' (selectedProfile g) False g else g
      | Click_cancel \<Rightarrow>
          if free \<and> gv_cancel_shown v \<and> \<not> gv_cancel_disabled v then manage e ''cancel'' [] False g else g
      | Click_remove \<Rightarrow>
          if free \<and> gv_remove_shown v \<and> \<not> gv_remove_disabled v then g\<lparr>g_dialog := Delete_dialog\<rparr> else g
      | Click_upload \<Rightarrow>
          if free \<and> \<not> gv_upload_disabled v \<and> g_current g \<noteq> None then g\<lparr>g_dialog := Upload_dialog (upload_limit g) None\<rparr> else g
      | Confirm_delete \<Rightarrow>
          if g_dialog g = Delete_dialog
          then manage e ''delete'' [] False (g\<lparr>g_dialog := No_dialog, g_dirty := False\<rparr>) else g
      | Choose_file f \<Rightarrow> (case g_dialog g of Upload_dialog limit _ \<Rightarrow> g\<lparr>g_dialog := Upload_dialog limit f\<rparr> | _ \<Rightarrow> g)
      | Confirm_upload \<Rightarrow> if upload_disabled g then g else upload_started e g
      | Close_dialog \<Rightarrow> if g_dialog g = Uploading then g else g\<lparr>g_dialog := No_dialog\<rparr>
      | Managed i a \<Rightarrow>
          if i < length (g_calls g)
          then manage_answer e (g_calls g ! i) a (g\<lparr>g_calls := take i (g_calls g) @ drop (Suc i) (g_calls g)\<rparr>) else g
      | Uploaded failure \<Rightarrow> if g_uploads g = 0 then g else upload_answer e failure g)"

definition geo_render :: "geo_env \<Rightarrow> geo_form" where
  "geo_render e =
     \<lparr>g_current = None, g_pending = False, g_refreshing = False, g_dirty = False, g_country = True, g_city = False,
      g_asn = False,
      g_view = \<lparr>gv_enabled_colour = False, gv_badge = tr_dots e ''Loading'', gv_enabled = False,
        gv_enabled_disabled = True, gv_choices_disabled = True, gv_selection = [], gv_selection_shown = True,
        gv_download_disabled = False, gv_download_text = tr_text e ''Download and enable'', gv_upload_disabled = False,
        gv_remove_shown = False, gv_remove_disabled = False, gv_cancel_shown = False, gv_cancel_disabled = False,
        gv_installed = [], gv_installed_shown = True, gv_details = [], gv_progress_shown = False,
        gv_progress_width = 0, gv_progress_title = [], gv_progress_now = None, gv_message = [],
        gv_message_title = [], gv_message_error = False\<rparr>,
      g_dialog = No_dialog, g_calls = [], g_uploads = 0, g_errors = []\<rparr>"

inductive geo_reachable :: "geo_env \<Rightarrow> geo_form \<Rightarrow> bool" for e where
  render: "geo_reachable e (geo_render e)"
| step: "geo_reachable e g \<Longrightarrow> geo_reachable e (geo_step e g ev)"

section \<open>What the operations keep\<close>

lemma setProfile_fields [simp]:
  "g_current (setProfile v g) = g_current g" "g_pending (setProfile v g) = g_pending g"
  "g_refreshing (setProfile v g) = g_refreshing g" "g_dirty (setProfile v g) = g_dirty g"
  "g_view (setProfile v g) = g_view g" "g_dialog (setProfile v g) = g_dialog g"
  "g_calls (setProfile v g) = g_calls g" "g_uploads (setProfile v g) = g_uploads g"
  "g_country (setProfile v g) \<longleftrightarrow> \<not> g_city (setProfile v g)"
  by (simp_all add: setProfile_def)

lemma take_status_fields [simp]:
  "g_current (take_status s g) = Some s" "g_pending (take_status s g) = g_pending g"
  "g_refreshing (take_status s g) = g_refreshing g" "g_dialog (take_status s g) = g_dialog g"
  "g_calls (take_status s g) = g_calls g" "g_uploads (take_status s g) = g_uploads g"
  by (simp_all add: take_status_def Let_def)

lemma take_status_radio: "g_country g = (\<not> g_city g) \<Longrightarrow> g_country (take_status s g) = (\<not> g_city (take_status s g))"
  by (simp add: take_status_def Let_def)

lemma display_fields [simp]:
  "g_current (display_status e s g) = Some s" "g_pending (display_status e s g) = g_pending g"
  "g_refreshing (display_status e s g) = g_refreshing g" "g_dialog (display_status e s g) = g_dialog g"
  "g_calls (display_status e s g) = g_calls g" "g_uploads (display_status e s g) = g_uploads g"
  "g_dirty (display_status e s g) = g_dirty (take_status s g)" "g_city (display_status e s g) = g_city (take_status s g)"
  "g_country (display_status e s g) = g_country (take_status s g)" "g_asn (display_status e s g) = g_asn (take_status s g)"
  by (simp_all add: display_status_def showSelection_def Let_def)

lemma showSelection_fields [simp]:
  "g_current (showSelection e g) = g_current g" "g_pending (showSelection e g) = g_pending g"
  "g_refreshing (showSelection e g) = g_refreshing g" "g_dialog (showSelection e g) = g_dialog g"
  "g_calls (showSelection e g) = g_calls g" "g_uploads (showSelection e g) = g_uploads g"
  "g_country (showSelection e g) = g_country g" "g_city (showSelection e g) = g_city g"
  "g_dirty (showSelection e g) = g_dirty g" "g_asn (showSelection e g) = g_asn g"
  by (simp_all add: showSelection_def)

lemma display_current_fields [simp]:
  "g_current (display_current e g) = g_current g" "g_pending (display_current e g) = g_pending g"
  "g_refreshing (display_current e g) = g_refreshing g" "g_dialog (display_current e g) = g_dialog g"
  "g_calls (display_current e g) = g_calls g" "g_uploads (display_current e g) = g_uploads g"
  by (simp_all add: display_current_def split: option.splits)

definition locked :: "geo_view \<Rightarrow> bool" where
  \<comment> \<open>no control but the cancel button starts a call\<close>
  "locked v \<longleftrightarrow>
     gv_download_disabled v \<and> gv_upload_disabled v \<and> gv_choices_disabled v \<and> gv_enabled_disabled v \<and> gv_remove_disabled v"

definition controls_ok :: "geo_form \<Rightarrow> bool" where
  "controls_ok g \<longleftrightarrow>
     (\<forall>s. g_current g = Some s \<longrightarrow>
        (g_pending g \<or> gj_busy (gs_job s) \<longrightarrow> locked (g_view g)) \<and> (g_pending g \<longrightarrow> gv_cancel_disabled (g_view g))
        \<and> (gs_databases s = [] \<longrightarrow> gv_enabled_disabled (g_view g)))"

definition radio_ok :: "geo_form \<Rightarrow> bool" where
  "radio_ok g \<longleftrightarrow> (g_country g \<longleftrightarrow> \<not> g_city g)"

lemma display_ok [simp]: "controls_ok (display_status e s g)"
  by (simp add: controls_ok_def) (simp add: display_status_def locked_def Let_def)

lemma display_current_ok [simp]: "controls_ok (display_current e g)"
  by (cases "g_current g") (simp_all add: display_current_def, simp add: controls_ok_def)

lemma controls_ok_cong:
  "g_current h = g_current g \<Longrightarrow> g_pending h = g_pending g \<Longrightarrow> g_view h = g_view g \<Longrightarrow> controls_ok h = controls_ok g"
  by (simp add: controls_ok_def)

lemma display_radio [simp]: "radio_ok g \<Longrightarrow> radio_ok (display_status e s g)"
  using take_status_radio [of g s] by (simp add: radio_ok_def)

lemma display_current_radio [simp]: "radio_ok g \<Longrightarrow> radio_ok (display_current e g)"
  by (simp add: display_current_def split: option.splits)

lemma radio_ok_cong: "g_country h = g_country g \<Longrightarrow> g_city h = g_city g \<Longrightarrow> radio_ok h = radio_ok g"
  by (simp add: radio_ok_def)

lemma manage_ok [simp]: "controls_ok (manage e a p c g)"
  using controls_ok_cong [of "manage e a p c g" "display_current e (g\<lparr>g_pending := True\<rparr>)"]
  by (simp add: manage_def Let_def)

lemma manage_fields [simp]:
  "g_current (manage e a p c g) = g_current g" "g_pending (manage e a p c g)" "g_dialog (manage e a p c g) = g_dialog g"
  "g_refreshing (manage e a p c g) = g_refreshing g" "g_calls (manage e a p c g) = g_calls g @ [Manage a p c]" "g_uploads (manage e a p c g) = g_uploads g"
  by (simp_all add: manage_def Let_def)

lemma manage_radio [simp]: "radio_ok g \<Longrightarrow> radio_ok (manage e a p c g)"
  using radio_ok_cong [of "manage e a p c g" "display_current e (g\<lparr>g_pending := True\<rparr>)"] radio_ok_cong [of "g\<lparr>g_pending := True\<rparr>" g]
  by (simp add: manage_def Let_def)

lemma refresh_answer_ok: "controls_ok g \<Longrightarrow> controls_ok (refresh_answer e a g)"
proof (cases a)
  case (Inl err)
  assume "controls_ok g"
  then show ?thesis using Inl by (auto simp: refresh_answer_def refresh_failed_def controls_ok_def locked_def)
next
  case (Inr s)
  then show ?thesis
    using controls_ok_cong [of "(display_status e s g)\<lparr>g_refreshing := False\<rparr>" "display_status e s g"]
    by (simp add: refresh_answer_def)
qed

lemma refresh_answer_radio: "radio_ok g \<Longrightarrow> radio_ok (refresh_answer e a g)"
  using take_status_radio [of g] by (cases a) (simp_all add: refresh_answer_def refresh_failed_def radio_ok_def)

lemma manage_answer_ok [simp]: "controls_ok (manage_answer e c a g)"
  by (simp add: manage_answer_def Let_def)

lemma manage_answer_radio: "radio_ok g \<Longrightarrow> radio_ok (manage_answer e c a g)"
  unfolding manage_answer_def Let_def
  by (intro display_current_radio) (auto simp: radio_ok_def take_status_radio split: sum.splits)

lemma choice_made_ok [simp]: "controls_ok (choice_made e g)"
  by (simp add: choice_made_def Let_def) (simp add: controls_ok_def)

lemma choice_made_radio: "radio_ok g \<Longrightarrow> radio_ok (choice_made e g)"
  unfolding choice_made_def Let_def
  using display_current_radio [of "g\<lparr>g_dirty := True\<rparr>" e] by (auto simp: radio_ok_def)

lemma upload_ok:
  "controls_ok (upload_started e g)" "radio_ok g \<Longrightarrow> radio_ok (upload_started e g)"
  "controls_ok (upload_answer e f g)" "radio_ok g \<Longrightarrow> radio_ok (upload_answer e f g)"
proof -
  let ?d = "display_current e (g\<lparr>g_pending := True\<rparr>)"
  show "controls_ok (upload_started e g)"
    using controls_ok_cong [of "upload_started e g" ?d] by (simp add: upload_started_def Let_def)
  show "controls_ok (upload_answer e f g)" by (simp add: upload_answer_def Let_def split: option.splits)
  assume r: "radio_ok g"
  then have up: "radio_ok (g\<lparr>g_pending := b\<rparr>)" "radio_ok (g\<lparr>g_uploads := n, g_dialog := dg\<rparr>)"
      "radio_ok (g\<lparr>g_uploads := n, g_dialog := dg, g_errors := es, g_pending := b\<rparr>)" for b n dg es
    by (simp_all add: radio_ok_def)
  show "radio_ok (upload_started e g)"
    using radio_ok_cong [of "upload_started e g" ?d] up by (simp add: upload_started_def Let_def)
  show "radio_ok (upload_answer e f g)"
    using up by (simp add: upload_answer_def Let_def split: option.splits)
qed

lemma step_keeps:
  assumes "controls_ok g" and "radio_ok g"
  shows "controls_ok (geo_step e g ev)" and "radio_ok (geo_step e g ev)"
proof -
  have up: "controls_ok (g\<lparr>g_dialog := dg\<rparr>)" "radio_ok (g\<lparr>g_dialog := dg\<rparr>)" "controls_ok (g\<lparr>g_refreshing := b\<rparr>)"
    "radio_ok (g\<lparr>g_refreshing := b\<rparr>)" "radio_ok (g\<lparr>g_calls := cs\<rparr>)" "radio_ok (g\<lparr>g_dialog := dg, g_dirty := b\<rparr>)"
    "radio_ok (g\<lparr>g_country := c, g_city := \<not> c\<rparr>)" "radio_ok (g\<lparr>g_asn := b\<rparr>)" for dg b cs c
    using assms by (simp_all add: controls_ok_def radio_ok_def)
  from up(7) [of True] up(7) [of False] have "radio_ok (g\<lparr>g_country := True, g_city := False\<rparr>)"
    "radio_ok (g\<lparr>g_country := False, g_city := True\<rparr>)" by simp_all
  note keep = assms up this refresh_answer_ok refresh_answer_radio manage_answer_radio choice_made_radio upload_ok
  show "controls_ok (geo_step e g ev)" using keep
    by (cases ev) (simp_all add: geo_step_def geo_refresh_def Let_def split: geo_dialog.split)
  show "radio_ok (geo_step e g ev)" using keep
    by (cases ev) (simp_all add: geo_step_def geo_refresh_def Let_def split: geo_dialog.split)
qed

lemma geo_reachable_ok: "geo_reachable e g \<Longrightarrow> controls_ok g \<and> radio_ok g"
proof (induction rule: geo_reachable.induct)
  case render
  show ?case by (simp add: controls_ok_def radio_ok_def geo_render_def)
next
  case (step g ev)
  then show ?case using step_keeps by blast
qed

definition flights :: "geo_form \<Rightarrow> nat" where
  \<comment> \<open>the calls and uploads without an answer\<close>
  "flights g = length (g_calls g) + g_uploads g"

definition single_flight :: "geo_form \<Rightarrow> bool" where
  "single_flight g \<longleftrightarrow>
     g_current g \<noteq> None \<and> controls_ok g \<and> flights g = (if g_pending g then 1 else 0)
     \<and> (g_dialog g = Delete_dialog \<or> (\<exists>l f. g_dialog g = Upload_dialog l f) \<longrightarrow> \<not> g_pending g)"

lemma choice_made_fields [simp]:
  "g_current (choice_made e g) = g_current g" "g_pending (choice_made e g) = g_pending g"
  "g_dialog (choice_made e g) = g_dialog g" "g_calls (choice_made e g) = g_calls g" "g_uploads (choice_made e g) = g_uploads g"
  by (simp_all add: choice_made_def Let_def)

lemma refresh_answer_fields [simp]:
  "g_pending (refresh_answer e a g) = g_pending g" "g_dialog (refresh_answer e a g) = g_dialog g"
  "g_calls (refresh_answer e a g) = g_calls g" "g_uploads (refresh_answer e a g) = g_uploads g"
  "g_current g = Some s \<Longrightarrow> \<exists>y. g_current (refresh_answer e a g) = Some y"
  by (cases a; simp add: refresh_answer_def refresh_failed_def)+

lemma manage_answer_fields [simp]:
  "\<not> g_pending (manage_answer e c a g)" "g_dialog (manage_answer e c a g) = g_dialog g"
  "g_calls (manage_answer e c a g) = g_calls g" "g_uploads (manage_answer e c a g) = g_uploads g"
  "g_current g = Some s \<Longrightarrow> \<exists>y. g_current (manage_answer e c a g) = Some y"
  by (cases a; simp add: manage_answer_def Let_def)+

lemma upload_fields [simp]:
  "g_pending (upload_started e g)" "g_dialog (upload_started e g) = Uploading"
  "g_calls (upload_started e g) = g_calls g" "g_uploads (upload_started e g) = Suc (g_uploads g)"
  "g_current (upload_started e g) = g_current g"
  "g_current (upload_answer e f g) = g_current g" "g_dialog (upload_answer e f g) = No_dialog"
  "g_uploads (upload_answer e f g) = g_uploads g - 1" "g_pending (upload_answer e f g) \<longleftrightarrow> f = None"
  "g_calls (upload_answer e f g) = g_calls g @ (if f = None then [Manage ''import'' [] False] else [])"
  by (simp_all add: upload_started_def upload_answer_def Let_def split: option.splits)

lemma upload_enabled: "\<not> upload_disabled g \<Longrightarrow> \<exists>l f. g_dialog g = Upload_dialog l f"
  by (auto simp: upload_disabled_def split: geo_dialog.splits)

lemma single_step:
  assumes "single_flight g" and "radio_ok g"
  shows "single_flight (geo_step e g ev)"
proof -
  have ok: "controls_ok (geo_step e g ev)" using step_keeps assms by (simp add: single_flight_def)
  obtain s where s: "g_current g = Some s" using assms(1) by (auto simp: single_flight_def)
  have lock: "g_pending g \<longrightarrow> locked (g_view g) \<and> gv_cancel_disabled (g_view g)"
    using assms(1) s by (simp add: single_flight_def controls_ok_def)
  have none: "length (g_calls g) + g_uploads g = Suc 0 \<Longrightarrow> 0 < g_uploads g \<Longrightarrow> g_calls g = []"
    by (cases "g_calls g") simp_all
  have "g_current (geo_step e g ev) \<noteq> None \<and> flights (geo_step e g ev) = (if g_pending (geo_step e g ev) then 1 else 0)
    \<and> (g_dialog (geo_step e g ev) = Delete_dialog \<or> (\<exists>l f. g_dialog (geo_step e g ev) = Upload_dialog l f)
        \<longrightarrow> \<not> g_pending (geo_step e g ev))"
    using assms(1) s lock upload_enabled [of g] none
    by (cases ev)
      (auto simp: single_flight_def geo_step_def geo_refresh_def flights_def locked_def Let_def split: if_splits geo_dialog.splits)
  then show ?thesis using ok by (simp add: single_flight_def)
qed

lemma single_run: "single_flight g \<Longrightarrow> radio_ok g \<Longrightarrow> single_flight (foldl (geo_step e) g es)"
proof (induction es arbitrary: g)
  case (Cons ev es)
  have "radio_ok (geo_step e g ev)" using step_keeps(2) Cons.prems by (simp add: single_flight_def)
  then show ?case using Cons single_step [OF Cons.prems] by simp
qed simp

lemma dirty_kept:
  assumes "g_dirty g" and "\<not> was_busy g" and "\<not> gj_busy (gs_job s)"
  shows "g_dirty (take_status s g) \<and> g_city (take_status s g) = g_city g \<and> g_asn (take_status s g) = g_asn g
    \<and> \<not> was_busy (take_status s g)"
  using assms by (simp add: take_status_def was_busy_def Let_def)

definition idle_answer :: "jsstr + geo_status \<Rightarrow> bool" where
  "idle_answer a = (case a of Inl _ \<Rightarrow> True | Inr s \<Rightarrow> \<not> gj_busy (gs_job s))"

definition one_poll :: "jsstr + geo_status \<Rightarrow> geo_event list" where
  "one_poll a = [Refresh True, Refreshed a]"

lemma poll_keeps:
  assumes "g_dirty g" and "\<not> was_busy g" and "\<not> g_refreshing g" and "idle_answer a"
  shows "g_dirty (foldl (geo_step e) g (one_poll a)) \<and> \<not> was_busy (foldl (geo_step e) g (one_poll a))
    \<and> \<not> g_refreshing (foldl (geo_step e) g (one_poll a))
    \<and> selectedProfile (foldl (geo_step e) g (one_poll a)) = selectedProfile g"
proof -
  let ?g = "g\<lparr>g_refreshing := True\<rparr>"
  have "foldl (geo_step e) g (one_poll a) = refresh_answer e a ?g"
    using assms(3) by (simp add: one_poll_def geo_step_def geo_refresh_def Let_def)
  moreover have "was_busy ?g = was_busy g" by (simp add: was_busy_def)
  ultimately show ?thesis
    using assms dirty_kept [of ?g]
    by (cases a) (simp_all add: refresh_answer_def refresh_failed_def idle_answer_def was_busy_def selectedProfile_def)
qed

section \<open>Properties\<close>

text \<open>C21: in every reachable state one of the two locations is chosen, and once a status is known, all controls
  that start an operation are disabled while a call is pending or the router works, and the cancel button
  while a call is pending.\<close>

theorem geo_controls_locked:
  assumes "geo_reachable e g"
  shows "g_country g = (\<not> g_city g)
    \<and> (\<forall>s. g_current g = Some s \<longrightarrow>
         (g_pending g \<or> gj_busy (gs_job s) \<longrightarrow> locked (g_view g))
         \<and> (g_pending g \<longrightarrow> gv_cancel_disabled (g_view g)))"
  using geo_reachable_ok [OF assms] by (auto simp: controls_ok_def radio_ok_def)

text \<open>C29: once a status is known and no call is pending, at most one call or upload is ever without an answer,
  whatever the user and the network do, and the form knows of it.\<close>

theorem one_call_at_a_time:
  assumes "geo_reachable e g" and "g_current g \<noteq> None" and "flights g = 0" and "\<not> g_pending g"
  shows "flights (foldl (geo_step e) g es) = (if g_pending (foldl (geo_step e) g es) then 1 else 0)"
proof -
  have "single_flight g" using assms geo_reachable_ok [OF assms(1)] by (simp add: single_flight_def)
  then have "single_flight (foldl (geo_step e) g es)" using single_run geo_reachable_ok [OF assms(1)] by blast
  then show ?thesis by (simp add: single_flight_def)
qed

text \<open>Polling does not undo what the user chose: as long as the router is idle, the choices stay.\<close>

lemma choice_survives_polls:
  assumes "g_dirty g" and "\<not> was_busy g" and "\<not> g_refreshing g" and "list_all idle_answer as"
  shows "selectedProfile (foldl (geo_step e) g (concat (map one_poll as))) = selectedProfile g"
  using assms
proof (induction as arbitrary: g)
  case (Cons a as)
  then have "idle_answer a" "list_all idle_answer as" by simp_all
  with poll_keeps [OF Cons.prems(1-3), of a e] Cons.IH [of "foldl (geo_step e) g (one_poll a)"]
  show ?case by simp
qed simp

text \<open>Before the first status is known nothing is locked: each click on the download button sends one more
  request.\<close>

lemma early_downloads:
  "g_calls (foldl (geo_step e) (geo_render e) (replicate n Click_download)) =
     replicate n (Manage ''download'' (js ''country'') False)"
proof -
  have "foldl (geo_step e) (geo_render e) (replicate n Click_download) =
      (geo_render e)\<lparr>g_pending := (0 < n), g_calls := replicate n (Manage ''download'' (js ''country'') False)\<rparr>"
  proof (induction n)
    case 0
    show ?case by (simp add: geo_render_def)
  next
    case (Suc n)
    have "foldl (geo_step e) (geo_render e) (replicate (Suc n) Click_download) =
        geo_step e (foldl (geo_step e) (geo_render e) (replicate n Click_download)) Click_download"
      by (simp flip: replicate_append_same)
    also have "\<dots> = (geo_render e)\<lparr>g_pending := True, g_calls := replicate (Suc n) (Manage ''download'' (js ''country'') False)\<rparr>"
      unfolding Suc
      by (simp add: geo_step_def geo_render_def manage_def display_current_def selectedProfile_def Let_def
          flip: replicate_append_same)
    finally show ?case by simp
  qed
  then show ?thesis by simp
qed

section \<open>Inputs to apply them to\<close>

definition demo_geo_env :: geo_env where
  "demo_geo_env = \<lparr>ge_tr = id, ge_language = js ''en'', ge_region = (\<lambda>_. None), ge_date = nat_text\<rparr>"

definition demo_geo_status :: geo_status where
  "demo_geo_status =
     \<lparr>gs_enabled = True, gs_databases = [(js ''country'', 0)], gs_profile = js ''country'',
      gs_job = \<lparr>gj_busy = False, gj_phase = [], gj_profile = [], gj_total = 0, gj_downloaded = 0,
                gj_error_phase = [], gj_error = [], gj_required = 0, gj_file = []\<rparr>,
      gs_load_error = [], gs_source = [], gs_version = [], gs_installed = None, gs_free = None,
      gs_directory = js ''/tmp'', gs_upload_max = None\<rparr>"

definition demo_geo :: geo_form where
  \<comment> \<open>the form once the first status has arrived\<close>
  "demo_geo = geo_step demo_geo_env (geo_step demo_geo_env (geo_render demo_geo_env) (Refresh True)) (Refreshed (Inr demo_geo_status))"

lemma demo_geo_reachable: "geo_reachable demo_geo_env demo_geo"
  unfolding demo_geo_def by (intro geo_reachable.intros)

lemma demo_geo_fields:
  "g_current demo_geo = Some demo_geo_status" "flights demo_geo = 0" "\<not> g_pending demo_geo" "\<not> was_busy demo_geo"
  "\<not> g_refreshing demo_geo" "g_dialog demo_geo = No_dialog" "\<not> gv_choices_disabled (g_view demo_geo)"
proof -
  let ?g = "(geo_render demo_geo_env)\<lparr>g_refreshing := True\<rparr>"
  have d: "demo_geo = (display_status demo_geo_env demo_geo_status ?g)\<lparr>g_refreshing := False\<rparr>"
    by (simp add: demo_geo_def geo_step_def geo_refresh_def refresh_answer_def geo_render_def Let_def)
  show "g_current demo_geo = Some demo_geo_status" "flights demo_geo = 0" "\<not> g_pending demo_geo" "\<not> was_busy demo_geo"
    "\<not> g_refreshing demo_geo" "g_dialog demo_geo = No_dialog"
    by (simp_all add: d flights_def geo_render_def was_busy_def demo_geo_status_def)
  show "\<not> gv_choices_disabled (g_view demo_geo)"
    by (simp add: d display_status_def Let_def) (simp add: geo_render_def demo_geo_status_def)
qed

theorem geo_controls_locked_witness: "g_country demo_geo = (\<not> g_city demo_geo)"
  using geo_controls_locked [OF demo_geo_reachable] by blast

theorem one_call_at_a_time_witness:
  "flights (foldl (geo_step demo_geo_env) demo_geo [Click_download, Click_download, Toggle_enabled False, Click_remove]) \<le> 1"
proof -
  have "g_current demo_geo \<noteq> None" by (simp add: demo_geo_fields)
  then show ?thesis
    by (subst one_call_at_a_time [OF demo_geo_reachable _ demo_geo_fields(2,3)]) simp_all
qed

lemma choice_survives_polls_witness:
  "selectedProfile (foldl (geo_step demo_geo_env) (demo_geo\<lparr>g_dirty := True, g_asn := True\<rparr>)
     (concat (map one_poll [Inr demo_geo_status, Inl [], Inr demo_geo_status])))
   = selectedProfile (demo_geo\<lparr>g_dirty := True, g_asn := True\<rparr>)"
  by (rule choice_survives_polls)
    (use demo_geo_fields in \<open>simp_all add: was_busy_def idle_answer_def demo_geo_status_def\<close>)

end
