(* ===== verification/VnstatSeries.thy ===== *)
theory VnstatSeries
  imports JsNumber JsSort
begin

text \<open>
  The series of the Network Usage tab of \<open>luci-app-netstat\<close>, \<open>netstat/vnstat-parse.js\<close>: the rows of an
  interface in the output of vnStat, sorted by date, as labels and byte counts, with the current period.
  Numbers of vnStat are natural numbers below 2 to the 53rd, an absent one is 0; a label of a month that is no
  month has the text the source gives it.
\<close>

section \<open>Labels\<close>

definition MONTHS :: "string list" where
  "MONTHS = [''Jan'', ''Feb'', ''Mar'', ''Apr'', ''May'', ''Jun'', ''Jul'', ''Aug'', ''Sep'', ''Oct'', ''Nov'', ''Dec'']"

definition pad2 :: "nat \<Rightarrow> jsstr" where
  "pad2 n = (if n < 10 then js ''0'' else []) @ nat_text n"

definition month_name :: "nat \<Rightarrow> jsstr" where
  \<comment> \<open>\<open>MONTHS[m - 1]\<close> in an addition of texts\<close>
  "month_name m = (if 1 \<le> m \<and> m \<le> 12 then js (MONTHS ! (m - 1)) else js ''undefined'')"

definition dayLabel :: "nat \<Rightarrow> nat \<Rightarrow> nat \<Rightarrow> jsstr" where
  "dayLabel y m d = pad2 d @ js '' '' @ month_name m @ js '' '' @ pad2 (y mod 100)"

definition monthLabel :: "nat \<Rightarrow> nat \<Rightarrow> jsstr" where
  "monthLabel y m = month_name m @ [cu (CHR '' ''), cu (CHR 0x27)] @ pad2 (y mod 100)"

section \<open>The output of vnStat\<close>

text \<open>A row without a date is \<open>None\<close> in the place of its date; \<open>None\<close> in a list is \<open>null\<close>.\<close>

record vn_row =
  vr_date :: "(nat \<times> nat \<times> nat) option"
  vr_rx :: nat
  vr_tx :: nat

record vn_interface =
  vi_name :: jsstr
  vi_traffic :: "(string \<Rightarrow> vn_row option list option) option"

record vn_data =
  vd_version :: jsstr
  vd_interfaces :: "vn_interface option list option"

record vn_series =
  vs_labels :: "jsstr list"
  vs_rx :: "nat list"
  vs_tx :: "nat list"
  vs_total_rx :: nat
  vs_total_tx :: nat
  vs_entries :: nat

definition empty_series :: vn_series where
  "empty_series = \<lparr>vs_labels = [], vs_rx = [], vs_tx = [], vs_total_rx = 0, vs_total_tx = 0, vs_entries = 0\<rparr>"

definition findInterface :: "vn_data option \<Rightarrow> jsstr \<Rightarrow> vn_interface option" where
  "findInterface data name =
     (let ifs = (case Option.bind data vd_interfaces of Some l \<Rightarrow> l | None \<Rightarrow> []) in
      case find (\<lambda>i. case i of Some f \<Rightarrow> vi_name f = name | None \<Rightarrow> False) ifs of
        Some i \<Rightarrow> i
      | None \<Rightarrow> if length ifs = 1 then ifs ! 0 else None)"

definition dated :: "bool \<Rightarrow> vn_row option \<Rightarrow> bool" where
  \<comment> \<open>the filter of the rows\<close>
  "dated monthly r =
     (case Option.bind r vr_date of
        Some (y, m, d) \<Rightarrow> y \<noteq> 0 \<and> m \<noteq> 0 \<and> (monthly \<or> d \<noteq> 0)
      | None \<Rightarrow> False)"

definition date_of :: "vn_row \<Rightarrow> nat \<times> nat \<times> nat" where
  "date_of r = (case vr_date r of Some d \<Rightarrow> d | None \<Rightarrow> (0, 0, 0))"

definition row_key :: "bool \<Rightarrow> vn_row \<Rightarrow> int" where
  \<comment> \<open>\<open>sortKey\<close>\<close>
  "row_key monthly r = (case date_of r of (y, m, d) \<Rightarrow> int (y * 10000 + m * 100 + (if monthly then 0 else d)))"

definition period_text :: "bool \<Rightarrow> nat \<times> nat \<times> nat \<Rightarrow> jsstr" where
  "period_text monthly = (\<lambda>(y, m, d). if monthly then monthLabel y m else dayLabel y m d)"

definition rows_key :: "bool \<Rightarrow> bool \<Rightarrow> string" where
  "rows_key monthly legacy =
     (if monthly then (if legacy then ''months'' else ''month'') else (if legacy then ''days'' else ''day''))"

definition legacy_data :: "vn_data option \<Rightarrow> bool" where
  "legacy_data data = (case data of Some d \<Rightarrow> vd_version d = js ''1'' | None \<Rightarrow> False)"

definition dated_rows :: "vn_data option \<Rightarrow> bool \<Rightarrow> (string \<Rightarrow> vn_row option list option) \<Rightarrow> vn_row list" where
  "dated_rows data monthly traffic =
     map the (filter (dated monthly)
       (case traffic (rows_key monthly (legacy_data data)) of Some rs \<Rightarrow> rs | None \<Rightarrow> []))"

definition add_row :: "bool \<Rightarrow> nat \<Rightarrow> vn_row \<Rightarrow> vn_series \<Rightarrow> vn_series" where
  "add_row monthly scale r s =
     s\<lparr>vs_labels := vs_labels s @ [period_text monthly (date_of r)], vs_rx := vs_rx s @ [vr_rx r * scale],
       vs_tx := vs_tx s @ [vr_tx r * scale], vs_total_rx := vs_total_rx s + vr_rx r * scale,
       vs_total_tx := vs_total_tx s + vr_tx r * scale\<rparr>"

definition series :: "vn_data option \<Rightarrow> jsstr \<Rightarrow> bool \<Rightarrow> nat \<times> nat \<times> nat \<Rightarrow> vn_series" where
  \<comment> \<open>\<open>None\<close> in the data is a text that is no JSON, or null; \<open>now\<close> is the current date\<close>
  "series data iface monthly now =
     (case Option.bind (findInterface data iface) vi_traffic of
        None \<Rightarrow> empty_series
      | Some traffic \<Rightarrow>
          let rows = sort_cmp (\<lambda>a b. row_key monthly a - row_key monthly b) (dated_rows data monthly traffic);
              scale = (if legacy_data data then 1024 else 1);
              out = empty_series\<lparr>vs_entries := length rows\<rparr>
          in if rows = [] then out
             else
               let out = foldl (\<lambda>s r. add_row monthly scale r s) out rows; cur = period_text monthly now in
               if cur \<in> set (vs_labels out) then out
               else out\<lparr>vs_labels := vs_labels out @ [cur], vs_rx := vs_rx out @ [0], vs_tx := vs_tx out @ [0]\<rparr>)"

section \<open>Lemmas\<close>

lemma added_rows:
  "foldl (\<lambda>s r. add_row monthly scale r s) s rs =
     s\<lparr>vs_labels := vs_labels s @ map (period_text monthly \<circ> date_of) rs, vs_rx := vs_rx s @ map (\<lambda>r. vr_rx r * scale) rs,
       vs_tx := vs_tx s @ map (\<lambda>r. vr_tx r * scale) rs, vs_total_rx := vs_total_rx s + (\<Sum>r\<leftarrow>rs. vr_rx r * scale),
       vs_total_tx := vs_total_tx s + (\<Sum>r\<leftarrow>rs. vr_tx r * scale)\<rparr>"
  by (induction rs arbitrary: s) (simp_all add: add_row_def)

definition calendar :: "vn_row \<Rightarrow> bool" where
  "calendar r \<longleftrightarrow> (case date_of r of (y, m, d) \<Rightarrow> m \<le> 12 \<and> d \<le> 31)"

definition earlier :: "bool \<Rightarrow> vn_row \<Rightarrow> vn_row \<Rightarrow> bool" where
  \<comment> \<open>the period of the first row is not after that of the second\<close>
  "earlier monthly a b =
     (case (date_of a, date_of b) of
        ((y, m, d), (y', m', d')) \<Rightarrow> y < y' \<or> y = y' \<and> (m < m' \<or> m = m' \<and> (monthly \<or> d \<le> d')))"

lemma row_key_earlier: "calendar a \<Longrightarrow> calendar b \<Longrightarrow> row_key monthly a - row_key monthly b \<le> 0 \<longleftrightarrow> earlier monthly a b"
  by (cases "date_of a"; cases "date_of b") (auto simp: calendar_def row_key_def earlier_def)

definition shown_rows :: "vn_series \<Rightarrow> (jsstr \<times> nat \<times> nat) list" where
  "shown_rows s = zip (vs_labels s) (zip (vs_rx s) (vs_tx s))"

section \<open>Properties\<close>


text \<open>An interface that vnStat has recorded nothing for yields the empty series, without the current period.\<close>

lemma series_without_rows:
  "Option.bind (findInterface data iface) vi_traffic = Some traffic \<Longrightarrow> dated_rows data monthly traffic = [] \<Longrightarrow>
     series data iface monthly now = empty_series"
  by (simp add: series_def sort_cmp_def empty_series_def)

section \<open>Inputs to apply them to\<close>

definition demo_vn_row :: "nat \<Rightarrow> nat \<Rightarrow> nat \<Rightarrow> nat \<Rightarrow> vn_row" where
  "demo_vn_row y m d n = \<lparr>vr_date = Some (y, m, d), vr_rx = n, vr_tx = 2 * n\<rparr>"

definition demo_vnstat :: "vn_data option" where
  "demo_vnstat = Some \<lparr>vd_version = js ''2'', vd_interfaces = Some [Some \<lparr>vi_name = js ''wan'',
     vi_traffic = Some (\<lambda>k. if k = ''day''
       then Some [Some (demo_vn_row 2024 5 2 7), None, Some (demo_vn_row 2023 12 31 1)] else None)\<rparr>]\<rparr>"


end
