(* ===== verification/StatusSockets.thy ===== *)
theory StatusSockets
  imports JsString
begin

text \<open>
  The live statistics of the OpenClash status page, \<open>openclash/js/status.js\<close>: \<open>WSManager\<close> with its
  connections, heartbeats and reconnections, and \<open>syncDataSource\<close>, which chooses between the web sockets and
  the polling of the router. Sockets are numbered as they are created and live on in the browser when the
  script has dropped them; the network opens, closes and breaks them in any order, and the page calls the
  handlers of the type a socket was created for. The charts and the markup are not modelled.
\<close>

section \<open>State\<close>

datatype source = Traffic | Connections | Memory

definition sources :: "source list" where
  "sources = [Traffic, Connections, Memory]"

datatype socket_state = Opening | Open | Closing | Closed

record socket =
  sk_source :: source
  sk_url :: jsstr
  sk_state :: socket_state

datatype connection_state = CONNECTING | CONNECTED | DISCONNECTED | ERROR

record connection =
  cn_socket :: nat
  cn_url :: jsstr
  cn_state :: connection_state
  cn_activity :: nat

text \<open>A timer of a reconnection: its number, source, address and time.\<close>

record reconnect_timer =
  rt_id :: nat
  rt_source :: source
  rt_url :: jsstr
  rt_due :: nat

text \<open>What the page shows: all cards, or the chart of a metric.\<close>

datatype stats_view = Cards | Chart jsstr

text \<open>
  \<open>p_protocol\<close> is the origin of the web sockets, \<open>p_running\<close> that the status says that the core runs and
  has an address; \<open>p_network\<close> and \<open>p_system\<close> are \<open>isEnabled\<close> of the two polling managers. \<open>p_heart\<close> is the
  time at which the interval of a heartbeat fires next, \<open>p_pending\<close> the timers the script remembers,
  \<open>p_timers\<close> those that run, \<open>p_messages\<close> what the handlers got.
\<close>

record page =
  p_now :: nat
  p_sockets :: "socket list"
  p_conns :: "source \<Rightarrow> connection option"
  p_heart :: "source \<Rightarrow> nat option"
  p_pending :: "source \<Rightarrow> nat option"
  p_timers :: "reconnect_timer list"
  p_next :: nat
  p_ws_connect :: bool
  p_visibility :: bool
  p_protocol :: "jsstr option"
  p_token :: jsstr
  p_clash :: bool
  p_daip :: bool
  p_view :: stats_view
  p_network :: bool
  p_system :: bool
  p_messages :: "(source \<times> jsstr) list"

text \<open>The browser: whether it has web sockets, and the addresses for which their constructor throws.\<close>

record browser =
  br_supported :: bool
  br_throws :: "jsstr \<Rightarrow> bool"

definition reconnectDelay :: nat where
  "reconnectDelay = 5000"

definition heartbeatInterval :: nat where
  "heartbeatInterval = 30000"

definition allowedCloseCodes :: "nat list" where
  "allowedCloseCodes = [1000, 1001, 1005, 1006]"

section \<open>Closing\<close>

definition close_socket :: "nat \<Rightarrow> page \<Rightarrow> page" where
  \<comment> \<open>\<open>socket.close()\<close>\<close>
  "close_socket i p =
     (let sk = p_sockets p ! i in
      if i < length (p_sockets p) \<and> (sk_state sk = Opening \<or> sk_state sk = Open)
      then p\<lparr>p_sockets := (p_sockets p)[i := sk\<lparr>sk_state := Closing\<rparr>]\<rparr> else p)"

definition stopHeartbeat :: "source \<Rightarrow> page \<Rightarrow> page" where
  "stopHeartbeat t p = p\<lparr>p_heart := (p_heart p)(t := None)\<rparr>"

definition drop_connection :: "source \<Rightarrow> page \<Rightarrow> page" where
  \<comment> \<open>the body that \<open>closeConnection\<close> and \<open>enableFallbackMode\<close> share\<close>
  "drop_connection t p =
     (case p_conns p t of
        None \<Rightarrow> p
      | Some c \<Rightarrow> let p1 = close_socket (cn_socket c) (stopHeartbeat t p) in p1\<lparr>p_conns := (p_conns p1)(t := None)\<rparr>)"

definition clear_reconnect :: "source \<Rightarrow> page \<Rightarrow> page" where
  "clear_reconnect t p =
     (case p_pending p t of
        None \<Rightarrow> p
      | Some i \<Rightarrow> p\<lparr>p_timers := filter (\<lambda>r. rt_id r \<noteq> i) (p_timers p), p_pending := (p_pending p)(t := None)\<rparr>)"

definition closeConnection :: "source \<Rightarrow> page \<Rightarrow> page" where
  "closeConnection t p = drop_connection t (clear_reconnect t p)"

definition open_types :: "page \<Rightarrow> source list" where
  \<comment> \<open>\<open>Object.keys(connections)\<close>\<close>
  "open_types p = filter (\<lambda>t. p_conns p t \<noteq> None) sources"

definition closeAll :: "page \<Rightarrow> page" where
  "closeAll p = (foldl (\<lambda>q t. closeConnection t q) p (open_types p))\<lparr>p_ws_connect := False\<rparr>"

section \<open>The data source\<close>

definition required_sockets :: "stats_view \<Rightarrow> source list" where
  "required_sockets v =
     (case v of
        Cards \<Rightarrow> [Traffic, Connections, Memory]
      | Chart m \<Rightarrow>
          if m = js ''traffic'' then [Traffic, Connections]
          else if m = js ''memory'' then [Memory]
          else if m = js ''connections'' then [Connections] else [])"

definition required_system :: "stats_view \<Rightarrow> bool" where
  "required_system v =
     (case v of
        Cards \<Rightarrow> True
      | Chart m \<Rightarrow> m \<notin> {js ''traffic'', js ''memory'', js ''connections''})"

definition endpoint :: "source \<Rightarrow> jsstr" where
  "endpoint t = js (case t of Traffic \<Rightarrow> ''/traffic'' | Connections \<Rightarrow> ''/connections'' | Memory \<Rightarrow> ''/memory'')"

definition no_protocol :: "page \<Rightarrow> bool" where
  "no_protocol p \<longleftrightarrow> p_protocol p = None \<or> p_protocol p = Some []"

definition choose_polling :: "page \<Rightarrow> page" where
  \<comment> \<open>the first half of \<open>syncDataSource\<close>\<close>
  "choose_polling p =
     p\<lparr>p_system := (p_clash p \<and> required_system (p_view p)),
       p_network := (p_clash p \<and> p_daip p \<and> no_protocol p \<and> (p_view p = Cards \<or> required_sockets (p_view p) \<noteq> []))\<rparr>"

definition enableFallbackMode :: "page \<Rightarrow> page" where
  \<comment> \<open>it ends with \<open>syncDataSource\<close>, which returns after its first half as there is no protocol\<close>
  "enableFallbackMode p =
     choose_polling ((foldl (\<lambda>q t. drop_connection t q) (p\<lparr>p_ws_connect := False\<rparr>) (open_types p))\<lparr>p_protocol := None\<rparr>)"

definition scheduleReconnect :: "source \<Rightarrow> page \<Rightarrow> page" where
  "scheduleReconnect t p =
     (case p_conns p t of
        None \<Rightarrow> enableFallbackMode p
      | Some c \<Rightarrow>
          p\<lparr>p_timers := p_timers p @ [\<lparr>rt_id = p_next p, rt_source = t, rt_url = cn_url c, rt_due = p_now p + reconnectDelay\<rparr>],
            p_pending := (p_pending p)(t := Some (p_next p)), p_next := Suc (p_next p)\<rparr>)"

definition set_state :: "source \<Rightarrow> connection_state \<Rightarrow> page \<Rightarrow> page" where
  \<comment> \<open>\<open>if (connection) connection.state = ...\<close>\<close>
  "set_state t st p = p\<lparr>p_conns := (p_conns p)(t := map_option (\<lambda>c. c\<lparr>cn_state := st\<rparr>) (p_conns p t))\<rparr>"

definition handleConnectionError :: "source \<Rightarrow> page \<Rightarrow> page" where
  "handleConnectionError t p = enableFallbackMode (scheduleReconnect t (set_state t ERROR p))"

definition createConnection :: "browser \<Rightarrow> source \<Rightarrow> jsstr \<Rightarrow> page \<Rightarrow> page" where
  "createConnection b t url p0 =
     (let p = closeConnection t p0 in
      if \<not> br_supported b then enableFallbackMode p
      else if br_throws b url then handleConnectionError t p
      else p\<lparr>p_sockets := p_sockets p @ [\<lparr>sk_source = t, sk_url = url, sk_state = Opening\<rparr>],
             p_conns := (p_conns p)(t := Some \<lparr>cn_socket = length (p_sockets p), cn_url = url, cn_state = CONNECTING,
                                             cn_activity = p_now p\<rparr>)\<rparr>)"

definition socket_url :: "source \<Rightarrow> page \<Rightarrow> jsstr" where
  \<comment> \<open>the protocol may have become \<open>null\<close> while the loop of \<open>syncDataSource\<close> runs\<close>
  "socket_url t p =
     (case p_protocol p of Some origin \<Rightarrow> origin | None \<Rightarrow> js ''null'') @ endpoint t
     @ (if p_token p = [] then [] else js ''?token='' @ p_token p)"

definition active :: "source \<Rightarrow> page \<Rightarrow> bool" where
  "active t p = (case p_conns p t of Some c \<Rightarrow> cn_state c = CONNECTED \<or> cn_state c = CONNECTING | None \<Rightarrow> False)"

definition sync_source :: "browser \<Rightarrow> source list \<Rightarrow> page \<Rightarrow> source \<Rightarrow> page" where
  \<comment> \<open>the body of the loop\<close>
  "sync_source b req p t =
     (if t \<in> set req then (if active t p then p else createConnection b t (socket_url t p) p) else closeConnection t p)"

definition syncDataSource :: "browser \<Rightarrow> page \<Rightarrow> page" where
  "syncDataSource b p0 =
     (let p = choose_polling p0 in
      if no_protocol p then p else foldl (sync_source b (required_sockets (p_view p))) p sources)"

section \<open>The handlers\<close>

definition startHeartbeat :: "source \<Rightarrow> page \<Rightarrow> page" where
  "startHeartbeat t p = p\<lparr>p_heart := (p_heart p)(t := Some (p_now p + heartbeatInterval)), p_visibility := True\<rparr>"

definition hasActiveConnections :: "page \<Rightarrow> bool" where
  "hasActiveConnections p =
     list_ex (\<lambda>t. case p_conns p t of Some c \<Rightarrow> cn_state c = CONNECTED | None \<Rightarrow> False) sources"

definition touch :: "source \<Rightarrow> page \<Rightarrow> page" where
  \<comment> \<open>\<open>connection.lastActivity = Date.now()\<close>\<close>
  "touch t p = p\<lparr>p_conns := (p_conns p)(t := map_option (\<lambda>c. c\<lparr>cn_activity := p_now p\<rparr>) (p_conns p t))\<rparr>"

definition handleOpen :: "source \<Rightarrow> page \<Rightarrow> page" where
  "handleOpen t p0 =
     (let p = startHeartbeat t (touch t (set_state t CONNECTED p0)) in
      if p_ws_connect p \<or> \<not> hasActiveConnections p then p else p\<lparr>p_ws_connect := True, p_network := False\<rparr>)"

definition handleMessage :: "source \<Rightarrow> jsstr \<Rightarrow> page \<Rightarrow> page" where
  "handleMessage t data p =
     (if p_conns p t = None then p else (touch t p)\<lparr>p_messages := p_messages p @ [(t, data)]\<rparr>)"

definition handleError :: "source \<Rightarrow> page \<Rightarrow> page" where
  "handleError t p = enableFallbackMode (scheduleReconnect t (stopHeartbeat t (set_state t ERROR p)))"

definition handleClose :: "source \<Rightarrow> nat \<Rightarrow> nat \<Rightarrow> page \<Rightarrow> page" where
  \<comment> \<open>the socket of the event and its code\<close>
  "handleClose t i code p =
     (case p_conns p t of
        Some c \<Rightarrow>
          if cn_socket c = i
          then (let p1 = stopHeartbeat t (set_state t DISCONNECTED p) in
                if code \<in> set allowedCloseCodes then p1 else scheduleReconnect t p1)
          else p
      | None \<Rightarrow> p)"

definition reconnectConnection :: "browser \<Rightarrow> source \<Rightarrow> page \<Rightarrow> page" where
  "reconnectConnection b t p =
     (case p_conns p t of Some c \<Rightarrow> createConnection b t (cn_url c) p | None \<Rightarrow> p)"

definition heartbeat :: "browser \<Rightarrow> source \<Rightarrow> page \<Rightarrow> page" where
  \<comment> \<open>the function of the interval\<close>
  "heartbeat b t p =
     (case p_conns p t of
        Some c \<Rightarrow>
          if cn_state c = CONNECTED \<and> heartbeatInterval * 3 < p_now p - cn_activity c then reconnectConnection b t p else p
      | None \<Rightarrow> p)"

definition visibility_changed :: "bool \<Rightarrow> page \<Rightarrow> page" where
  "visibility_changed hidden p =
     (if hidden then foldl (\<lambda>q t. stopHeartbeat t q) p sources
      else foldl (\<lambda>q t. case p_conns q t of
                           Some c \<Rightarrow> if cn_state c = CONNECTED then startHeartbeat t q else q
                         | None \<Rightarrow> q) p sources)"

definition new_status :: "browser \<Rightarrow> bool \<Rightarrow> bool \<Rightarrow> jsstr \<Rightarrow> jsstr \<Rightarrow> page \<Rightarrow> page" where
  \<comment> \<open>the end of the handler of a status: whether the core runs and has an address, origin and token\<close>
  "new_status b clash daip origin token p0 =
     (let p = p0\<lparr>p_clash := clash, p_daip := daip, p_system := (clash \<and> p_system p0)\<rparr> in
      if clash \<and> daip then syncDataSource b (p\<lparr>p_protocol := Some origin, p_token := token\<rparr>)
      else
        let p1 = (closeAll p)\<lparr>p_protocol := None\<rparr> in
        if clash then syncDataSource b p1 else p1\<lparr>p_network := False\<rparr>)"

section \<open>Events\<close>

datatype page_event =
    Opened nat
  | Message nat jsstr
  | Failed nat
  | Closed_event nat nat
  | Heartbeat source
  | Reconnect_at nat
  | Visibility bool
  | Time nat
  | Status bool bool jsstr jsstr
  | View stats_view

definition socket_event :: "nat \<Rightarrow> socket_state list \<Rightarrow> socket_state \<Rightarrow> (source \<Rightarrow> page \<Rightarrow> page) \<Rightarrow> page \<Rightarrow> page" where
  \<comment> \<open>an event of a socket that is in one of the states, its next state, and the handler\<close>
  "socket_event i sts st h p =
     (if i < length (p_sockets p) \<and> sk_state (p_sockets p ! i) \<in> set sts
      then h (sk_source (p_sockets p ! i)) (p\<lparr>p_sockets := (p_sockets p)[i := (p_sockets p ! i)\<lparr>sk_state := st\<rparr>]\<rparr>)
      else p)"

definition page_step :: "browser \<Rightarrow> page \<Rightarrow> page_event \<Rightarrow> page" where
  "page_step b p e =
     (case e of
        Opened i \<Rightarrow> socket_event i [Opening] Open handleOpen p
      | Message i data \<Rightarrow> socket_event i [Open] Open (\<lambda>t. handleMessage t data) p
      | Failed i \<Rightarrow> socket_event i [Opening, Open, Closing] Closing handleError p
      | Closed_event i code \<Rightarrow> socket_event i [Opening, Open, Closing] Closed (\<lambda>t. handleClose t i code) p
      | Heartbeat t \<Rightarrow>
          (case p_heart p t of
             Some n \<Rightarrow>
               if n \<le> p_now p then heartbeat b t (p\<lparr>p_heart := (p_heart p)(t := Some (n + heartbeatInterval))\<rparr>) else p
           | None \<Rightarrow> p)
      | Reconnect_at i \<Rightarrow>
          (case find (\<lambda>r. rt_id r = i \<and> rt_due r \<le> p_now p) (p_timers p) of
             Some r \<Rightarrow>
               createConnection b (rt_source r) (rt_url r)
                 (p\<lparr>p_timers := filter (\<lambda>r. rt_id r \<noteq> i) (p_timers p), p_pending := (p_pending p)(rt_source r := None)\<rparr>)
           | None \<Rightarrow> p)
      | Visibility hidden \<Rightarrow> if p_visibility p then visibility_changed hidden p else p
      | Time n \<Rightarrow> p\<lparr>p_now := p_now p + n\<rparr>
      | Status clash daip origin token \<Rightarrow> new_status b clash daip origin token p
      | View v \<Rightarrow> syncDataSource b (p\<lparr>p_view := v\<rparr>))"

definition first_page :: "stats_view \<Rightarrow> page" where
  "first_page v =
     \<lparr>p_now = 0, p_sockets = [], p_conns = (\<lambda>_. None), p_heart = (\<lambda>_. None), p_pending = (\<lambda>_. None), p_timers = [],
      p_next = 0, p_ws_connect = False, p_visibility = False, p_protocol = None, p_token = [], p_clash = False,
      p_daip = False, p_view = v, p_network = False, p_system = False, p_messages = []\<rparr>"

inductive page_reachable :: "browser \<Rightarrow> page \<Rightarrow> bool" for b where
  first: "page_reachable b (first_page v)"
| step: "page_reachable b p \<Longrightarrow> page_reachable b (page_step b p e)"

section \<open>Invariants\<close>

definition live :: "nat \<Rightarrow> page \<Rightarrow> bool" where
  "live i p \<longleftrightarrow> i < length (p_sockets p) \<and> (sk_state (p_sockets p ! i) = Opening \<or> sk_state (p_sockets p ! i) = Open)"

definition own_sockets :: "page \<Rightarrow> bool" where
  \<comment> \<open>a connection has a socket of its source, a live socket is that of its connection, a heartbeat belongs to a
     connection, and the timers have numbers that were given\<close>
  "own_sockets p \<longleftrightarrow>
     (\<forall>t c. p_conns p t = Some c \<longrightarrow> cn_socket c < length (p_sockets p) \<and> sk_source (p_sockets p ! cn_socket c) = t)
     \<and> (\<forall>i. live i p \<longrightarrow> (\<exists>c. p_conns p (sk_source (p_sockets p ! i)) = Some c \<and> cn_socket c = i))
     \<and> (\<forall>t. p_heart p t \<noteq> None \<longrightarrow> p_conns p t \<noteq> None)
     \<and> (\<forall>r\<in>set (p_timers p). rt_id r < p_next p)"

definition states_ok :: "page \<Rightarrow> bool" where
  \<comment> \<open>a connection counts as connected exactly while its socket is open\<close>
  "states_ok p \<longleftrightarrow>
     (\<forall>t c. p_conns p t = Some c \<longrightarrow> (cn_state c = CONNECTED \<longleftrightarrow> sk_state (p_sockets p ! cn_socket c) = Open))"

lemma own_socketsD:
  assumes "own_sockets p"
  shows "p_conns p t = Some c \<Longrightarrow> cn_socket c < length (p_sockets p)"
    and "p_conns p t = Some c \<Longrightarrow> sk_source (p_sockets p ! cn_socket c) = t"
    and "live i p \<Longrightarrow> \<exists>c. p_conns p (sk_source (p_sockets p ! i)) = Some c \<and> cn_socket c = i"
    and "p_conns p t = None \<Longrightarrow> p_heart p t = None"
    and "r \<in> set (p_timers p) \<Longrightarrow> rt_id r < p_next p"
  using assms unfolding own_sockets_def by blast+

lemma close_socket_fields [simp]:
  "p_conns (close_socket i p) = p_conns p" "p_heart (close_socket i p) = p_heart p" "p_pending (close_socket i p) = p_pending p"
  "p_timers (close_socket i p) = p_timers p" "p_next (close_socket i p) = p_next p" "p_now (close_socket i p) = p_now p"
  "p_protocol (close_socket i p) = p_protocol p" "p_clash (close_socket i p) = p_clash p" "p_daip (close_socket i p) = p_daip p"
  "p_view (close_socket i p) = p_view p" "p_ws_connect (close_socket i p) = p_ws_connect p"
  "p_network (close_socket i p) = p_network p" "length (p_sockets (close_socket i p)) = length (p_sockets p)"
  by (simp_all add: close_socket_def Let_def)

lemma drop_fields:
  "p_conns (drop_connection t p) = (p_conns p)(t := None)"
  "p_timers (drop_connection t p) = p_timers p" "p_next (drop_connection t p) = p_next p"
  "p_pending (drop_connection t p) = p_pending p" "p_now (drop_connection t p) = p_now p"
  "p_protocol (drop_connection t p) = p_protocol p" "p_clash (drop_connection t p) = p_clash p"
  "p_daip (drop_connection t p) = p_daip p" "p_view (drop_connection t p) = p_view p"
  "p_ws_connect (drop_connection t p) = p_ws_connect p" "p_network (drop_connection t p) = p_network p"
  "length (p_sockets (drop_connection t p)) = length (p_sockets p)"
  by (cases "p_conns p t"; simp add: drop_connection_def stopHeartbeat_def Let_def fun_upd_idem)+

lemma drop_heart: "p_conns p t \<noteq> None \<Longrightarrow> p_heart (drop_connection t p) = (p_heart p)(t := None)"
  "p_conns p t = None \<Longrightarrow> drop_connection t p = p"
  by (cases "p_conns p t"; simp add: drop_connection_def stopHeartbeat_def Let_def)+

lemma close_sockets:
  "k < length (p_sockets p) \<Longrightarrow> p_sockets (close_socket k p) ! i =
     (if i = k \<and> live i p then (p_sockets p ! i)\<lparr>sk_state := Closing\<rparr> else p_sockets p ! i)"
  by (simp add: close_socket_def live_def Let_def nth_list_update)

lemma drop_sockets:
  assumes "p_conns p t = Some c" and "cn_socket c < length (p_sockets p)"
  shows "p_sockets (drop_connection t p) ! i =
    (if i = cn_socket c \<and> live i p then (p_sockets p ! i)\<lparr>sk_state := Closing\<rparr> else p_sockets p ! i)"
proof -
  have "p_sockets (drop_connection t p) = p_sockets (close_socket (cn_socket c) (stopHeartbeat t p))"
    using assms(1) by (simp add: drop_connection_def Let_def)
  moreover have eqs: "p_sockets (stopHeartbeat t p) = p_sockets p" "live i (stopHeartbeat t p) = live i p"
    by (simp_all add: stopHeartbeat_def live_def)
  moreover have "cn_socket c < length (p_sockets (stopHeartbeat t p))" using assms(2) eqs(1) by simp
  note close_sockets [OF this, of i]
  ultimately show ?thesis by (simp only:)
qed

lemma drop_keeps:
  assumes "own_sockets p"
  shows "own_sockets (drop_connection t p)" and "states_ok p \<Longrightarrow> states_ok (drop_connection t p)"
proof -
  show "own_sockets (drop_connection t p)"
  proof (cases "p_conns p t")
    case None
    then show ?thesis using assms by (simp add: drop_heart)
  next
    case (Some c)
    note sk = drop_sockets [OF Some own_socketsD(1) [OF assms Some]]
    have src: "sk_source (p_sockets (drop_connection t p) ! i) = sk_source (p_sockets p ! i)" for i by (simp add: sk)
    have live: "live i (drop_connection t p) \<longleftrightarrow> live i p \<and> i \<noteq> cn_socket c" for i
      by (auto simp: live_def sk drop_fields)
    show ?thesis unfolding own_sockets_def
    proof (intro conjI allI impI ballI)
      fix s d
      assume "p_conns (drop_connection t p) s = Some d"
      then have "p_conns p s = Some d" by (simp add: drop_fields split: if_splits)
      then show "cn_socket d < length (p_sockets (drop_connection t p))"
        "sk_source (p_sockets (drop_connection t p) ! cn_socket d) = s"
        using own_socketsD(1,2) [OF assms] by (simp_all add: src drop_fields)
    next
      fix i
      assume l: "live i (drop_connection t p)"
      then obtain d where d: "p_conns p (sk_source (p_sockets p ! i)) = Some d" "cn_socket d = i"
        using own_socketsD(3) [OF assms] live by blast
      have "i \<noteq> cn_socket c" using l live by blast
      then have other: "sk_source (p_sockets p ! i) \<noteq> t" using d Some by (metis option.inject)
      then show "\<exists>d. p_conns (drop_connection t p) (sk_source (p_sockets (drop_connection t p) ! i)) = Some d \<and> cn_socket d = i"
        using d other by (simp add: src drop_fields(1))
    next
      fix s
      assume "p_heart (drop_connection t p) s \<noteq> None"
      then show "p_conns (drop_connection t p) s \<noteq> None"
        using own_socketsD(4) [OF assms, of s] drop_heart(1) [of p t] Some by (cases "s = t"; cases "p_conns p s") (auto simp: drop_fields(1))
    next
      fix r
      assume "r \<in> set (p_timers (drop_connection t p))"
      then show "rt_id r < p_next (drop_connection t p)" using own_socketsD(5) [OF assms] by (simp add: drop_fields)
    qed
  qed
  assume st: "states_ok p"
  show "states_ok (drop_connection t p)"
  proof (cases "p_conns p t")
    case None
    then show ?thesis using st by (simp add: drop_heart)
  next
    case (Some c)
    show ?thesis unfolding states_ok_def
    proof (intro allI impI)
      fix s d
      assume "p_conns (drop_connection t p) s = Some d"
      then have d: "p_conns p s = Some d" "s \<noteq> t" by (simp_all add: drop_fields split: if_splits)
      then have "cn_socket d \<noteq> cn_socket c" using own_socketsD(2) [OF assms] Some by metis
      then show "cn_state d = CONNECTED \<longleftrightarrow> sk_state (p_sockets (drop_connection t p) ! cn_socket d) = Open"
        using st d by (simp add: states_ok_def drop_sockets [OF Some own_socketsD(1) [OF assms Some]])
    qed
  qed
qed

lemma drops_fields:
  "p_conns (foldl (\<lambda>q t. drop_connection t q) p ts) = (\<lambda>s. if s \<in> set ts then None else p_conns p s)"
  "p_timers (foldl (\<lambda>q t. drop_connection t q) p ts) = p_timers p" "p_next (foldl (\<lambda>q t. drop_connection t q) p ts) = p_next p"
  "p_pending (foldl (\<lambda>q t. drop_connection t q) p ts) = p_pending p" "p_now (foldl (\<lambda>q t. drop_connection t q) p ts) = p_now p"
  "p_clash (foldl (\<lambda>q t. drop_connection t q) p ts) = p_clash p" "p_daip (foldl (\<lambda>q t. drop_connection t q) p ts) = p_daip p"
  "p_view (foldl (\<lambda>q t. drop_connection t q) p ts) = p_view p"
  "p_ws_connect (foldl (\<lambda>q t. drop_connection t q) p ts) = p_ws_connect p"
  "length (p_sockets (foldl (\<lambda>q t. drop_connection t q) p ts)) = length (p_sockets p)"
  by (induction ts arbitrary: p) (simp_all add: drop_fields fun_eq_iff)

lemma drops_own: "own_sockets p \<Longrightarrow> own_sockets (foldl (\<lambda>q t. drop_connection t q) p ts)"
  by (induction ts arbitrary: p) (simp_all add: drop_keeps(1))

lemma own_sockets_cong:
  assumes "p_sockets q = p_sockets p" and "p_conns q = p_conns p" and "p_heart q = p_heart p"
    and "p_timers q = p_timers p" and "p_next q = p_next p"
  shows "own_sockets q = own_sockets p" and "live i q = live i p" and "states_ok q = states_ok p"
  using assms by (simp_all add: own_sockets_def live_def states_ok_def)

lemma all_sources [simp]: "t \<in> set sources"
  by (cases t) (simp_all add: sources_def)

lemma open_types_iff [simp]: "t \<in> set (open_types p) \<longleftrightarrow> p_conns p t \<noteq> None"
  by (simp add: open_types_def)

lemma no_conns_states: "p_conns p = (\<lambda>_. None) \<Longrightarrow> states_ok p"
  by (simp add: states_ok_def)

lemma no_conns_dead: "own_sockets p \<Longrightarrow> p_conns p = (\<lambda>_. None) \<Longrightarrow> \<not> live i p"
  using own_socketsD(3) [of p i] by auto

lemma fallback_fields:
  "p_conns (enableFallbackMode p) = (\<lambda>_. None)" "p_timers (enableFallbackMode p) = p_timers p"
  "p_next (enableFallbackMode p) = p_next p" "p_pending (enableFallbackMode p) = p_pending p"
  "p_now (enableFallbackMode p) = p_now p" "p_clash (enableFallbackMode p) = p_clash p"
  "p_daip (enableFallbackMode p) = p_daip p" "p_view (enableFallbackMode p) = p_view p"
  "p_protocol (enableFallbackMode p) = None" "\<not> p_ws_connect (enableFallbackMode p)"
  "length (p_sockets (enableFallbackMode p)) = length (p_sockets p)"
  "p_network (enableFallbackMode p) \<longleftrightarrow>
     p_clash p \<and> p_daip p \<and> (p_view p = Cards \<or> required_sockets (p_view p) \<noteq> [])"
  unfolding enableFallbackMode_def choose_polling_def
  by (simp_all add: drops_fields no_protocol_def fun_eq_iff)

lemma fallback_own:
  assumes "own_sockets p"
  shows "own_sockets (enableFallbackMode p)" and "states_ok (enableFallbackMode p)"
proof -
  let ?p = "p\<lparr>p_ws_connect := False\<rparr>"
  have "own_sockets ?p" using assms own_sockets_cong(1) [of ?p p] by simp
  then have "own_sockets (foldl (\<lambda>q t. drop_connection t q) ?p (open_types p))" by (rule drops_own)
  moreover have "own_sockets (enableFallbackMode p) = own_sockets (foldl (\<lambda>q t. drop_connection t q) ?p (open_types p))"
    by (rule own_sockets_cong(1)) (simp_all add: enableFallbackMode_def choose_polling_def)
  ultimately show "own_sockets (enableFallbackMode p)" by simp
  show "states_ok (enableFallbackMode p)" by (rule no_conns_states) (rule fallback_fields(1))
qed

lemma own_sockets_same:
  assumes "own_sockets p" and "p_sockets q = p_sockets p"
    and "\<And>s. map_option cn_socket (p_conns q s) = map_option cn_socket (p_conns p s)"
    and "\<And>s. p_heart q s \<noteq> None \<Longrightarrow> p_heart p s \<noteq> None \<or> p_conns p s \<noteq> None"
    and "\<And>r. r \<in> set (p_timers q) \<Longrightarrow> rt_id r < p_next q"
  shows "own_sockets q"
proof -
  have from_q: "\<exists>d. p_conns p s = Some d \<and> cn_socket d = cn_socket c" if "p_conns q s = Some c" for s c
    using assms(3) [of s] that by (cases "p_conns p s") simp_all
  have to_q: "\<exists>d. p_conns q s = Some d \<and> cn_socket d = cn_socket c" if "p_conns p s = Some c" for s c
    using assms(3) [of s] that by (cases "p_conns q s") simp_all
  have live: "live i q = live i p" for i using assms(2) by (simp add: live_def)
  show ?thesis unfolding own_sockets_def
  proof (intro conjI allI impI ballI)
    fix s c
    assume "p_conns q s = Some c"
    then obtain d where "p_conns p s = Some d" "cn_socket d = cn_socket c" using from_q by blast
    then show "cn_socket c < length (p_sockets q)" "sk_source (p_sockets q ! cn_socket c) = s"
      using own_socketsD(1,2) [OF assms(1), of s d] assms(2) by simp_all
  next
    fix i
    assume "live i q"
    then show "\<exists>c. p_conns q (sk_source (p_sockets q ! i)) = Some c \<and> cn_socket c = i"
      using own_socketsD(3) [OF assms(1), of i] to_q assms(2) live by metis
  next
    fix s
    assume "p_heart q s \<noteq> None"
    then have "p_conns p s \<noteq> None" using assms(4) own_socketsD(4) [OF assms(1)] by blast
    then show "p_conns q s \<noteq> None" using to_q by blast
  qed (rule assms(5))
qed

lemma set_state_own:
  assumes "own_sockets p"
  shows "own_sockets (set_state t st p)"
  by (rule own_sockets_same [OF assms])
    (use own_socketsD(5) [OF assms] in \<open>simp_all add: set_state_def option.map_comp comp_def\<close>)

lemma stopHeartbeat_own: "own_sockets p \<Longrightarrow> own_sockets (stopHeartbeat t p)" "states_ok p \<Longrightarrow> states_ok (stopHeartbeat t p)"
proof -
  assume own: "own_sockets p"
  show "own_sockets (stopHeartbeat t p)"
    by (rule own_sockets_same [OF own]) (use own_socketsD(5) [OF own] in \<open>auto simp: stopHeartbeat_def split: if_splits\<close>)
next
  show "states_ok p \<Longrightarrow> states_ok (stopHeartbeat t p)" by (simp add: states_ok_def stopHeartbeat_def)
qed

lemma touch_own: "own_sockets p \<Longrightarrow> own_sockets (touch t p)" "states_ok p \<Longrightarrow> states_ok (touch t p)"
proof -
  assume own: "own_sockets p"
  show "own_sockets (touch t p)"
    by (rule own_sockets_same [OF own]) (use own_socketsD(5) [OF own] in \<open>simp_all add: touch_def option.map_comp comp_def\<close>)
next
  show "states_ok p \<Longrightarrow> states_ok (touch t p)" by (auto simp: states_ok_def touch_def split: if_splits)
qed

lemma schedule_own:
  assumes "own_sockets p"
  shows "own_sockets (scheduleReconnect t p)" and "states_ok p \<Longrightarrow> states_ok (scheduleReconnect t p)"
proof -
  show "own_sockets (scheduleReconnect t p)"
  proof (cases "p_conns p t")
    case None
    then show ?thesis using fallback_own(1) [OF assms] by (simp add: scheduleReconnect_def)
  next
    case (Some c)
    show ?thesis
      by (rule own_sockets_same [OF assms])
        (use own_socketsD(5) [OF assms] in \<open>auto simp: scheduleReconnect_def Some intro: less_SucI\<close>)
  qed
  show "states_ok p \<Longrightarrow> states_ok (scheduleReconnect t p)"
    using fallback_own(2) [OF assms] by (cases "p_conns p t") (simp_all add: scheduleReconnect_def states_ok_def)
qed

definition page_ok :: "page \<Rightarrow> bool" where
  "page_ok p \<longleftrightarrow> own_sockets p \<and> states_ok p"

lemma page_ok_cong:
  "p_sockets q = p_sockets p \<Longrightarrow> p_conns q = p_conns p \<Longrightarrow> p_heart q = p_heart p \<Longrightarrow>
     p_timers q = p_timers p \<Longrightarrow> p_next q = p_next p \<Longrightarrow> page_ok q = page_ok p"
  using own_sockets_cong [of q p] by (simp add: page_ok_def)

lemma clear_ok:
  assumes "page_ok p"
  shows "page_ok (clear_reconnect t p)"
proof -
  have "own_sockets (clear_reconnect t p)"
    by (rule own_sockets_same [of p])
      (use assms own_socketsD(5) [of p] in \<open>auto simp: page_ok_def clear_reconnect_def split: option.splits\<close>)
  moreover have "states_ok (clear_reconnect t p) = states_ok p"
    by (simp add: states_ok_def clear_reconnect_def split: option.splits)
  ultimately show ?thesis using assms by (simp add: page_ok_def)
qed

lemma close_connection_ok: "page_ok p \<Longrightarrow> page_ok (closeConnection t p)"
  using clear_ok [of p t] drop_keeps [of "clear_reconnect t p" t] by (simp add: page_ok_def closeConnection_def)

lemma clear_fields [simp]:
  "p_conns (clear_reconnect t p) = p_conns p" "p_sockets (clear_reconnect t p) = p_sockets p"
  "p_clash (clear_reconnect t p) = p_clash p" "p_now (clear_reconnect t p) = p_now p"
  "p_protocol (clear_reconnect t p) = p_protocol p"  "p_network (clear_reconnect t p) = p_network p"
  by (simp_all add: clear_reconnect_def split: option.splits)

lemma close_connection_conns: "p_conns (closeConnection t p) = (p_conns p)(t := None)"
  by (simp add: closeConnection_def drop_fields)

lemma close_all_ok: "page_ok p \<Longrightarrow> page_ok (closeAll p)"
proof -
  assume ok: "page_ok p"
  have "page_ok (foldl (\<lambda>q t. closeConnection t q) p ts)" for ts
    using ok by (induction ts arbitrary: p) (simp_all add: close_connection_ok)
  moreover have "page_ok (closeAll p) = page_ok (foldl (\<lambda>q t. closeConnection t q) p (open_types p))"
    by (rule page_ok_cong) (simp_all add: closeAll_def)
  ultimately show ?thesis by simp
qed

lemma fallback_ok: "own_sockets p \<Longrightarrow> page_ok (enableFallbackMode p)"
  by (simp add: page_ok_def fallback_own)

definition new_connection :: "source \<Rightarrow> jsstr \<Rightarrow> page \<Rightarrow> page" where
  "new_connection t url p =
     p\<lparr>p_sockets := p_sockets p @ [\<lparr>sk_source = t, sk_url = url, sk_state = Opening\<rparr>],
       p_conns := (p_conns p)(t := Some \<lparr>cn_socket = length (p_sockets p), cn_url = url, cn_state = CONNECTING,
                                       cn_activity = p_now p\<rparr>)\<rparr>"

lemma new_connection_ok:
  assumes "page_ok p" and "p_conns p t = None"
  shows "page_ok (new_connection t url p)"
proof -
  let ?q = "new_connection t url p"
  let ?n = "length (p_sockets p)"
  have own: "own_sockets p" and st: "states_ok p" using assms(1) by (simp_all add: page_ok_def)
  have old: "p_sockets ?q ! i = p_sockets p ! i" if "i < ?n" for i using that by (simp add: new_connection_def nth_append)
  have new: "p_sockets ?q ! ?n = \<lparr>sk_source = t, sk_url = url, sk_state = Opening\<rparr>" by (simp add: new_connection_def)
  have conns: "p_conns ?q s = (if s = t then Some \<lparr>cn_socket = ?n, cn_url = url, cn_state = CONNECTING, cn_activity = p_now p\<rparr>
      else p_conns p s)" for s by (simp add: new_connection_def)
  have len: "length (p_sockets ?q) = Suc ?n" by (simp add: new_connection_def)
  have "own_sockets ?q" unfolding own_sockets_def
  proof (intro conjI allI impI ballI)
    fix s c
    assume "p_conns ?q s = Some c"
    then show "cn_socket c < length (p_sockets ?q)" "sk_source (p_sockets ?q ! cn_socket c) = s"
      using own_socketsD(1,2) [OF own, of s c] by (auto simp: conns len old new split: if_splits)
  next
    fix i
    assume "live i ?q"
    then consider "live i p" | "i = ?n" by (cases "i < ?n") (auto simp: live_def len old)
    then show "\<exists>c. p_conns ?q (sk_source (p_sockets ?q ! i)) = Some c \<and> cn_socket c = i"
    proof cases
      case 1
      then obtain c where "p_conns p (sk_source (p_sockets p ! i)) = Some c" "cn_socket c = i"
        using own_socketsD(3) [OF own] by blast
      then show ?thesis using 1 assms(2) by (auto simp: conns old live_def)
    qed (simp add: conns new)
  next
    fix s
    assume "p_heart ?q s \<noteq> None"
    then show "p_conns ?q s \<noteq> None" using own_socketsD(4) [OF own, of s] by (cases "p_conns p s") (auto simp: conns new_connection_def)
  next
    fix r
    assume "r \<in> set (p_timers ?q)"
    then show "rt_id r < p_next ?q" using own_socketsD(5) [OF own] by (simp add: new_connection_def)
  qed
  moreover have "states_ok ?q" unfolding states_ok_def
  proof (intro allI impI)
    fix s c
    assume "p_conns ?q s = Some c"
    then show "cn_state c = CONNECTED \<longleftrightarrow> sk_state (p_sockets ?q ! cn_socket c) = Open"
      using st own_socketsD(1) [OF own, of s c] by (auto simp: conns old new states_ok_def split: if_splits)
  qed
  ultimately show ?thesis by (simp add: page_ok_def)
qed

lemma create_ok:
  assumes "page_ok p"
  shows "page_ok (createConnection b t url p)"
proof -
  have ok: "page_ok (closeConnection t p)" by (rule close_connection_ok [OF assms])
  then have own: "own_sockets (closeConnection t p)" by (simp add: page_ok_def)
  have "page_ok (handleConnectionError t (closeConnection t p))"
    unfolding handleConnectionError_def by (intro fallback_ok schedule_own(1) set_state_own own)
  then show ?thesis
    using fallback_ok [OF own] new_connection_ok [OF ok, of t url]
    by (simp add: createConnection_def Let_def close_connection_conns new_connection_def)
qed

lemma choose_polling_ok: "page_ok (choose_polling p) = page_ok p"
  by (rule page_ok_cong) (simp_all add: choose_polling_def)

lemma sync_ok: "page_ok p \<Longrightarrow> page_ok (syncDataSource b p)"
proof -
  assume ok: "page_ok p"
  have "page_ok (sync_source b req q t)" if "page_ok q" for req q t
    using that by (simp add: sync_source_def create_ok close_connection_ok)
  then have "page_ok q \<Longrightarrow> page_ok (foldl (sync_source b req) q ts)" for req q ts
    by (induction ts arbitrary: q) simp_all
  then show ?thesis using ok by (simp add: syncDataSource_def choose_polling_ok Let_def)
qed

definition with_state :: "nat \<Rightarrow> socket_state \<Rightarrow> page \<Rightarrow> page" where
  "with_state i st p = p\<lparr>p_sockets := (p_sockets p)[i := (p_sockets p ! i)\<lparr>sk_state := st\<rparr>]\<rparr>"

lemma with_state_fields [simp]:
  "p_conns (with_state i st p) = p_conns p" "p_heart (with_state i st p) = p_heart p" "p_timers (with_state i st p) = p_timers p"
  "p_next (with_state i st p) = p_next p" "p_now (with_state i st p) = p_now p" "p_clash (with_state i st p) = p_clash p"
  "p_daip (with_state i st p) = p_daip p" "p_view (with_state i st p) = p_view p"
  "length (p_sockets (with_state i st p)) = length (p_sockets p)"
  "sk_source (p_sockets (with_state i st p) ! j) = sk_source (p_sockets p ! j)"
  by (simp_all add: with_state_def) (metis list_update_beyond not_le nth_list_update socket.select_convs(1) socket.simps(6) socket.surjective socket.update_convs(3))

lemma with_state_own:
  assumes "own_sockets p" and "st = Opening \<or> st = Open \<Longrightarrow> live i p"
  shows "own_sockets (with_state i st p)"
proof -
  have "live j p" if "live j (with_state i st p)" for j
    using that assms(2) by (cases "j = i") (auto simp: live_def with_state_def)
  then show ?thesis using assms(1) own_socketsD [OF assms(1)] unfolding own_sockets_def by simp
qed

lemma start_heartbeat_ok:
  assumes "page_ok p" and "p_conns p t \<noteq> None"
  shows "page_ok (startHeartbeat t p)"
proof -
  have own: "own_sockets p" and st: "states_ok p" using assms(1) by (simp_all add: page_ok_def)
  have "own_sockets (startHeartbeat t p)"
    by (rule own_sockets_same [OF own])
      (use own_socketsD(5) [OF own] assms(2) in \<open>auto simp: startHeartbeat_def split: if_splits\<close>)
  moreover have "states_ok (startHeartbeat t p)" using st by (simp add: states_ok_def startHeartbeat_def)
  ultimately show ?thesis by (simp add: page_ok_def)
qed

lemma opened_ok:
  assumes ok: "page_ok p" and i: "i < length (p_sockets p)" "sk_state (p_sockets p ! i) = Opening"
  shows "page_ok (handleOpen (sk_source (p_sockets p ! i)) (with_state i Open p))"
proof -
  let ?t = "sk_source (p_sockets p ! i)"
  let ?p = "touch ?t (set_state ?t CONNECTED (with_state i Open p))"
  have own: "own_sockets p" and st: "states_ok p" using ok by (simp_all add: page_ok_def)
  obtain c where c: "p_conns p ?t = Some c" "cn_socket c = i" using own_socketsD(3) [OF own] i by (auto simp: live_def)
  have own': "own_sockets ?p"
    using i by (intro touch_own(1) set_state_own with_state_own own) (simp add: live_def)
  have "states_ok ?p" unfolding states_ok_def
  proof (intro allI impI)
    fix s d
    assume d: "p_conns ?p s = Some d"
    show "cn_state d = CONNECTED \<longleftrightarrow> sk_state (p_sockets ?p ! cn_socket d) = Open"
    proof (cases "s = ?t")
      case True
      then show ?thesis using d c i(1) by (auto simp: touch_def set_state_def with_state_def)
    next
      case False
      then have pd: "p_conns p s = Some d" using d by (simp add: touch_def set_state_def)
      then have "cn_socket d \<noteq> i" using own_socketsD(2) [OF own pd] False by auto
      then show ?thesis using st pd by (simp add: touch_def set_state_def with_state_def states_ok_def)
    qed
  qed
  then have "page_ok ?p" using own' by (simp add: page_ok_def)
  moreover have "p_conns ?p ?t \<noteq> None" by (simp add: touch_def set_state_def c)
  ultimately have "page_ok (startHeartbeat ?t ?p)" by (rule start_heartbeat_ok)
  then show ?thesis unfolding handleOpen_def Let_def
    using page_ok_cong [of "(startHeartbeat ?t ?p)\<lparr>p_ws_connect := True, p_network := False\<rparr>" "startHeartbeat ?t ?p"] by simp
qed

lemma failed_ok:
  assumes "page_ok p"
  shows "page_ok (handleError t (with_state i Closing p))"
  unfolding handleError_def
  by (intro fallback_ok schedule_own(1) stopHeartbeat_own(1) set_state_own with_state_own)
    (use assms in \<open>simp_all add: page_ok_def\<close>)

lemma closed_ok:
  assumes ok: "page_ok p" and i: "i < length (p_sockets p)" and t: "t = sk_source (p_sockets p ! i)"
  shows "page_ok (handleClose t i code (with_state i Closed p))"
proof -
  let ?p = "with_state i Closed p"
  have own: "own_sockets p" and st: "states_ok p" using ok by (simp_all add: page_ok_def)
  have own': "own_sockets ?p" by (rule with_state_own [OF own]) simp
  have others: "cn_state d = CONNECTED \<longleftrightarrow> sk_state (p_sockets ?p ! cn_socket d) = Open"
    if "p_conns p s = Some d" "cn_socket d \<noteq> i" for s d
    using st that by (simp add: states_ok_def with_state_def)
  show ?thesis
  proof (cases "\<exists>c. p_conns p t = Some c \<and> cn_socket c = i")
    case False
    have "cn_socket d \<noteq> i" if "p_conns p s = Some d" for s d
      using own_socketsD(2) [OF own that] False that t by auto
    then have "states_ok ?p" using others by (simp add: states_ok_def)
    moreover have "handleClose t i code ?p = ?p" using False by (auto simp: handleClose_def split: option.split)
    ultimately show ?thesis using own' by (simp add: page_ok_def)
  next
    case True
    then obtain c where c: "p_conns p t = Some c" "cn_socket c = i" by blast
    let ?q = "stopHeartbeat t (set_state t DISCONNECTED ?p)"
    have "own_sockets ?q" by (intro stopHeartbeat_own(1) set_state_own own')
    moreover have "states_ok ?q" unfolding states_ok_def
    proof (intro allI impI)
      fix s d
      assume d: "p_conns ?q s = Some d"
      show "cn_state d = CONNECTED \<longleftrightarrow> sk_state (p_sockets ?q ! cn_socket d) = Open"
      proof (cases "s = t")
        case True
        then show ?thesis using d c i by (auto simp: stopHeartbeat_def set_state_def with_state_def)
      next
        case False
        then have pd: "p_conns p s = Some d" using d by (simp add: stopHeartbeat_def set_state_def)
        then have "cn_socket d \<noteq> i" using own_socketsD(2) [OF own pd] False t by auto
        then show ?thesis using others pd by (simp add: stopHeartbeat_def set_state_def)
      qed
    qed
    ultimately show ?thesis using c schedule_own [of ?q t] by (simp add: handleClose_def page_ok_def Let_def)
  qed
qed

lemma reconnect_ok: "page_ok p \<Longrightarrow> page_ok (reconnectConnection b t p)"
  by (simp add: reconnectConnection_def create_ok split: option.split)

lemma heartbeat_ok: "page_ok p \<Longrightarrow> page_ok (heartbeat b t p)"
  by (simp add: heartbeat_def reconnect_ok split: option.split)

lemma message_ok: "page_ok p \<Longrightarrow> page_ok (handleMessage t data p)"
proof -
  assume "page_ok p"
  then have "page_ok (touch t p)" by (simp add: page_ok_def touch_own)
  moreover have "page_ok ((touch t p)\<lparr>p_messages := m\<rparr>) = page_ok (touch t p)" for m by (rule page_ok_cong) simp_all
  ultimately show ?thesis using \<open>page_ok p\<close> by (simp add: handleMessage_def)
qed

lemma visibility_ok:
  assumes "page_ok p"
  shows "page_ok (visibility_changed hidden p)"
proof -
  have "page_ok (foldl (\<lambda>q t. stopHeartbeat t q) p ts)" for ts
    using assms by (induction ts arbitrary: p) (simp_all add: page_ok_def stopHeartbeat_own)
  moreover have "page_ok (foldl (\<lambda>q t. case p_conns q t of
      Some c \<Rightarrow> if cn_state c = CONNECTED then startHeartbeat t q else q | None \<Rightarrow> q) p ts)" for ts
    using assms by (induction ts arbitrary: p) (simp_all add: start_heartbeat_ok split: option.split)
  ultimately show ?thesis by (simp add: visibility_changed_def)
qed

lemma unrelated_fields_ok:
  "page_ok p \<Longrightarrow> page_ok (p\<lparr>p_clash := x, p_daip := y, p_system := z\<rparr>)"
  "page_ok p \<Longrightarrow> page_ok (p\<lparr>p_protocol := pr, p_token := tk\<rparr>)"
  "page_ok p \<Longrightarrow> page_ok (p\<lparr>p_protocol := pr\<rparr>)"
  "page_ok p \<Longrightarrow> page_ok (p\<lparr>p_network := n\<rparr>)"
  "page_ok p \<Longrightarrow> page_ok (p\<lparr>p_view := v\<rparr>)"
  "page_ok p \<Longrightarrow> page_ok (p\<lparr>p_now := t\<rparr>)"
  by (subst page_ok_cong [of _ p]; simp)+

lemma new_status_ok:
  assumes "page_ok p"
  shows "page_ok (new_status b clash daip origin token p)"
  unfolding new_status_def Let_def
  by (simp only: if_split) (intro conjI impI sync_ok close_all_ok unrelated_fields_ok assms)

lemma socket_event_state: "socket_event i sts st h p =
  (if i < length (p_sockets p) \<and> sk_state (p_sockets p ! i) \<in> set sts
   then h (sk_source (p_sockets p ! i)) (with_state i st p) else p)"
  by (simp add: socket_event_def with_state_def)

lemma with_same_state: "sk_state (p_sockets p ! i) = st \<Longrightarrow> with_state i st p = p"
proof -
  assume st: "sk_state (p_sockets p ! i) = st"
  have "(p_sockets p ! i)\<lparr>sk_state := st\<rparr> = p_sockets p ! i" by (simp add: st [symmetric])
  then show ?thesis by (simp add: with_state_def)
qed

lemma heart_tick_ok:
  assumes "page_ok p" and "p_heart p t = Some n"
  shows "page_ok (p\<lparr>p_heart := (p_heart p)(t := Some m)\<rparr>)"
proof -
  have own: "own_sockets p" using assms(1) by (simp add: page_ok_def)
  have "own_sockets (p\<lparr>p_heart := (p_heart p)(t := Some m)\<rparr>)"
    by (rule own_sockets_same [OF own]) (use own_socketsD(5) [OF own] assms(2) in \<open>auto split: if_splits\<close>)
  then show ?thesis using assms(1) by (simp add: page_ok_def states_ok_def)
qed

lemma timer_fired_ok:
  assumes "page_ok p"
  shows "page_ok (p\<lparr>p_timers := filter f (p_timers p), p_pending := g\<rparr>)"
proof -
  have own: "own_sockets p" using assms by (simp add: page_ok_def)
  have "own_sockets (p\<lparr>p_timers := filter f (p_timers p), p_pending := g\<rparr>)"
    by (rule own_sockets_same [OF own]) (use own_socketsD(5) [OF own] in auto)
  then show ?thesis using assms by (simp add: page_ok_def states_ok_def)
qed

lemma page_step_ok:
  assumes "page_ok p"
  shows "page_ok (page_step b p e)"
proof (cases e)
  case (Message i data)
  then show ?thesis using assms by (simp add: page_step_def socket_event_state with_same_state message_ok)
next
  case (Heartbeat t)
  show ?thesis
  proof (cases "p_heart p t")
    case (Some n)
    show ?thesis using assms heartbeat_ok [OF heart_tick_ok [OF assms Some]] by (simp add: page_step_def Heartbeat Some)
  qed (use assms in \<open>simp add: page_step_def Heartbeat\<close>)
next
  case (Reconnect_at i)
  then show ?thesis using assms by (simp add: page_step_def create_ok timer_fired_ok split: option.split)
next
  case (Time n)
  then show ?thesis using assms page_ok_cong [of "p\<lparr>p_now := p_now p + n\<rparr>" p] by (simp add: page_step_def)
next
  case (View v)
  then show ?thesis using assms page_ok_cong [of "p\<lparr>p_view := v\<rparr>" p] by (simp add: page_step_def sync_ok)
next
  case (Opened i)
  then show ?thesis using assms opened_ok [OF assms] by (simp add: page_step_def socket_event_state)
next
  case (Failed i)
  then show ?thesis using assms failed_ok [OF assms] by (simp add: page_step_def socket_event_state)
next
  case (Closed_event i code)
  then show ?thesis using assms closed_ok [OF assms] by (simp add: page_step_def socket_event_state)
next
  case (Visibility hidden)
  then show ?thesis using assms visibility_ok by (simp add: page_step_def)
next
  case (Status clash daip origin token)
  then show ?thesis using assms new_status_ok by (simp add: page_step_def)
qed

lemma first_page_ok: "page_ok (first_page v)"
  by (simp add: page_ok_def own_sockets_def states_ok_def live_def first_page_def)

lemma page_reachable_ok: "page_reachable b p \<Longrightarrow> page_ok p"
  by (induction rule: page_reachable.induct) (simp_all add: first_page_ok page_step_ok)

section \<open>The connections of the page\<close>

lemma has_active_iff: "hasActiveConnections p \<longleftrightarrow> (\<exists>t c. p_conns p t = Some c \<and> cn_state c = CONNECTED)"
proof -
  have "hasActiveConnections p \<longleftrightarrow> (\<exists>t. case p_conns p t of Some c \<Rightarrow> cn_state c = CONNECTED | None \<Rightarrow> False)"
    by (auto simp only: hasActiveConnections_def list_ex_iff all_sources)
  also have "... \<longleftrightarrow> (\<exists>t c. p_conns p t = Some c \<and> cn_state c = CONNECTED)"
    by (intro arg_cong [of _ _ Ex] ext) (simp split: option.split)
  finally show ?thesis .
qed

text \<open>C10: of every source at most one socket is opening or open, and it is the one of the connection of that
  source, however the events of old and new sockets come; the page has active connections exactly while some
  socket is open.\<close>

theorem one_live_socket:
  assumes "page_reachable b p"
  shows "(\<forall>i j. live i p \<and> live j p \<and> sk_source (p_sockets p ! i) = sk_source (p_sockets p ! j) \<longrightarrow> i = j)
    \<and> (\<forall>i. live i p \<longrightarrow> (\<exists>c. p_conns p (sk_source (p_sockets p ! i)) = Some c \<and> cn_socket c = i))
    \<and> (hasActiveConnections p \<longleftrightarrow> (\<exists>i<length (p_sockets p). sk_state (p_sockets p ! i) = Open))"
proof (intro conjI)
  have own: "own_sockets p" and st: "states_ok p" using page_reachable_ok [OF assms] by (simp_all add: page_ok_def)
  show belongs: "\<forall>i. live i p \<longrightarrow> (\<exists>c. p_conns p (sk_source (p_sockets p ! i)) = Some c \<and> cn_socket c = i)"
    using own_socketsD(3) [OF own] by blast
  then show "\<forall>i j. live i p \<and> live j p \<and> sk_source (p_sockets p ! i) = sk_source (p_sockets p ! j) \<longrightarrow> i = j"
    by (metis option.inject)
  show "hasActiveConnections p \<longleftrightarrow> (\<exists>i<length (p_sockets p). sk_state (p_sockets p ! i) = Open)"
  proof
    assume "hasActiveConnections p"
    then obtain t c where c: "p_conns p t = Some c" "cn_state c = CONNECTED" unfolding has_active_iff by blast
    then have "sk_state (p_sockets p ! cn_socket c) = Open" using st unfolding states_ok_def by blast
    then show "\<exists>i<length (p_sockets p). sk_state (p_sockets p ! i) = Open"
      using own_socketsD(1) [OF own c(1)] by blast
  next
    assume "\<exists>i<length (p_sockets p). sk_state (p_sockets p ! i) = Open"
    then obtain i where i: "i < length (p_sockets p)" "sk_state (p_sockets p ! i) = Open" by blast
    then have "live i p" by (simp add: live_def)
    then obtain c where "p_conns p (sk_source (p_sockets p ! i)) = Some c" "cn_socket c = i" using belongs by blast
    then show "hasActiveConnections p" using st i(2) unfolding has_active_iff states_ok_def by blast
  qed
qed

section \<open>Errors\<close>

lemma failed_step:
  assumes "i < length (p_sockets p)" and "sk_state (p_sockets p ! i) \<in> {Opening, Open, Closing}"
  shows "page_step b p (Failed i) = handleError (sk_source (p_sockets p ! i)) (with_state i Closing p)"
  using assms by (simp add: page_step_def socket_event_state)

lemma stop_fields [simp]:
  "p_conns (stopHeartbeat t p) = p_conns p" "p_timers (stopHeartbeat t p) = p_timers p" "p_next (stopHeartbeat t p) = p_next p"
  "p_now (stopHeartbeat t p) = p_now p" "p_clash (stopHeartbeat t p) = p_clash p" "p_daip (stopHeartbeat t p) = p_daip p"
  "p_view (stopHeartbeat t p) = p_view p"
  by (simp_all add: stopHeartbeat_def)

lemma set_state_fields [simp]:
  "p_timers (set_state t st p) = p_timers p" "p_next (set_state t st p) = p_next p" "p_now (set_state t st p) = p_now p"
  "p_clash (set_state t st p) = p_clash p" "p_daip (set_state t st p) = p_daip p" "p_view (set_state t st p) = p_view p"
  "p_conns (set_state t st p) = (p_conns p)(t := map_option (\<lambda>c. c\<lparr>cn_state := st\<rparr>) (p_conns p t))"
  by (simp_all add: set_state_def)

lemma schedule_fields:
  "p_clash (scheduleReconnect t p) = p_clash p" "p_daip (scheduleReconnect t p) = p_daip p"
  "p_view (scheduleReconnect t p) = p_view p" "p_now (scheduleReconnect t p) = p_now p"
  "p_timers (scheduleReconnect t p) = p_timers p
     @ (case p_conns p t of None \<Rightarrow> []
        | Some c \<Rightarrow> [\<lparr>rt_id = p_next p, rt_source = t, rt_url = cn_url c, rt_due = p_now p + reconnectDelay\<rparr>])"
  by (cases "p_conns p t"; simp add: scheduleReconnect_def fallback_fields)+

lemma error_fields:
  "p_conns (handleError t p) = (\<lambda>_. None)" "p_protocol (handleError t p) = None" "\<not> p_ws_connect (handleError t p)"
  "p_clash (handleError t p) = p_clash p" "p_view (handleError t p) = p_view p" "p_now (handleError t p) = p_now p"
  "p_daip (handleError t p) = p_daip p"
  "p_network (handleError t p) \<longleftrightarrow> p_clash p \<and> p_daip p \<and> (p_view p = Cards \<or> required_sockets (p_view p) \<noteq> [])"
  "p_timers (handleError t p) = p_timers p
     @ (case p_conns p t of None \<Rightarrow> []
        | Some c \<Rightarrow> [\<lparr>rt_id = p_next p, rt_source = t, rt_url = cn_url c, rt_due = p_now p + reconnectDelay\<rparr>])"
  unfolding handleError_def by (simp_all add: fallback_fields schedule_fields option.case_eq_if option.map_sel)

text \<open>C13: an error of any socket, even of one the page has replaced or is closing, ends all connections: no socket
  stays open or opening, the page goes over to polling the router if the core runs and the view needs the
  statistics, and one reconnection is planned, 5 seconds later, for the source of the socket, if that had a
  connection, and to the address of that connection.\<close>

theorem error_falls_back:
  assumes "page_reachable b p" and "i < length (p_sockets p)" and "sk_state (p_sockets p ! i) \<in> {Opening, Open, Closing}"
  shows "p_conns (page_step b p (Failed i)) = (\<lambda>_. None)
    \<and> (\<forall>j. \<not> live j (page_step b p (Failed i)))
    \<and> \<not> p_ws_connect (page_step b p (Failed i)) \<and> p_protocol (page_step b p (Failed i)) = None
    \<and> (p_network (page_step b p (Failed i)) \<longleftrightarrow>
         p_clash p \<and> p_daip p \<and> (p_view p = Cards \<or> required_sockets (p_view p) \<noteq> []))
    \<and> p_timers (page_step b p (Failed i)) = p_timers p
        @ (case p_conns p (sk_source (p_sockets p ! i)) of
             None \<Rightarrow> []
           | Some c \<Rightarrow> [\<lparr>rt_id = p_next p, rt_source = sk_source (p_sockets p ! i), rt_url = cn_url c,
                         rt_due = p_now p + 5000\<rparr>])"
proof -
  have "own_sockets (page_step b p (Failed i))"
    using page_reachable_ok [OF page_reachable.step [OF assms(1)]] by (simp add: page_ok_def)
  moreover have "p_conns (page_step b p (Failed i)) = (\<lambda>_. None)" unfolding failed_step [OF assms(2,3)] by (rule error_fields(1))
  ultimately have "\<not> live j (page_step b p (Failed i))" for j by (rule no_conns_dead)
  then show ?thesis unfolding failed_step [OF assms(2,3)] by (simp add: error_fields reconnectDelay_def split: option.split)
qed

section \<open>The data source of the view\<close>

lemma choose_fields [simp]:
  "p_conns (choose_polling p) = p_conns p" "p_protocol (choose_polling p) = p_protocol p" "p_view (choose_polling p) = p_view p"
  by (simp_all add: choose_polling_def)

lemma close_connection_network: "p_network (closeConnection t p) = p_network p"
  by (simp add: closeConnection_def drop_fields)

lemma active_conns: "p_conns q t = p_conns p t \<Longrightarrow> active t q = active t p"
  by (simp add: active_def)

lemma sync_source_conns:
  assumes "br_supported b" and "\<And>u. \<not> br_throws b u"
  shows "s \<noteq> t \<Longrightarrow> p_conns (sync_source b req p t) s = p_conns p s"
    and "t \<in> set req \<Longrightarrow> active t (sync_source b req p t)"
    and "active t p \<Longrightarrow> t \<in> set req \<Longrightarrow> sync_source b req p t = p"
    and "t \<notin> set req \<Longrightarrow> p_conns (sync_source b req p t) t = None"
    and "p_network (sync_source b req p t) = p_network p"
  using assms
  by (simp_all add: sync_source_def createConnection_def Let_def close_connection_conns close_connection_network active_def)

text \<open>C18: once the origin of the web sockets is known, every source that the view needs has a connection that is
  connected or connecting, one that was so is the same as before, the sources that the view does not need have
  none, and the router is not polled for the traffic.\<close>

theorem view_gets_sources:
  assumes "br_supported b" and "\<And>u. \<not> br_throws b u" and "\<not> no_protocol p"
  shows "(\<forall>t\<in>set (required_sockets (p_view p)). active t (syncDataSource b p))
    \<and> (\<forall>t\<in>set (required_sockets (p_view p)). active t p \<longrightarrow> p_conns (syncDataSource b p) t = p_conns p t)
    \<and> (\<forall>t. t \<notin> set (required_sockets (p_view p)) \<longrightarrow> p_conns (syncDataSource b p) t = None)
    \<and> \<not> p_network (syncDataSource b p)"
proof -
  let ?req = "required_sockets (p_view p)"
  let ?f = "sync_source b ?req"
  let ?q = "choose_polling p"
  note step = sync_source_conns [OF assms(1,2), where req = ?req]
  have q: "syncDataSource b p = ?f (?f (?f ?q Traffic) Connections) Memory"
  proof -
    have "\<not> no_protocol ?q" using assms(3) by (simp add: no_protocol_def)
    then show ?thesis by (simp add: syncDataSource_def sources_def Let_def)
  qed
  have turn: "\<exists>r. p_conns (syncDataSource b p) t = p_conns (?f r t) t \<and> p_conns r t = p_conns p t" for t
  proof (cases t)
    case Traffic
    show ?thesis by (rule exI [of _ ?q]) (simp add: q Traffic step(1))
  next
    case Connections
    show ?thesis by (rule exI [of _ "?f ?q Traffic"]) (simp add: q Connections step(1))
  next
    case Memory
    show ?thesis by (rule exI [of _ "?f (?f ?q Traffic) Connections"]) (simp add: q Memory step(1))
  qed
  have "\<not> p_network (syncDataSource b p)"
    using assms(3) by (simp add: q step(5) choose_polling_def no_protocol_def)
  moreover have "active t (syncDataSource b p)" if "t \<in> set ?req" for t
    using turn [of t] step(2) [OF that] active_conns by metis
  moreover have "p_conns (syncDataSource b p) t = p_conns p t" if "t \<in> set ?req" "active t p" for t
    using turn [of t] step(3) [OF _ that(1)] active_conns [of _ t p] that(2) by metis
  moreover have "p_conns (syncDataSource b p) t = None" if "t \<notin> set ?req" for t
    using turn [of t] step(4) [OF that] by metis
  ultimately show ?thesis by blast
qed

section \<open>A reconnection that outlives the core\<close>

lemma no_open_types: "p_conns p = (\<lambda>_. None) \<Longrightarrow> closeAll p = p\<lparr>p_ws_connect := False\<rparr>"
  by (simp add: closeAll_def open_types_def)

lemma find_last: "\<forall>x\<in>set xs. \<not> f x \<Longrightarrow> f y \<Longrightarrow> find f (xs @ [y]) = Some y"
  by (induction xs) simp_all

text \<open>C39: when the socket of a connection fails and the core then stops, the page closes all its connections but the
  planned reconnection stays: 5 seconds later the page opens a new socket to the address of the stopped core.\<close>

theorem reconnection_outlives_core:
  assumes "page_reachable b p" and "i < length (p_sockets p)" and "sk_state (p_sockets p ! i) \<in> {Opening, Open}"
    and "br_supported b" and "\<And>u. \<not> br_throws b u"
    and "q = foldl (page_step b) p [Failed i, Status False daip origin token, Time 5000, Reconnect_at (p_next p)]"
  shows "\<not> p_clash q \<and> p_protocol q = None
    \<and> (\<exists>c d. p_conns p (sk_source (p_sockets p ! i)) = Some d
         \<and> p_conns q (sk_source (p_sockets p ! i)) = Some c \<and> cn_url c = cn_url d \<and> cn_state c = CONNECTING
         \<and> live (cn_socket c) q)"
proof -
  let ?t = "sk_source (p_sockets p ! i)"
  have own: "own_sockets p" using page_reachable_ok [OF assms(1)] by (simp add: page_ok_def)
  have "live i p" using assms(2,3) by (simp add: live_def)
  then obtain d where d: "p_conns p ?t = Some d" using own_socketsD(3) [OF own] by blast
  let ?r = "\<lparr>rt_id = p_next p, rt_source = ?t, rt_url = cn_url d, rt_due = p_now p + 5000\<rparr>"
  let ?p1 = "page_step b p (Failed i)"
  have st: "sk_state (p_sockets p ! i) \<in> {Opening, Open, Closing}" using assms(3) by blast
  note err = error_falls_back [OF assms(1,2) st]
  have p1: "p_conns ?p1 = (\<lambda>_. None)" "p_protocol ?p1 = None" "p_timers ?p1 = p_timers p @ [?r]" "p_now ?p1 = p_now p"
    using err by (simp_all add: d failed_step [OF assms(2) st] error_fields with_state_def)
  let ?p2 = "page_step b ?p1 (Status False daip origin token)"
  have p2: "p_conns ?p2 = (\<lambda>_. None)" "p_timers ?p2 = p_timers p @ [?r]" "p_now ?p2 = p_now p" "\<not> p_clash ?p2" "p_protocol ?p2 = None"
    using p1 by (simp_all add: page_step_def new_status_def no_open_types)
  let ?p3 = "page_step b ?p2 (Time 5000)"
  have p3: "p_conns ?p3 = (\<lambda>_. None)" "p_timers ?p3 = p_timers p @ [?r]" "p_now ?p3 = p_now p + 5000" "\<not> p_clash ?p3" "p_protocol ?p3 = None"
    using p2 by (simp_all add: page_step_def)
  have "find (\<lambda>r. rt_id r = p_next p \<and> rt_due r \<le> p_now ?p3) (p_timers ?p3) = Some ?r"
    unfolding p3 by (rule find_last) (use own_socketsD(5) [OF own] in \<open>fastforce+\<close>)
  then have "q = createConnection b ?t (cn_url d)
      (?p3\<lparr>p_timers := filter (\<lambda>r. rt_id r \<noteq> p_next p) (p_timers ?p3), p_pending := (p_pending ?p3)(?t := None)\<rparr>)"
    by (simp add: assms(6) page_step_def [of b ?p3 "Reconnect_at (p_next p)"])
  then show ?thesis using d p3 assms(4,5)
    by (simp add: createConnection_def closeConnection_def drop_fields live_def Let_def clear_reconnect_def drop_connection_def)
qed

section \<open>Inputs to apply them to\<close>

definition plain_browser :: browser where
  "plain_browser = \<lparr>br_supported = True, br_throws = (\<lambda>_. False)\<rparr>"

definition demo_page :: page where
  "demo_page = foldl (page_step plain_browser) (first_page Cards) [Status True True [0x77] [], Opened 0]"

lemma reachable_steps: "page_reachable b p \<Longrightarrow> page_reachable b (foldl (page_step b) p es)"
  by (induction es arbitrary: p) (simp_all add: page_reachable.step)

lemma demo_reachable: "page_reachable plain_browser demo_page"
  unfolding demo_page_def by (rule reachable_steps) (rule page_reachable.first)

lemmas sync_defs = syncDataSource_def sync_source_def choose_polling_def no_protocol_def sources_def required_sockets_def
  createConnection_def closeConnection_def clear_reconnect_def drop_connection_def active_def

lemma demo_page_sockets:
  "map (\<lambda>s. (sk_source s, sk_state s)) (p_sockets demo_page) = [(Traffic, Open), (Connections, Opening), (Memory, Opening)]
   \<and> p_protocol demo_page = Some [0x77]"
  by (simp add: demo_page_def page_step_def new_status_def sync_defs first_page_def plain_browser_def socket_event_def
      handleOpen_def startHeartbeat_def touch_def set_state_def Let_def)

lemma demo_page_length: "length (p_sockets demo_page) = 3" "sk_state (p_sockets demo_page ! 0) = Open"
  using demo_page_sockets by (auto simp: map_eq_Cons_conv)

theorem one_live_socket_witness: "hasActiveConnections demo_page"
  using one_live_socket [OF demo_reachable] demo_page_length by force

theorem error_falls_back_witness:
  "p_conns (page_step plain_browser demo_page (Failed 0)) = (\<lambda>_. None)"
  using error_falls_back [OF demo_reachable, of 0] demo_page_length by simp

theorem view_gets_sources_witness:
  "active Memory (syncDataSource plain_browser (demo_page\<lparr>p_view := Chart (js ''memory'')\<rparr>))"
proof -
  have "\<not> no_protocol (demo_page\<lparr>p_view := Chart (js ''memory'')\<rparr>)"
    using demo_page_sockets by (simp add: no_protocol_def)
  moreover have "Memory \<in> set (required_sockets (p_view (demo_page\<lparr>p_view := Chart (js ''memory'')\<rparr>)))"
    by (simp add: required_sockets_def)
  ultimately show ?thesis
    using view_gets_sources [of plain_browser "demo_page\<lparr>p_view := Chart (js ''memory'')\<rparr>"] by (simp add: plain_browser_def)
qed

theorem reconnection_outlives_core_witness:
  "\<not> p_clash (foldl (page_step plain_browser) demo_page
     [Failed 0, Status False False [] [], Time 5000, Reconnect_at (p_next demo_page)])"
  using reconnection_outlives_core [OF demo_reachable, of 0, OF _ _ _ _ refl] demo_page_length
  by (simp add: plain_browser_def)

end
