(* ===== verification/StatusRequests.thy ===== *)
theory StatusRequests
  imports JsString "HOL-Library.Multiset"
begin

text \<open>
  The requests of the OpenClash status page, \<open>openclash/js/status.js\<close>: \<open>StateManager\<close>, which caches the answers of
  the router and joins requests for the same address, its requests with retries, and the two managers that
  poll the router with it. The network answers the requests of the page in any order or never. A callback is
  a value of the type \<open>'c\<close>; a step yields the callbacks it calls, with what they get. What the handlers write on
  the page is not modelled.
\<close>

section \<open>The request cache\<close>

text \<open>What a callback gets: \<open>x.status\<close>, \<open>x.fromCache\<close>, \<open>x.stale\<close> and the data, \<open>None\<close> if there are none.\<close>

record answer_data =
  ad_status :: nat
  ad_cached :: bool
  ad_stale :: bool
  ad_data :: "jsstr option"

record xhr_request =
  xr_id :: nat
  xr_key :: jsstr
  xr_silent :: bool

text \<open>A callback that waits for its timer of 0 ms: its key, and whether the entry was stale.\<close>

record 'c soon =
  so_callback :: 'c
  so_key :: jsstr
  so_stale :: bool

record 'c state_manager =
  sm_now :: nat
  sm_cache :: "jsstr \<Rightarrow> jsstr option"
  sm_time :: "jsstr \<Rightarrow> nat option"
  sm_ttl :: nat
  sm_pending :: "jsstr \<Rightarrow> 'c list option"
  sm_requests :: "xhr_request list"
  sm_next :: nat
  sm_soon :: "'c soon list"

definition cacheKey :: "jsstr \<Rightarrow> jsstr option \<Rightarrow> jsstr" where
  \<comment> \<open>the parameters as the JSON text of them\<close>
  "cacheKey url params = url @ (case params of None \<Rightarrow> [] | Some j \<Rightarrow> j)"

definition send_xhr :: "jsstr \<Rightarrow> bool \<Rightarrow> 'c state_manager \<Rightarrow> 'c state_manager" where
  \<comment> \<open>\<open>XHR.get\<close>\<close>
  "send_xhr key silent s =
     s\<lparr>sm_requests := sm_requests s @ [\<lparr>xr_id = sm_next s, xr_key = key, xr_silent = silent\<rparr>], sm_next := Suc (sm_next s)\<rparr>"

definition refreshCacheSilent :: "jsstr \<Rightarrow> 'c state_manager \<Rightarrow> 'c state_manager" where
  "refreshCacheSilent key s = send_xhr key True s"

definition cache_stale :: "jsstr \<Rightarrow> 'c state_manager \<Rightarrow> bool" where
  \<comment> \<open>an entry without a time is not stale, the difference is no number\<close>
  "cache_stale key s = (case sm_time s key of Some n \<Rightarrow> sm_ttl s \<le> sm_now s - n | None \<Rightarrow> False)"

definition cachedXHR :: "jsstr \<Rightarrow> 'c \<Rightarrow> bool \<Rightarrow> 'c state_manager \<Rightarrow> 'c state_manager" where
  "cachedXHR key callback force s =
     (case sm_pending s key of
        Some cbs \<Rightarrow> s\<lparr>sm_pending := (sm_pending s)(key := Some (cbs @ [callback]))\<rparr>
      | None \<Rightarrow>
          if \<not> force \<and> sm_cache s key \<noteq> None
          then (let stale = cache_stale key s;
                    s1 = s\<lparr>sm_soon := sm_soon s @ [\<lparr>so_callback = callback, so_key = key, so_stale = stale\<rparr>]\<rparr>
                in if stale then refreshCacheSilent key s1 else s1)
          else send_xhr key False (s\<lparr>sm_pending := (sm_pending s)(key := Some [callback])\<rparr>))"

definition store_answer :: "jsstr \<Rightarrow> nat \<Rightarrow> jsstr option \<Rightarrow> 'c state_manager \<Rightarrow> 'c state_manager" where
  "store_answer key status data s =
     (if status = 200 \<and> data \<noteq> None
      then s\<lparr>sm_cache := (sm_cache s)(key := data), sm_time := (sm_time s)(key := Some (sm_now s))\<rparr> else s)"

definition xhr_answer :: "nat \<Rightarrow> nat \<Rightarrow> jsstr option \<Rightarrow> 'c state_manager \<Rightarrow> 'c state_manager \<times> ('c \<times> answer_data) list" where
  \<comment> \<open>the answer to a request that runs\<close>
  "xhr_answer i status data s =
     (case find (\<lambda>r. xr_id r = i) (sm_requests s) of
        None \<Rightarrow> (s, [])
      | Some r \<Rightarrow>
          let key = xr_key r; s1 = s\<lparr>sm_requests := filter (\<lambda>r. xr_id r \<noteq> i) (sm_requests s)\<rparr> in
          if xr_silent r then (store_answer key status data s1, [])
          else
            let callbacks = (case sm_pending s key of Some cbs \<Rightarrow> cbs | None \<Rightarrow> []);
                s2 = store_answer key status data (s1\<lparr>sm_pending := (sm_pending s1)(key := None)\<rparr>)
            in (s2, map (\<lambda>cb. (cb, \<lparr>ad_status = status, ad_cached = False, ad_stale = False, ad_data = data\<rparr>)) callbacks))"

definition soon_fires :: "'c state_manager \<Rightarrow> 'c state_manager \<times> ('c \<times> answer_data) list" where
  \<comment> \<open>the timers of 0 ms run in their order; the entry is read when the timer runs\<close>
  "soon_fires s =
     (case sm_soon s of
        [] \<Rightarrow> (s, [])
      | d # ds \<Rightarrow> (s\<lparr>sm_soon := ds\<rparr>,
          [(so_callback d, \<lparr>ad_status = 200, ad_cached = True, ad_stale = so_stale d, ad_data = sm_cache s (so_key d)\<rparr>)]))"

definition clearCache :: "jsstr \<Rightarrow> 'c state_manager \<Rightarrow> 'c state_manager" where
  "clearCache key s = s\<lparr>sm_cache := (sm_cache s)(key := None), sm_time := (sm_time s)(key := None)\<rparr>"

definition clearAllCache :: "'c state_manager \<Rightarrow> 'c state_manager" where
  "clearAllCache s = s\<lparr>sm_cache := (\<lambda>_. None), sm_time := (\<lambda>_. None)\<rparr>"

definition hasCache :: "jsstr \<Rightarrow> 'c state_manager \<Rightarrow> bool" where
  "hasCache key s \<longleftrightarrow> sm_cache s key \<noteq> None"

definition getCacheAge :: "jsstr \<Rightarrow> 'c state_manager \<Rightarrow> nat option" where
  "getCacheAge key s =
     (case sm_time s key of Some n \<Rightarrow> if n = 0 then None else Some (sm_now s - n) | None \<Rightarrow> None)"

datatype 'c request_event =
    Call jsstr 'c bool
  | Answer nat nat "jsstr option"
  | Soon
  | Clear jsstr
  | Clear_all
  | Ttl nat
  | Clock nat

definition request_step ::
  "'c state_manager \<Rightarrow> 'c request_event \<Rightarrow> 'c state_manager \<times> ('c \<times> answer_data) list" where
  "request_step s e =
     (case e of
        Call key cb force \<Rightarrow> (cachedXHR key cb force s, [])
      | Answer i status data \<Rightarrow> xhr_answer i status data s
      | Soon \<Rightarrow> soon_fires s
      | Clear key \<Rightarrow> (clearCache key s, [])
      | Clear_all \<Rightarrow> (clearAllCache s, [])
      | Ttl n \<Rightarrow> (s\<lparr>sm_ttl := n\<rparr>, [])
      | Clock n \<Rightarrow> (s\<lparr>sm_now := sm_now s + n\<rparr>, []))"

fun request_run ::
  "'c state_manager \<Rightarrow> 'c request_event list \<Rightarrow> 'c state_manager \<times> ('c \<times> answer_data) list" where
  "request_run s [] = (s, [])"
| "request_run s (e # es) =
     (let (s1, out1) = request_step s e; (s2, out2) = request_run s1 es in (s2, out1 @ out2))"

definition first_manager :: "'c state_manager" where
  "first_manager =
     \<lparr>sm_now = 0, sm_cache = (\<lambda>_. None), sm_time = (\<lambda>_. None), sm_ttl = 5000, sm_pending = (\<lambda>_. None),
      sm_requests = [], sm_next = 0, sm_soon = []\<rparr>"

section \<open>Retries and polling\<close>

datatype poll_manager = SystemStatusManager | NetworkStatsManager

datatype client = Page nat | Retrying nat | Polling poll_manager

text \<open>The variables of a call of \<open>cachedXHRGetWithRetry\<close>; \<open>rc_caller\<close> is its callback.\<close>

record retry_call =
  rc_caller :: nat
  rc_key :: jsstr
  rc_force :: bool
  rc_max :: nat
  rc_count :: nat

datatype task = Attempt nat | Poll poll_manager

record page_timer =
  pt_id :: nat
  pt_due :: nat
  pt_task :: task

text \<open>
  \<open>sp_given\<close> is what the callers of the page got, \<open>sp_fed\<close> what the polling managers showed: the data, or \<open>None\<close>
  where \<open>handleError\<close> shows zeros.
\<close>

record status_requests =
  sp_manager :: "client state_manager"
  sp_retries :: "nat \<Rightarrow> retry_call option"
  sp_retry_next :: nat
  sp_enabled :: "poll_manager \<Rightarrow> bool"
  sp_poll_timer :: "poll_manager \<Rightarrow> nat option"
  sp_interval :: "poll_manager \<Rightarrow> nat"
  sp_timers :: "page_timer list"
  sp_timer_next :: nat
  sp_given :: "(nat \<times> answer_data) list"
  sp_fed :: "(poll_manager \<times> jsstr option) list"

definition set_timer :: "nat \<Rightarrow> task \<Rightarrow> status_requests \<Rightarrow> status_requests" where
  \<comment> \<open>\<open>setTimeout\<close>\<close>
  "set_timer delay t p =
     p\<lparr>sp_timers := sp_timers p @ [\<lparr>pt_id = sp_timer_next p, pt_due = sm_now (sp_manager p) + delay, pt_task = t\<rparr>],
       sp_timer_next := Suc (sp_timer_next p)\<rparr>"

definition request_for :: "jsstr \<Rightarrow> client \<Rightarrow> bool \<Rightarrow> status_requests \<Rightarrow> status_requests" where
  "request_for key c force p = p\<lparr>sp_manager := cachedXHR key c force (sp_manager p)\<rparr>"

definition attemptRequest :: "nat \<Rightarrow> status_requests \<Rightarrow> status_requests" where
  "attemptRequest i p =
     (case sp_retries p i of
        None \<Rightarrow> p
      | Some r \<Rightarrow> request_for (rc_key r) (Retrying i) (rc_force r \<and> rc_count r = 0) p)"

definition cachedXHRGetWithRetry :: "nat \<Rightarrow> jsstr \<Rightarrow> bool \<Rightarrow> nat \<Rightarrow> status_requests \<Rightarrow> status_requests" where
  "cachedXHRGetWithRetry caller key force maxRetries p =
     attemptRequest (sp_retry_next p)
       (p\<lparr>sp_retries := (sp_retries p)(sp_retry_next p \<mapsto>
            \<lparr>rc_caller = caller, rc_key = key, rc_force = force, rc_max = (if maxRetries = 0 then 3 else maxRetries), rc_count = 0\<rparr>),
          sp_retry_next := Suc (sp_retry_next p)\<rparr>)"

definition retry_answered :: "nat \<Rightarrow> answer_data \<Rightarrow> status_requests \<Rightarrow> status_requests" where
  \<comment> \<open>the callback of an attempt; a call that has called back is forgotten\<close>
  "retry_answered i a p =
     (case sp_retries p i of
        None \<Rightarrow> p
      | Some r \<Rightarrow>
          if ad_status a \<noteq> 200 \<and> rc_count r < rc_max r
          then set_timer (1000 * Suc (rc_count r)) (Attempt i)
                 (p\<lparr>sp_retries := (sp_retries p)(i \<mapsto> r\<lparr>rc_count := Suc (rc_count r)\<rparr>)\<rparr>)
          else p\<lparr>sp_retries := (sp_retries p)(i := None), sp_given := sp_given p @ [(rc_caller r, a)]\<rparr>)"

definition poll :: "(poll_manager \<Rightarrow> jsstr) \<Rightarrow> poll_manager \<Rightarrow> status_requests \<Rightarrow> status_requests" where
  "poll url m p = (if sp_enabled p m then request_for (url m) (Polling m) True p else p)"

definition poll_answered :: "poll_manager \<Rightarrow> answer_data \<Rightarrow> status_requests \<Rightarrow> status_requests" where
  "poll_answered m a p =
     (let p1 = p\<lparr>sp_fed := sp_fed p @ [(m, if ad_status a = 200 then ad_data a else None)]\<rparr> in
      if sp_enabled p m
      then (set_timer (sp_interval p m) (Poll m) p1)\<lparr>sp_poll_timer := (sp_poll_timer p)(m \<mapsto> sp_timer_next p)\<rparr>
      else p1)"

definition start_polling :: "(poll_manager \<Rightarrow> jsstr) \<Rightarrow> poll_manager \<Rightarrow> status_requests \<Rightarrow> status_requests" where
  "start_polling url m p =
     (if sp_enabled p m then p else poll url m (p\<lparr>sp_enabled := (sp_enabled p)(m := True)\<rparr>))"

definition stop_polling :: "poll_manager \<Rightarrow> status_requests \<Rightarrow> status_requests" where
  "stop_polling m p =
     (let p1 = p\<lparr>sp_enabled := (sp_enabled p)(m := False)\<rparr> in
      case sp_poll_timer p m of
        None \<Rightarrow> p1
      | Some i \<Rightarrow> p1\<lparr>sp_timers := filter (\<lambda>t. pt_id t \<noteq> i) (sp_timers p), sp_poll_timer := (sp_poll_timer p)(m := None)\<rparr>)"

definition deliver :: "status_requests \<Rightarrow> client \<times> answer_data \<Rightarrow> status_requests" where
  "deliver p ca =
     (case ca of
        (Page n, a) \<Rightarrow> p\<lparr>sp_given := sp_given p @ [(n, a)]\<rparr>
      | (Retrying i, a) \<Rightarrow> retry_answered i a p
      | (Polling m, a) \<Rightarrow> poll_answered m a p)"

datatype status_event =
    Page_call jsstr nat bool
  | Retry_call jsstr nat bool nat
  | Start poll_manager
  | Stop poll_manager
  | Interval poll_manager nat
  | Timer nat
  | Manager "client request_event"

definition status_step :: "(poll_manager \<Rightarrow> jsstr) \<Rightarrow> status_requests \<Rightarrow> status_event \<Rightarrow> status_requests" where
  \<comment> \<open>calls of the request cache by the page have an event of their own\<close>
  "status_step url p e =
     (case e of
        Page_call key n force \<Rightarrow> request_for key (Page n) force p
      | Retry_call key n force maxRetries \<Rightarrow> cachedXHRGetWithRetry n key force maxRetries p
      | Start m \<Rightarrow> start_polling url m p
      | Stop m \<Rightarrow> stop_polling m p
      | Interval m n \<Rightarrow> p\<lparr>sp_interval := (sp_interval p)(m := n)\<rparr>
      | Timer i \<Rightarrow>
          (case find (\<lambda>t. pt_id t = i \<and> pt_due t \<le> sm_now (sp_manager p)) (sp_timers p) of
             None \<Rightarrow> p
           | Some t \<Rightarrow>
               let p1 = p\<lparr>sp_timers := filter (\<lambda>t. pt_id t \<noteq> i) (sp_timers p)\<rparr> in
               case pt_task t of Attempt j \<Rightarrow> attemptRequest j p1 | Poll m \<Rightarrow> poll url m p1)
      | Manager (Call key c force) \<Rightarrow> p
      | Manager e \<Rightarrow>
          let (s, out) = request_step (sp_manager p) e in foldl deliver (p\<lparr>sp_manager := s\<rparr>) out)"

definition first_requests :: status_requests where
  "first_requests =
     \<lparr>sp_manager = first_manager, sp_retries = (\<lambda>_. None), sp_retry_next = 0, sp_enabled = (\<lambda>_. False),
      sp_poll_timer = (\<lambda>_. None), sp_interval = (\<lambda>m. case m of SystemStatusManager \<Rightarrow> 5000 | NetworkStatsManager \<Rightarrow> 3000),
      sp_timers = [], sp_timer_next = 0, sp_given = [], sp_fed = []\<rparr>"

inductive requests_reachable :: "(poll_manager \<Rightarrow> jsstr) \<Rightarrow> status_requests \<Rightarrow> bool" for url where
  first: "requests_reachable url first_requests"
| step: "requests_reachable url p \<Longrightarrow> requests_reachable url (status_step url p e)"

section \<open>Every call is answered once\<close>

definition waits :: "(jsstr \<Rightarrow> 'c list option) \<Rightarrow> 'c multiset" where
  "waits f = (\<Sum>k\<in>dom f. mset (the (f k)))"

definition waiting :: "'c state_manager \<Rightarrow> 'c multiset" where
  \<comment> \<open>the callbacks that were not called yet\<close>
  "waiting s = waits (sm_pending s) + mset (map so_callback (sm_soon s))"

definition loading :: "'c state_manager \<Rightarrow> jsstr list" where
  \<comment> \<open>the keys of the requests that are not silent\<close>
  "loading s = map xr_key (filter (\<lambda>r. \<not> xr_silent r) (sm_requests s))"

definition sm_ok :: "'c state_manager \<Rightarrow> bool" where
  "sm_ok s \<longleftrightarrow> distinct (map xr_id (sm_requests s)) \<and> (\<forall>r\<in>set (sm_requests s). xr_id r < sm_next s)
     \<and> distinct (loading s) \<and> dom (sm_pending s) = set (loading s)"

lemma sm_okD: "sm_ok s \<Longrightarrow> finite (dom (sm_pending s))"
  by (simp add: sm_ok_def)

lemma sm_ok_cong:
  "sm_pending s' = sm_pending s \<Longrightarrow> sm_requests s' = sm_requests s \<Longrightarrow> sm_next s' = sm_next s \<Longrightarrow>
     sm_soon s' = sm_soon s \<Longrightarrow> sm_ok s' = sm_ok s \<and> waiting s' = waiting s"
  by (simp add: sm_ok_def loading_def waiting_def)

lemma waits_new: "finite (dom f) \<Longrightarrow> f k = None \<Longrightarrow> waits (f(k \<mapsto> v)) = waits f + mset v"
proof -
  assume fin: "finite (dom f)" and k: "f k = None"
  then have "waits (f(k \<mapsto> v)) = mset v + (\<Sum>j\<in>dom f. mset (the ((f(k \<mapsto> v)) j)))"
    by (simp add: waits_def domIff)
  also have "(\<Sum>j\<in>dom f. mset (the ((f(k \<mapsto> v)) j))) = waits f"
    unfolding waits_def by (rule sum.cong) (use k in auto)
  finally show ?thesis by (simp only: add.commute)
qed

lemma waits_remove: "finite (dom f) \<Longrightarrow> f k = Some v \<Longrightarrow> waits f = waits (f(k := None)) + mset v"
  using waits_new [of "f(k := None)" k v] by (simp add: fun_upd_idem)

lemma waits_add: "finite (dom f) \<Longrightarrow> f k = Some v \<Longrightarrow> waits (f(k \<mapsto> v @ [c])) = add_mset c (waits f)"
  using waits_remove [of f k v] waits_new [of "f(k := None)" k "v @ [c]"] by simp

lemma send_fields [simp]:
  "sm_pending (send_xhr k b s) = sm_pending s" "sm_soon (send_xhr k b s) = sm_soon s"
  "loading (send_xhr k b s) = loading s @ (if b then [] else [k])" "sm_now (send_xhr k b s) = sm_now s"
  by (simp_all add: send_xhr_def loading_def)

lemma store_fields [simp]:
  "sm_pending (store_answer k st d s) = sm_pending s" "sm_soon (store_answer k st d s) = sm_soon s"
  "sm_requests (store_answer k st d s) = sm_requests s" "sm_next (store_answer k st d s) = sm_next s"
  "sm_now (store_answer k st d s) = sm_now s"
  by (simp_all add: store_answer_def)

lemma cached_xhr_waiting:
  assumes "sm_ok s"
  shows "waiting (cachedXHR key c force s) = add_mset c (waiting s)"
  using waits_new [of "sm_pending s" key "[c]"] waits_add [of "sm_pending s" key _ c] sm_okD [OF assms]
  by (auto simp: cachedXHR_def waiting_def refreshCacheSilent_def Let_def split: option.split)

lemma loading_fields [simp]:
  "loading (s\<lparr>sm_pending := x\<rparr>) = loading s" "loading (s\<lparr>sm_soon := y\<rparr>) = loading s"
  by (simp_all add: loading_def)

lemma send_ids: "sm_ok s \<Longrightarrow> distinct (map xr_id (sm_requests (send_xhr k b s)))
  \<and> (\<forall>r\<in>set (sm_requests (send_xhr k b s)). xr_id r < sm_next (send_xhr k b s))"
  by (fastforce simp: send_xhr_def sm_ok_def)

lemma soon_ok [simp]: "sm_ok (s\<lparr>sm_soon := x\<rparr>) = sm_ok s"
  by (simp add: sm_ok_def)

lemma silent_ok: "sm_ok s \<Longrightarrow> sm_ok (refreshCacheSilent k s)"
  using send_ids [of s k True] by (simp add: sm_ok_def refreshCacheSilent_def)

lemma send_ok:
  assumes "sm_ok s" and "sm_pending s k = None"
  shows "sm_ok (send_xhr k False (s\<lparr>sm_pending := (sm_pending s)(k \<mapsto> cbs)\<rparr>))"
proof -
  have "k \<notin> set (loading s)" using assms by (auto simp: sm_ok_def)
  moreover have "distinct (map xr_id (sm_requests (send_xhr k False s)))
      \<and> (\<forall>r\<in>set (sm_requests (send_xhr k False s)). xr_id r < sm_next (send_xhr k False s))"
    using send_ids [OF assms(1)] by blast
  then have "distinct (map xr_id (sm_requests (send_xhr k False (s\<lparr>sm_pending := f\<rparr>))))
      \<and> (\<forall>r\<in>set (sm_requests (send_xhr k False (s\<lparr>sm_pending := f\<rparr>))). xr_id r < sm_next (send_xhr k False (s\<lparr>sm_pending := f\<rparr>)))"
    for f by (simp add: send_xhr_def)
  ultimately show ?thesis using assms(1) by (auto simp: sm_ok_def)
qed

lemma cached_xhr_ok:
  assumes "sm_ok s"
  shows "sm_ok (cachedXHR key c force s)"
proof (cases "sm_pending s key")
  case None
  then show ?thesis using assms by (simp add: cachedXHR_def Let_def silent_ok send_ok)
next
  case (Some cbs)
  then have "insert key (dom (sm_pending s)) = dom (sm_pending s)" by auto
  then show ?thesis using assms Some by (simp add: sm_ok_def cachedXHR_def)
qed

lemma answered:
  assumes "sm_ok s" and "r \<in> set (sm_requests s)"
  shows "\<exists>xs ys. sm_requests s = xs @ r # ys \<and> filter (\<lambda>x. xr_id x \<noteq> xr_id r) (sm_requests s) = xs @ ys
     \<and> find (\<lambda>x. xr_id x = xr_id r) (sm_requests s) = Some r"
proof -
  obtain xs ys where s: "sm_requests s = xs @ r # ys" using assms(2) by (meson split_list)
  then have "xr_id r \<notin> xr_id ` set xs" "xr_id r \<notin> xr_id ` set ys" using assms(1) by (auto simp: sm_ok_def)
  moreover have "xr_id r \<notin> xr_id ` set zs \<Longrightarrow> find (\<lambda>x. xr_id x = xr_id r) (zs @ r # ys) = Some r" for zs
    by (induction zs) auto
  moreover have "filter (\<lambda>x. xr_id x \<noteq> xr_id r) zs = zs" if "xr_id r \<notin> xr_id ` set zs" for zs
    using that by (induction zs) auto
  ultimately have "find (\<lambda>x. xr_id x = xr_id r) (xs @ r # ys) = Some r"
    "filter (\<lambda>x. xr_id x \<noteq> xr_id r) xs = xs" "filter (\<lambda>x. xr_id x \<noteq> xr_id r) ys = ys" by simp_all
  then show ?thesis using s by auto
qed

lemma answer_ok:
  assumes ok: "sm_ok s" and ans: "xhr_answer i status data s = (s', out)"
  shows "sm_ok s' \<and> waiting s = waiting s' + mset (map fst out)"
proof (cases "find (\<lambda>r. xr_id r = i) (sm_requests s)")
  case None
  then show ?thesis using assms by (simp add: xhr_answer_def)
next
  case (Some r)
  then have r: "r \<in> set (sm_requests s)" "xr_id r = i" by (auto simp: find_Some_iff)
  obtain xs ys where reqs: "sm_requests s = xs @ r # ys" "filter (\<lambda>x. xr_id x \<noteq> i) (sm_requests s) = xs @ ys"
    using answered [OF ok r(1)] r(2) by auto
  let ?fg = "\<lambda>zs. map xr_key (filter (\<lambda>r. \<not> xr_silent r) zs)"
  show ?thesis
  proof (cases "xr_silent r")
    case True
    then have s': "s' = store_answer (xr_key r) status data (s\<lparr>sm_requests := xs @ ys\<rparr>)" and out: "out = []"
      using ans by (simp_all add: xhr_answer_def Some Let_def reqs(2))
    have load: "loading s' = loading s" using reqs(1) True by (simp add: s' loading_def)
    have "sm_ok s'" unfolding sm_ok_def load using ok reqs(1) by (simp add: s' sm_ok_def)
    then show ?thesis by (simp add: s' out waiting_def)
  next
    case False
    then have load: "loading s = ?fg xs @ xr_key r # ?fg ys" using reqs(1) by (simp add: loading_def)
    then have "xr_key r \<in> dom (sm_pending s)" using ok by (simp add: sm_ok_def)
    then obtain cbs where cbs: "sm_pending s (xr_key r) = Some cbs" by blast
    have s': "s' = store_answer (xr_key r) status data
        (s\<lparr>sm_requests := xs @ ys, sm_pending := (sm_pending s)(xr_key r := None)\<rparr>)" and out: "map fst out = cbs"
      using ans False by (simp_all add: xhr_answer_def Some Let_def reqs(2) cbs) (auto simp: comp_def)
    have load': "loading s' = ?fg xs @ ?fg ys" unfolding s' by (simp add: loading_def)
    have "dom (sm_pending s') = set (loading s')"
    proof -
      have "dom (sm_pending s') = dom (sm_pending s) - {xr_key r}" unfolding s' by auto
      also have "... = set (loading s')" using ok load unfolding load' sm_ok_def by auto
      finally show ?thesis .
    qed
    moreover have "distinct (loading s')" using ok load unfolding load' sm_ok_def by simp
    moreover have "distinct (map xr_id (sm_requests s'))" "\<forall>r\<in>set (sm_requests s'). xr_id r < sm_next s'"
      using ok reqs(1) by (simp_all add: s' sm_ok_def)
    ultimately have "sm_ok s'" by (simp add: sm_ok_def)
    moreover have "waiting s = waiting s' + mset (map fst out)"
      using waits_remove [OF sm_okD [OF ok] cbs] by (simp add: out s' waiting_def)
    ultimately show ?thesis by blast
  qed
qed

lemma soon_fires_ok:
  assumes "sm_ok s" and "soon_fires s = (s', out)"
  shows "sm_ok s' \<and> waiting s = waiting s' + mset (map fst out)"
  using assms by (cases "sm_soon s") (auto simp: soon_fires_def waiting_def)

fun called :: "'c request_event \<Rightarrow> 'c list" where
  "called (Call key c force) = [c]"
| "called _ = []"

lemma request_step_ok:
  assumes ok: "sm_ok s" and "request_step s e = (s', out)"
  shows "sm_ok s' \<and> waiting s + mset (called e) = waiting s' + mset (map fst out)"
proof (cases e)
  case (Call key c force)
  then have "s' = cachedXHR key c force s" "out = []" using assms(2) by (simp_all add: request_step_def)
  then show ?thesis using cached_xhr_ok [OF ok] cached_xhr_waiting [OF ok] by (simp add: Call)
next
  case (Answer i status data)
  then show ?thesis using answer_ok [OF ok] assms(2) by (simp add: request_step_def)
next
  case Soon
  then show ?thesis using soon_fires_ok [OF ok] assms(2) by (simp add: request_step_def)
qed (use assms sm_ok_cong [of s' s] in \<open>auto simp: request_step_def clearCache_def clearAllCache_def\<close>)

lemma request_run_ok:
  "sm_ok s \<Longrightarrow> request_run s es = (s', out) \<Longrightarrow>
     sm_ok s' \<and> waiting s + mset (concat (map called es)) = waiting s' + mset (map fst out)"
proof (induction es arbitrary: s s' out)
  case (Cons e es)
  obtain s1 out1 where 1: "request_step s e = (s1, out1)" by fastforce
  obtain s2 out2 where 2: "request_run s1 es = (s2, out2)" by fastforce
  have out: "s' = s2" "out = out1 @ out2" using Cons.prems(2) by (simp_all add: 1 2)
  have a: "sm_ok s1" "waiting s + mset (called e) = waiting s1 + mset (map fst out1)"
    using request_step_ok [OF Cons.prems(1) 1] by blast+
  moreover have "sm_ok s2" "waiting s1 + mset (concat (map called es)) = waiting s2 + mset (map fst out2)"
    using Cons.IH [OF a(1) 2] by blast+
  ultimately have "waiting s + mset (called e) + mset (concat (map called es)) =
      waiting s2 + mset (map fst out2) + mset (map fst out1)" by (simp only: ac_simps) (metis add.assoc add.commute)
  then show ?case using \<open>sm_ok s2\<close> by (simp add: out ac_simps)
qed simp

lemma first_manager_ok: "sm_ok first_manager" "waiting first_manager = {#}"
  by (simp_all add: sm_ok_def first_manager_def loading_def waiting_def waits_def)

text \<open>C11: however the network answers and the page clears its cache, every callback that was handed to the request
  cache has been called once or waits to be called once; of each address at most one request that is not a
  silent refresh is on its way, and callbacks are kept exactly for the addresses of these.\<close>

theorem callbacks_called_once:
  "mset (concat (map called es)) =
     mset (map fst (snd (request_run first_manager es))) + waiting (fst (request_run first_manager es))
   \<and> distinct (loading (fst (request_run first_manager es)))
   \<and> dom (sm_pending (fst (request_run first_manager es))) = set (loading (fst (request_run first_manager es)))"
proof -
  obtain s out where run: "request_run first_manager es = (s, out)" by fastforce
  then show ?thesis using request_run_ok [OF first_manager_ok(1) run]
    by (auto simp: first_manager_ok(2) sm_ok_def)
qed

section \<open>Retries and polling\<close>

text \<open>
  \<open>owed p cs\<close> are the callbacks that wait in the request cache, with those of an answer that are still to be
  called; \<open>planned\<close> counts the timers of a task.
\<close>

definition owed :: "status_requests \<Rightarrow> client multiset \<Rightarrow> client multiset" where
  "owed p cs = waiting (sp_manager p) + cs"

definition planned :: "status_requests \<Rightarrow> task \<Rightarrow> nat" where
  "planned p k = length (filter (\<lambda>t. pt_task t = k) (sp_timers p))"

definition timers_ok :: "status_requests \<Rightarrow> bool" where
  "timers_ok p \<longleftrightarrow> distinct (map pt_id (sp_timers p)) \<and> (\<forall>t\<in>set (sp_timers p). pt_id t < sp_timer_next p)
     \<and> (\<forall>m j. sp_poll_timer p m = Some j \<longrightarrow>
          j < sp_timer_next p \<and> (\<forall>t\<in>set (sp_timers p). pt_id t = j \<longrightarrow> pt_task t = Poll m))"

definition retry_places :: "status_requests \<Rightarrow> client multiset \<Rightarrow> nat \<Rightarrow> nat" where
  "retry_places p cs i = count (owed p cs) (Retrying i) + planned p (Attempt i)"

definition retries_ok :: "status_requests \<Rightarrow> client multiset \<Rightarrow> bool" where
  "retries_ok p cs \<longleftrightarrow>
     (\<forall>i. sp_retries p i = None \<longrightarrow> retry_places p cs i = 0)
     \<and> (\<forall>i r. sp_retries p i = Some r \<longrightarrow> retry_places p cs i = 1 \<and> rc_count r \<le> rc_max r)
     \<and> (\<forall>i\<ge>sp_retry_next p. sp_retries p i = None)"

definition polls_ok :: "status_requests \<Rightarrow> client multiset \<Rightarrow> bool" where
  "polls_ok p cs \<longleftrightarrow> (\<forall>m. sp_enabled p m \<longrightarrow> Polling m \<in># owed p cs \<or> 0 < planned p (Poll m))"

definition requests_ok :: "status_requests \<Rightarrow> client multiset \<Rightarrow> bool" where
  "requests_ok p cs \<longleftrightarrow> sm_ok (sp_manager p) \<and> timers_ok p \<and> retries_ok p cs \<and> polls_ok p cs"

lemma requests_okI:
  "sm_ok (sp_manager p) \<Longrightarrow> timers_ok p \<Longrightarrow> retries_ok p cs \<Longrightarrow> polls_ok p cs \<Longrightarrow> requests_ok p cs"
  by (simp add: requests_ok_def)

lemma set_timer_fields [simp]:
  "sp_manager (set_timer d k p) = sp_manager p" "sp_retries (set_timer d k p) = sp_retries p"
  "sp_retry_next (set_timer d k p) = sp_retry_next p" "sp_enabled (set_timer d k p) = sp_enabled p"
  "sp_poll_timer (set_timer d k p) = sp_poll_timer p" "sp_timer_next (set_timer d k p) = Suc (sp_timer_next p)"
  "owed (set_timer d k p) cs = owed p cs"
  "planned (set_timer d k p) j = planned p j + (if j = k then 1 else 0)"
  by (simp_all add: set_timer_def owed_def planned_def)

lemma set_timer_ok: "timers_ok p \<Longrightarrow> timers_ok (set_timer d k p)"
  by (fastforce simp: timers_ok_def set_timer_def)

lemma set_poll_timer_ok:
  "timers_ok p \<Longrightarrow> timers_ok ((set_timer d (Poll m) p)\<lparr>sp_poll_timer := (sp_poll_timer p)(m \<mapsto> sp_timer_next p)\<rparr>)"
  by (fastforce simp: timers_ok_def set_timer_def)

lemma request_for_fields [simp]:
  "sp_retries (request_for key c f p) = sp_retries p" "sp_retry_next (request_for key c f p) = sp_retry_next p"
  "sp_enabled (request_for key c f p) = sp_enabled p" "planned (request_for key c f p) k = planned p k"
  "timers_ok (request_for key c f p) = timers_ok p" "sp_timers (request_for key c f p) = sp_timers p"
  "sp_poll_timer (request_for key c f p) = sp_poll_timer p"
  by (simp_all add: request_for_def planned_def timers_ok_def)

lemma request_for_owed: "sm_ok (sp_manager p) \<Longrightarrow> owed (request_for key c f p) cs = add_mset c (owed p cs)"
  by (simp add: request_for_def owed_def cached_xhr_waiting)

lemma request_for_sm_ok: "sm_ok (sp_manager p) \<Longrightarrow> sm_ok (sp_manager (request_for key c f p))"
  by (simp add: request_for_def cached_xhr_ok)

text \<open>A request for a client that is to be called is the state in which the client is still to be called.\<close>

lemma request_for_ok: "requests_ok (request_for key c f p) cs = requests_ok p (add_mset c cs)" if "sm_ok (sp_manager p)"
proof -
  have "owed (request_for key c f p) cs = owed p (add_mset c cs)"
    using request_for_owed [OF that, of key c f cs] by (simp add: owed_def)
  then show ?thesis using that request_for_sm_ok [OF that]
    by (simp add: requests_ok_def retries_ok_def polls_ok_def retry_places_def)
qed

lemma owed_add [simp]: "owed p (add_mset c cs) = add_mset c (owed p cs)"
  by (simp add: owed_def)

lemma retry_places_add: "retry_places p (add_mset c cs) i = retry_places p cs i + (if c = Retrying i then 1 else 0)"
  by (simp add: retry_places_def)

lemma attempt_ok:
  assumes "requests_ok p (if sp_retries p i = None then cs else add_mset (Retrying i) cs)"
  shows "requests_ok (attemptRequest i p) cs"
  using assms by (cases "sp_retries p i") (simp_all add: attemptRequest_def request_for_ok requests_ok_def [of p])

lemma poll_ok:
  assumes "requests_ok p (if sp_enabled p m then add_mset (Polling m) cs else cs)"
  shows "requests_ok (poll url m p) cs"
  using assms request_for_ok [of p] by (auto simp: poll_def requests_ok_def [of p])

lemma given_ok: "requests_ok (p\<lparr>sp_given := g\<rparr>) cs = requests_ok p cs" "requests_ok (p\<lparr>sp_fed := fd\<rparr>) cs = requests_ok p cs"
  "requests_ok (p\<lparr>sp_interval := iv\<rparr>) cs = requests_ok p cs"
  by (simp_all add: requests_ok_def timers_ok_def retries_ok_def polls_ok_def retry_places_def owed_def planned_def)

lemma retries_okD:
  assumes "retries_ok p cs"
  shows "sp_retries p i = None \<Longrightarrow> retry_places p cs i = 0"
    and "sp_retries p i = Some r \<Longrightarrow> retry_places p cs i = 1"
    and "sp_retries p i = Some r \<Longrightarrow> rc_count r \<le> rc_max r"
    and "sp_retries p i = Some r \<Longrightarrow> i < sp_retry_next p"
proof -
  show "sp_retries p i = Some r \<Longrightarrow> i < sp_retry_next p"
    using assms unfolding retries_ok_def by (metis not_le option.distinct(1))
qed (use assms in \<open>simp_all add: retries_ok_def\<close>)

lemma retry_answered_ok:
  assumes "requests_ok p (add_mset (Retrying i) cs)"
  shows "requests_ok (retry_answered i a p) cs"
proof -
  have retries: "retries_ok p (add_mset (Retrying i) cs)" and tms: "timers_ok p" and sm: "sm_ok (sp_manager p)"
    and polls: "polls_ok p cs" using assms by (simp_all add: requests_ok_def polls_ok_def)
  note D = retries_okD [OF retries]
  have "sp_retries p i \<noteq> None" using D(1) [of i] by (auto simp: retry_places_add)
  then obtain r where r: "sp_retries p i = Some r" by blast
  have places: "retry_places p cs i = 0" "rc_count r \<le> rc_max r" using D(2,3) [OF r] by (simp_all add: retry_places_add)
  have below: "i < sp_retry_next p" by (rule D(4) [OF r])
  have others: "sp_retries p j = None \<Longrightarrow> retry_places p cs j = 0"
    "sp_retries p j = Some x \<Longrightarrow> j \<noteq> i \<Longrightarrow> retry_places p cs j = 1 \<and> rc_count x \<le> rc_max x" for j x
    using D(1-3) [of j] by (simp_all add: retry_places_add)
  show ?thesis
  proof (cases "ad_status a \<noteq> 200 \<and> rc_count r < rc_max r")
    case True
    let ?q = "set_timer (1000 * Suc (rc_count r)) (Attempt i) (p\<lparr>sp_retries := (sp_retries p)(i \<mapsto> r\<lparr>rc_count := Suc (rc_count r)\<rparr>)\<rparr>)"
    have "retry_places ?q cs j = retry_places p cs j + (if j = i then 1 else 0)" for j
      by (simp add: retry_places_def owed_def planned_def set_timer_def)
    then have "retries_ok ?q cs" using retries others places True below
      by (simp add: retries_ok_def)
    moreover have "timers_ok ?q" by (rule set_timer_ok) (use tms in \<open>simp add: timers_ok_def\<close>)
    moreover have "polls_ok ?q cs" using polls by (simp add: polls_ok_def owed_def planned_def set_timer_def)
    ultimately show ?thesis using True r sm by (simp add: retry_answered_def requests_ok_def)
  next
    case False
    let ?q = "p\<lparr>sp_retries := (sp_retries p)(i := None), sp_given := sp_given p @ [(rc_caller r, a)]\<rparr>"
    have "retry_places ?q cs = retry_places p cs" by (simp add: fun_eq_iff retry_places_def owed_def planned_def)
    then have "retries_ok ?q cs" using retries others places by (simp add: retries_ok_def)
    moreover have "timers_ok ?q" "polls_ok ?q cs" "sm_ok (sp_manager ?q)"
      using tms polls sm by (simp_all add: timers_ok_def polls_ok_def owed_def planned_def)
    ultimately show ?thesis using False r by (auto simp: retry_answered_def requests_ok_def)
  qed
qed

lemma poll_answered_ok:
  assumes "requests_ok p (add_mset (Polling m) cs)"
  shows "requests_ok (poll_answered m a p) cs"
proof -
  let ?p = "p\<lparr>sp_fed := sp_fed p @ [(m, if ad_status a = 200 then ad_data a else None)]\<rparr>"
  let ?q = "(set_timer (sp_interval p m) (Poll m) ?p)\<lparr>sp_poll_timer := (sp_poll_timer p)(m \<mapsto> sp_timer_next p)\<rparr>"
  have ok: "requests_ok ?p (add_mset (Polling m) cs)" using assms by (simp add: given_ok)
  then have parts: "sm_ok (sp_manager ?p)" "timers_ok ?p" "retries_ok ?p (add_mset (Polling m) cs)"
    "polls_ok ?p (add_mset (Polling m) cs)" unfolding requests_ok_def by blast+
  have places: "retry_places ?p (add_mset (Polling m) cs) = retry_places ?p cs"
    by (simp add: fun_eq_iff retry_places_add)
  show ?thesis
  proof (cases "sp_enabled p m")
    case True
    have "timers_ok ?q" using set_poll_timer_ok [OF parts(2), where d = "sp_interval p m" and m = m] by simp
    moreover have "retry_places ?q cs = retry_places ?p cs"
      by (simp add: fun_eq_iff retry_places_def owed_def planned_def set_timer_def)
    then have "retries_ok ?q cs" using parts(3) places by (simp add: retries_ok_def)
    moreover have "polls_ok ?q cs" using parts(4)
      by (auto simp: polls_ok_def owed_def planned_def set_timer_def)
    ultimately show ?thesis using True parts(1) by (simp add: poll_answered_def Let_def requests_ok_def)
  next
    case False
    then have "polls_ok ?p cs" using parts(4) by (auto simp: polls_ok_def owed_def)
    then show ?thesis using False parts(1-3) places by (simp add: poll_answered_def Let_def requests_ok_def retries_ok_def)
  qed
qed

lemma deliver_ok: "requests_ok p (add_mset c cs) \<Longrightarrow> requests_ok (deliver p (c, a)) cs"
proof (cases c)
  case (Page n)
  assume "requests_ok p (add_mset c cs)"
  then have "requests_ok p cs"
    by (simp add: Page requests_ok_def retries_ok_def polls_ok_def retry_places_add)
  then show ?thesis by (simp add: deliver_def Page given_ok)
qed (simp_all add: deliver_def retry_answered_ok poll_answered_ok)

lemma deliver_all_ok: "requests_ok p (mset (map fst out)) \<Longrightarrow> requests_ok (foldl deliver p out) {#}"
proof (induction out arbitrary: p)
  case (Cons ca out)
  then show ?case using deliver_ok [of p "fst ca" "mset (map fst out)" "snd ca"] by simp
qed simp

lemma start_polling_ok:
  assumes "requests_ok p cs"
  shows "requests_ok (start_polling url m p) cs"
proof (cases "sp_enabled p m")
  case False
  let ?p = "p\<lparr>sp_enabled := (sp_enabled p)(m := True)\<rparr>"
  have "owed ?p = owed p" "planned ?p = planned p" by (simp_all add: fun_eq_iff owed_def planned_def)
  then have "requests_ok ?p (add_mset (Polling m) cs)" using assms
    by (simp add: requests_ok_def timers_ok_def retries_ok_def polls_ok_def retry_places_def)
  then show ?thesis using False poll_ok [of ?p m cs url] by (simp add: start_polling_def)
qed (use assms in \<open>simp add: start_polling_def\<close>)

lemma planned_filter:
  assumes "\<And>t. t \<in> set (sp_timers p) \<Longrightarrow> pt_task t = k \<Longrightarrow> f t"
  shows "planned (p\<lparr>sp_timers := filter f (sp_timers p)\<rparr>) k = planned p k"
proof -
  have "filter (\<lambda>t. pt_task t = k \<and> f t) (sp_timers p) = filter (\<lambda>t. pt_task t = k) (sp_timers p)"
    using assms by (intro filter_cong) auto
  then show ?thesis by (simp add: planned_def conj_commute)
qed

lemma timers_filter_ok: "timers_ok p \<Longrightarrow> timers_ok (p\<lparr>sp_timers := filter f (sp_timers p)\<rparr>)"
  by (auto simp: timers_ok_def distinct_map_filter)

lemma stop_polling_ok:
  assumes "requests_ok p cs"
  shows "requests_ok (stop_polling m p) cs"
proof -
  let ?p = "p\<lparr>sp_enabled := (sp_enabled p)(m := False)\<rparr>"
  have parts: "sm_ok (sp_manager p)" "timers_ok p" "retries_ok p cs" "polls_ok p cs" using assms unfolding requests_ok_def by blast+
  show ?thesis
  proof (cases "sp_poll_timer p m")
    case None
    have "owed ?p = owed p" "planned ?p = planned p" by (simp_all add: fun_eq_iff owed_def planned_def)
    then show ?thesis using parts None
      by (simp add: requests_ok_def stop_polling_def Let_def timers_ok_def retries_ok_def polls_ok_def retry_places_def)
  next
    case (Some i)
    let ?f = "\<lambda>t. pt_id t \<noteq> i"
    let ?q = "?p\<lparr>sp_timers := filter ?f (sp_timers p), sp_poll_timer := (sp_poll_timer p)(m := None)\<rparr>"
    have mine: "\<forall>t\<in>set (sp_timers p). pt_id t = i \<longrightarrow> pt_task t = Poll m" using parts(2) Some by (simp add: timers_ok_def)
    have "planned ?q k = planned (p\<lparr>sp_timers := filter ?f (sp_timers p)\<rparr>) k" for k by (simp add: planned_def)
    then have planned: "planned ?q k = planned p k" if "k \<noteq> Poll m" for k
      using planned_filter [of p k ?f] mine that by auto
    have owed: "owed ?q = owed p" by (simp add: fun_eq_iff owed_def)
    have "timers_ok ?q" using timers_filter_ok [OF parts(2), of ?f] by (simp add: timers_ok_def)
    moreover have "retries_ok ?q cs" using parts(3) by (simp add: retries_ok_def retry_places_def owed planned)
    moreover have "polls_ok ?q cs" using parts(4) by (simp add: polls_ok_def owed planned)
    ultimately have "requests_ok ?q cs" using parts(1) by (simp add: requests_ok_def)
    then show ?thesis using Some by (simp add: stop_polling_def Let_def)
  qed
qed

lemma retry_call_ok:
  assumes "requests_ok p cs"
  shows "requests_ok (cachedXHRGetWithRetry n key force maxRetries p) cs"
proof -
  let ?i = "sp_retry_next p"
  let ?r = "\<lparr>rc_caller = n, rc_key = key, rc_force = force, rc_max = (if maxRetries = 0 then 3 else maxRetries), rc_count = 0\<rparr>"
  let ?p = "p\<lparr>sp_retries := (sp_retries p)(?i \<mapsto> ?r), sp_retry_next := Suc ?i\<rparr>"
  have parts: "sm_ok (sp_manager p)" "timers_ok p" "retries_ok p cs" "polls_ok p cs" using assms unfolding requests_ok_def by blast+
  have free: "sp_retries p ?i = None" using parts(3) by (simp add: retries_ok_def)
  have same: "owed ?p = owed p" "planned ?p = planned p" by (simp_all add: fun_eq_iff owed_def planned_def)
  have "retries_ok ?p (add_mset (Retrying ?i) cs)"
    using parts(3) retries_okD(1) [OF parts(3) free] by (simp add: retries_ok_def retry_places_def same)
  then have "requests_ok ?p (add_mset (Retrying ?i) cs)"
    using parts by (simp add: requests_ok_def timers_ok_def polls_ok_def same)
  then show ?thesis using attempt_ok [of ?p ?i cs] by (simp add: cachedXHRGetWithRetry_def)
qed

lemma fired_planned:
  assumes "timers_ok p" and "t \<in> set (sp_timers p)"
  shows "planned p k = planned (p\<lparr>sp_timers := filter (\<lambda>x. pt_id x \<noteq> pt_id t) (sp_timers p)\<rparr>) k
    + (if pt_task t = k then 1 else 0)"
proof -
  obtain xs ys where s: "sp_timers p = xs @ t # ys" using assms(2) by (meson split_list)
  have "pt_id t \<notin> pt_id ` set xs" "pt_id t \<notin> pt_id ` set ys" using assms(1) by (auto simp: timers_ok_def s)
  then have "filter (\<lambda>x. pt_id x \<noteq> pt_id t) xs = xs" "filter (\<lambda>x. pt_id x \<noteq> pt_id t) ys = ys"
    by (auto simp: filter_id_conv image_iff)
  then have "filter (\<lambda>x. pt_id x \<noteq> pt_id t) (sp_timers p) = xs @ ys" by (simp add: s)
  then show ?thesis by (simp add: planned_def) (simp add: s)
qed

lemma timer_ok:
  assumes "requests_ok p {#}"
  shows "requests_ok (status_step url p (Timer i)) {#}"
proof (cases "find (\<lambda>t. pt_id t = i \<and> pt_due t \<le> sm_now (sp_manager p)) (sp_timers p)")
  case None
  then show ?thesis using assms by (simp add: status_step_def)
next
  case (Some t)
  then have t: "t \<in> set (sp_timers p)" "pt_id t = i" by (auto simp: find_Some_iff)
  define q where "q = p\<lparr>sp_timers := filter (\<lambda>t. pt_id t \<noteq> i) (sp_timers p)\<rparr>"
  have parts: "sm_ok (sp_manager p)" "timers_ok p" "retries_ok p {#}" "polls_ok p {#}" using assms unfolding requests_ok_def by blast+
  have planned: "planned p k = planned q k + (if pt_task t = k then 1 else 0)" for k
    using fired_planned [OF parts(2) t(1)] t(2) by (simp add: q_def)
  have owed: "owed q = owed p" by (simp add: fun_eq_iff owed_def q_def)
  have tms: "timers_ok q" unfolding q_def by (rule timers_filter_ok [OF parts(2)])
  have same: "sp_manager q = sp_manager p" "sp_retries q = sp_retries p" "sp_retry_next q = sp_retry_next p"
    "sp_enabled q = sp_enabled p" by (simp_all add: q_def)
  show ?thesis
  proof (cases "pt_task t")
    case (Attempt j)
    have places: "retry_places q (add_mset (Retrying j) {#}) = retry_places p {#}"
      by (simp add: fun_eq_iff retry_places_add) (simp add: retry_places_def owed planned Attempt)
    have "retry_places p {#} j \<noteq> 0" by (simp add: retry_places_def planned Attempt)
    then have "sp_retries p j \<noteq> None" using retries_okD(1) [OF parts(3), of j] by auto
    moreover have "retries_ok q (add_mset (Retrying j) {#})" using parts(3) by (simp add: retries_ok_def places same)
    moreover have "polls_ok q (add_mset (Retrying j) {#})" using parts(4) by (simp add: polls_ok_def owed planned Attempt same)
    ultimately have "requests_ok (attemptRequest j q) {#}"
      using parts(1) tms by (intro attempt_ok) (auto simp: requests_ok_def same)
    then show ?thesis using Some by (simp add: status_step_def Attempt q_def)
  next
    case (Poll m)
    have places: "retry_places q cs = retry_places p cs" for cs
      by (simp add: fun_eq_iff retry_places_def owed planned Poll)
    have "retries_ok q (if sp_enabled p m then add_mset (Polling m) {#} else {#})"
      using parts(3) by (auto simp: retries_ok_def places retry_places_add same)
    moreover have "polls_ok q (if sp_enabled p m then add_mset (Polling m) {#} else {#})"
      unfolding polls_ok_def
    proof (intro allI impI)
      fix n
      assume n: "sp_enabled q n"
      then have "Polling n \<in># owed p {#} \<or> 0 < planned p (Poll n)" using parts(4) by (simp add: polls_ok_def same)
      then show "Polling n \<in># owed q (if sp_enabled p m then add_mset (Polling m) {#} else {#}) \<or> 0 < planned q (Poll n)"
        using n by (cases "n = m") (auto simp: owed planned Poll same)
    qed
    ultimately have "requests_ok (poll url m q) {#}"
      using parts(1) tms by (intro poll_ok) (simp add: requests_ok_def same)
    then show ?thesis using Some by (simp add: status_step_def Poll q_def)
  qed
qed

lemma manager_ok:
  assumes "requests_ok p {#}" and "called e = []"
  shows "requests_ok (let (s, out) = request_step (sp_manager p) e in foldl deliver (p\<lparr>sp_manager := s\<rparr>) out) {#}"
proof -
  obtain s out where step: "request_step (sp_manager p) e = (s, out)" by fastforce
  let ?p = "p\<lparr>sp_manager := s\<rparr>"
  have sm: "sm_ok s" "waiting (sp_manager p) = waiting s + mset (map fst out)"
    using request_step_ok [OF _ step] assms by (simp_all add: requests_ok_def)
  have "owed ?p (mset (map fst out)) = owed p {#}" using sm(2) by (simp add: owed_def)
  moreover have "planned ?p = planned p" by (simp add: fun_eq_iff planned_def)
  ultimately have "requests_ok ?p (mset (map fst out))" using assms(1) sm(1)
    by (simp add: requests_ok_def timers_ok_def retries_ok_def polls_ok_def retry_places_def)
  then have "requests_ok (foldl deliver ?p out) {#}" by (rule deliver_all_ok)
  then show ?thesis by (simp add: step)
qed

lemma status_step_ok:
  assumes "requests_ok p {#}"
  shows "requests_ok (status_step url p e) {#}"
proof (cases e)
  case (Page_call key n force)
  have "requests_ok p (add_mset (Page n) {#})"
    using assms by (simp add: requests_ok_def retries_ok_def polls_ok_def retry_places_add)
  then show ?thesis using assms by (simp add: status_step_def Page_call request_for_ok requests_ok_def [of p])
next
  case (Manager f)
  show ?thesis using assms manager_ok [OF assms, of f] by (cases f) (simp_all add: status_step_def Manager)
next
  case (Timer i)
  then show ?thesis using timer_ok [OF assms] by simp
qed (use assms in \<open>simp_all add: status_step_def retry_call_ok start_polling_ok stop_polling_ok given_ok\<close>)

lemma first_requests_ok: "requests_ok first_requests {#}"
  by (simp add: requests_ok_def first_requests_def timers_ok_def retries_ok_def polls_ok_def retry_places_def owed_def
      planned_def first_manager_ok)

lemma requests_reachable_ok: "requests_reachable url p \<Longrightarrow> requests_ok p {#}"
  by (induction rule: requests_reachable.induct) (simp_all add: first_requests_ok status_step_ok)


lemma in_waits: "finite (dom f) \<Longrightarrow> c \<in># waits f \<Longrightarrow> \<exists>k cbs. f k = Some cbs \<and> c \<in> set cbs"
  by (fastforce simp: waits_def set_mset_sum dom_def)

text \<open>C19: polling goes on as long as it is enabled, whatever is stopped, started and answered: the manager waits for
  an answer, and then a request for the address is on its way or an entry is about to be delivered, or a timer
  will poll again.\<close>

theorem polling_alive:
  assumes "requests_reachable url p" and "sp_enabled p m"
  shows "0 < planned p (Poll m)
    \<or> (\<exists>r cbs. r \<in> set (sm_requests (sp_manager p)) \<and> \<not> xr_silent r
         \<and> sm_pending (sp_manager p) (xr_key r) = Some cbs \<and> Polling m \<in> set cbs)
    \<or> Polling m \<in> so_callback ` set (sm_soon (sp_manager p))"
proof -
  have ok: "sm_ok (sp_manager p)" "polls_ok p {#}" using requests_reachable_ok [OF assms(1)] by (simp_all add: requests_ok_def)
  then consider "0 < planned p (Poll m)" | "Polling m \<in># waits (sm_pending (sp_manager p))"
    | "Polling m \<in> so_callback ` set (sm_soon (sp_manager p))"
    using assms(2) by (auto simp: polls_ok_def owed_def waiting_def)
  then show ?thesis
  proof cases
    case 2
    then obtain k cbs where cbs: "sm_pending (sp_manager p) k = Some cbs" "Polling m \<in> set cbs"
      using in_waits [OF sm_okD [OF ok(1)]] by blast
    then have "k \<in> set (loading (sp_manager p))" using ok(1) by (auto simp: sm_ok_def)
    then show ?thesis using cbs by (auto simp: loading_def)
  qed blast+
qed

lemma deliver_polls:
  "sp_enabled (deliver p ca) = sp_enabled p"
  "planned (deliver p ca) (Poll m) = planned p (Poll m) + (if fst ca = Polling m \<and> sp_enabled p m then 1 else 0)"
proof -
  obtain c a where ca: "ca = (c, a)" by fastforce
  have "planned (p\<lparr>sp_given := g\<rparr>) k = planned p k" "planned (p\<lparr>sp_retries := x, sp_given := g\<rparr>) k = planned p k"
    "planned (p\<lparr>sp_retries := x\<rparr>) k = planned p k" "planned (p\<lparr>sp_fed := f\<rparr>) k = planned p k"
    "planned (p\<lparr>sp_poll_timer := y\<rparr>) k = planned p k" for g x f y k p by (simp_all add: planned_def)
  then show "sp_enabled (deliver p ca) = sp_enabled p"
    "planned (deliver p ca) (Poll m) = planned p (Poll m) + (if fst ca = Polling m \<and> sp_enabled p m then 1 else 0)"
    by (cases c; simp add: ca deliver_def retry_answered_def poll_answered_def Let_def split: option.split)+
qed

lemma delivers_polls:
  "sp_enabled p m \<Longrightarrow> planned (foldl deliver p out) (Poll m) = planned p (Poll m) + count (mset (map fst out)) (Polling m)"
  by (induction out arbitrary: p) (simp_all add: deliver_polls)

lemma stop_polling_fields:
  "sp_manager (stop_polling m p) = sp_manager p" "\<not> sp_enabled (stop_polling m p) m"
  by (simp_all add: stop_polling_def Let_def split: option.split)

lemma stop_keeps_all_but_one:
  assumes "timers_ok p"
  shows "planned p k \<le> Suc (planned (stop_polling m p) k)"
proof (cases "sp_poll_timer p m")
  case None
  then show ?thesis by (simp add: stop_polling_def Let_def planned_def)
next
  case (Some i)
  have st: "planned (stop_polling m p) k = planned (p\<lparr>sp_timers := filter (\<lambda>t. pt_id t \<noteq> i) (sp_timers p)\<rparr>) k"
    by (simp add: stop_polling_def Let_def planned_def Some)
  show ?thesis
  proof (cases "\<exists>t\<in>set (sp_timers p). pt_id t = i")
    case True
    then obtain t where "t \<in> set (sp_timers p)" "pt_id t = i" by blast
    then show ?thesis using fired_planned [OF assms, of t k] unfolding st by simp
  next
    case False
    then have "filter (\<lambda>t. pt_id t \<noteq> i) (sp_timers p) = sp_timers p" by (auto simp: filter_id_conv)
    then show ?thesis unfolding st by simp
  qed
qed


section \<open>Inputs to apply them to\<close>

definition demo_poll_url :: "poll_manager \<Rightarrow> jsstr" where
  "demo_poll_url m = (case m of SystemStatusManager \<Rightarrow> [1] | NetworkStatsManager \<Rightarrow> [2])"

definition demo_requests :: status_requests where
  "demo_requests = foldl (status_step demo_poll_url) first_requests
     [Start NetworkStatsManager, Retry_call [3] 7 True 2, Manager (Answer 1 500 None)]"

lemma requests_steps: "requests_reachable url p \<Longrightarrow> requests_reachable url (foldl (status_step url) p es)"
  by (induction es arbitrary: p) (simp_all add: requests_reachable.step)

lemma demo_requests_reachable: "requests_reachable demo_poll_url demo_requests"
  unfolding demo_requests_def by (rule requests_steps) (rule requests_reachable.first)

lemmas request_defs = status_step_def start_polling_def poll_def request_for_def cachedXHR_def send_xhr_def Let_def
  cachedXHRGetWithRetry_def attemptRequest_def request_step_def xhr_answer_def store_answer_def deliver_def retry_answered_def
  set_timer_def first_requests_def first_manager_def demo_poll_url_def

lemma demo_requests_state:
  "sm_requests (sp_manager demo_requests) = [\<lparr>xr_id = 0, xr_key = [2], xr_silent = False\<rparr>]
   \<and> sm_pending (sp_manager demo_requests) [2] = Some [Polling NetworkStatsManager]
   \<and> sp_enabled demo_requests NetworkStatsManager
   \<and> sp_retries demo_requests 0 = Some \<lparr>rc_caller = 7, rc_key = [3], rc_force = True, rc_max = 2, rc_count = 1\<rparr>"
  by (simp add: demo_requests_def request_defs)


theorem polling_alive_witness:
  "0 < planned demo_requests (Poll NetworkStatsManager)
   \<or> (\<exists>r cbs. r \<in> set (sm_requests (sp_manager demo_requests)) \<and> \<not> xr_silent r
        \<and> sm_pending (sp_manager demo_requests) (xr_key r) = Some cbs \<and> Polling NetworkStatsManager \<in> set cbs)
   \<or> Polling NetworkStatsManager \<in> so_callback ` set (sm_soon (sp_manager demo_requests))"
  by (rule polling_alive [OF demo_requests_reachable]) (use demo_requests_state in simp)


end
