(* ===== verification/Spec2Isabelle.thy ===== *)
theory Spec2Isabelle
  imports RoundTrip LinkProperties SubconverterMachine DeviceDeletion ScheduleRules DeviceText
    TrafficQuota NodeProperties ThemeUpdates LogStream TimeRules GeoLookup
    VnstatSeries StatusSockets StatusRequests
begin

text \<open>
  Verification of the browser scripts of Spackage, a feed of OpenWrt packages whose LuCI pages are
  written in JavaScript. Twelve scripts that carry logic of their own are modelled; each is loaded by its
  page alone, and they share no state but the page, the router service and the language.

  \<^bold>\<open>The language.\<close> The theories with the prefix \<open>Js\<close> give the part of JavaScript and of its standard
  library that the scripts use, each function with the lemmas the components share.
  \<open>Prelude\<close>: code units as 16-bit words, texts as lists of them, \<open>js\<close> for ASCII literals.
  \<open>JsString\<close>: search, split, join, trim, case. \<open>JsRegExp\<close>: regular expressions with captures and the
  backtracking order of ECMAScript, by success continuations. \<open>JsUri\<close>: \<open>encodeURIComponent\<close> and
  \<open>decodeURIComponent\<close> over UTF-16 and UTF-8. \<open>JsBase64\<close>: \<open>btoa\<close>, \<open>atob\<close> and the helpers of
  \<open>server_url.js\<close>. \<open>JsObject\<close>: objects with insertion order and integer keys first. \<open>JsJson\<close>:
  \<open>JSON.parse\<close>. \<open>JsNumber\<close>: number texts of naturals, \<open>parseInt\<close>. \<open>JsDouble\<close>: binary doubles as the
  rationals they stand for, with round-to-nearest-even, \<open>Math.round\<close> and safe integers. \<open>JsSort\<close>:
  \<open>Array.prototype.sort\<close> as the stable sort the standard prescribes for a consistent comparison; the
  locale \<open>comparison\<close> states that contract and is interpreted on every comparison the scripts use.

  \<^bold>\<open>Share links of OpenClash nodes\<close>, \<open>openclash/js/server_url.js\<close>. \<open>FormFields\<close> is the node form as the script
  reads and writes it (the locale of a field store is interpreted on it), \<open>UrlSyntax\<close> the parser of URLs,
  queries and fragments, \<open>OtherParams\<close> the YAML text of parameters without a field, \<open>Export\<close> and \<open>Import\<close>
  the twelve exporters and parsers with the status the buttons show; a parser is a list of guarded writes
  in the order of the source, so that an exception keeps the writes before it. \<open>ImportLemmas\<close>,
  \<open>RoundTrip\<close> and \<open>LinkProperties\<close> show: an exported Trojan link restores the fields of the form; Base64,
  queries and URLs round-trip; an import that throws keeps its earlier writes; decoding a fragment ends,
  with a text that no further decoding changes; a field write is retried at most 30 times.

  \<^bold>\<open>Log stream\<close>, \<open>ocCreateLogStream\<close> in \<open>openclash/js/common.js\<close>. \<open>LogStream\<close> is one streamer with its request,
  the lines of its text and its three timers; the network is an adversary that cuts the response anywhere.
  Each line is shown once and in order, a reconnection goes on where the response stopped, an abort is
  final; after a network error the lines are shown again.

  \<^bold>\<open>Live statistics\<close>, parts of \<open>openclash/js/status.js\<close>. \<open>StatusSockets\<close> is \<open>WSManager\<close> with \<open>syncDataSource\<close>,
  its web sockets, connections, heartbeats and timers; \<open>page_step\<close> is one event of a socket, a timer, the user
  or the router, and sockets that the script has dropped go on to send events. Each source has at most one
  live socket, an error of any of them goes over to polling, and a view gets exactly its sources; a
  reconnection planned before the core stopped is not called off. \<open>StatusRequests\<close> is \<open>StateManager\<close> of the same
  file, the cache that joins requests for an address, with its retries, and the managers that poll with it:
  every callback is called once, polling goes on while it is enabled, and a restart during a request doubles it.

  \<^bold>\<open>Subconverter status\<close>, \<open>openclash/js/subconverter-version.js\<close>. \<open>Subconverter\<close> has the texts and addresses,
  \<open>SubconverterMachine\<close> the widget with its timer, lookups, abort controllers and cache as a state machine
  whose network answers any pending fetch in any order or never. A lookup ends after at most two answers
  for each address (direct and through the proxy), a stale answer changes nothing, and what \<open>run\<close> shows is
  the best of what the addresses gave, as a declarative specification says.

  \<^bold>\<open>Bandix\<close>. \<open>DeviceDeletion\<close> (\<open>bandix/devices.js\<close>): selection and deletion in batches of 50, with the
  validation of each reply. \<open>ScheduleRules\<close> (\<open>view/bandix/index.js\<close>): rate limits by time of day, in minutes,
  their dialog and cache. \<open>DeviceTable\<close>, \<open>DeviceText\<close> (the same file): order, state and texts of the device
  list. \<open>TrafficQuota\<close> (\<open>bandix/quota.js\<close>): the quota form; a quota shown and saved unchanged is sent back as
  it was, and whatever is typed the request is well-formed. \<open>GeoLookup\<close> (\<open>bandix/geoip.js\<close>): the location
  database, its form and its calls; with a known status at most one call is ever under way.

  \<^bold>\<open>Node list of PassWall 2\<close>, \<open>view/passwall2/node_list_sort.js\<close>. \<open>NodeTable\<close> has the rows, their sort keys and
  the filter values, \<open>NodeList\<close> one group table with its headers, filter bar, note and waiting sort;
  \<open>node_step\<close> is one event of the user, the template, the network or the clock. \<open>NodeProperties\<close> shows that
  it refines a list of ids that is only permuted, that \<open>orig\<close> restores the order at enhancement, what a sort
  and a filter do, that nothing moves while a ping runs, and that a wait ends after at most 241 runs of the
  interval function (120000 ms in steps of 500 ms, and one more).

  \<^bold>\<open>Updates of the Argon theme\<close>, \<open>argon/updates.js\<close>. \<open>ThemeVersion\<close> has versions, their order and the package
  of a release, \<open>ThemeUpdates\<close> the update section: the variables of \<open>render\<close>, every text and button that
  \<open>refresh\<close> writes, and the four calls to the router, whose answers come in any order or never. An
  installation is started only by accepting the dialog, alone, and for a newer package of the theme.

  \<^bold>\<open>Time control\<close>, \<open>view/timecontrol/rules.js\<close>. \<open>TimeRanges\<close> has the time ranges of a rule: their test in the
  form, their order and the minutes they leave free, each characterised by the sets of seconds that the
  ranges stand for. \<open>TimeRules\<close> has the texts of the rule table, the choices of the temporary duration, the
  quick settings that write to many rules, and the state of the firewall chain.

  \<^bold>\<open>Network usage\<close>, \<open>netstat/vnstat-parse.js\<close>. \<open>VnstatSeries\<close> turns the rows of vnStat into labels, byte counts
  and totals; each dated row is shown once, in the order of the calendar, and then the current period.

  \<^bold>\<open>Parameters.\<close> Code and data outside the repository are arguments: \<open>new URL\<close> of the browser, the text of a
  non-integer number, \<open>toLowerCase\<close> beyond ASCII, the collator and the Unicode classes of letters and
  numbers, the translations, the format functions of LuCI and of dates, \<open>map_invert\<close> of the
  firewall tools, \<open>localeCompare\<close>, and the clock. Nothing is assumed
  of them but what a theorem names.

  \<^bold>\<open>Not modelled.\<close> HTML, style sheets and charts; the routing of DOM events to a table or a widget; the
  temporary textarea of the clipboard copy; the history of \<open>view/bandix/index.js\<close> and its rendering of
  tables; the browser URL objects of the dashboard addresses and the theme colours of \<open>openclash/js/common.js\<close>;
  the managers of files, settings, logs and charts of \<open>openclash/js/status.js\<close>, and exceptions of its handlers;
  the form of \<open>rules.js\<close> that is built by calls of LuCI; the scripts of
  the other packages. Names of properties of \<open>Object.prototype\<close> (\<open>constructor\<close>) used as a phase, an error
  code, a word of a remark or a week day are outside the models of the lookup objects of
  \<open>argon/updates.js\<close>, \<open>bandix/quota.js\<close>, \<open>node_list_sort.js\<close> and \<open>rules.js\<close>.
\<close>

end
